(* ===== verification/Prelude.thy ===== *)
theory Prelude
  imports Main "HOL-Library.Word" "HOL-Library.AList" "HOL-Library.Char_ord"
    "HOL-Library.List_Lexorder" "HOL-Library.Product_Lexorder" "HOL-Library.Code_Target_Nat"
begin

text \<open>
  Shared vocabulary of the development: the machine types, the result type of fallible code,
  and the generic lemmas every component uses.

  \<^item> A Rust \<open>u8\<close> of a bitmap is an \<open>8 word\<close>; \<open>u64\<close> (timestamps, stream ids,
    client ids) is a \<open>64 word\<close>; \<open>u32\<close> a \<open>32 word\<close>. The repository is built with
    \<open>cargo build --release\<close>, so their arithmetic wraps around.
  \<^item> \<open>i64\<close> values are integers in \<open>[-2^63, 2^63)\<close>; \<open>wrap_i64\<close> writes the wrap-around
    out where the code can overflow. A \<open>usize\<close> that is a length is a \<open>nat\<close>.
  \<^item> A byte of a buffer and a byte of a \<open>String\<close> is a \<open>char\<close> (HOL's \<open>char\<close> has
    exactly 256 values), so \<open>length\<close> is Rust's \<open>len()\<close>.
  \<^item> \<open>result\<close> is Rust's \<open>Result\<close> with a third outcome, \<open>Panic\<close>: the thread, which
    is the whole server, stops.
\<close>

named_theorems rust_std \<open>equations of the standard-library functions the code uses\<close>
named_theorems resp_simps \<open>evaluation of RESP values\<close>
named_theorems parser_simps \<open>one step of the RESP parser\<close>
named_theorems inv_intros \<open>preservation of a component invariant by one operation\<close>

type_synonym u8 = "8 word"
type_synonym u32 = "32 word"
type_synonym u64 = "64 word"
type_synonym bytes = "char list"

definition wrap_i64 :: "int \<Rightarrow> int" where
  "wrap_i64 x = (x + 2 ^ 63) mod 2 ^ 64 - 2 ^ 63"

definition wrap_usize :: "nat \<Rightarrow> nat" where
  "wrap_usize n = n mod 2 ^ 64"

definition i64_range :: "int \<Rightarrow> bool" where
  "i64_range x \<longleftrightarrow> - (2 ^ 63) \<le> x \<and> x < 2 ^ 63"

lemma wrap_i64_id: "i64_range x \<Longrightarrow> wrap_i64 x = x"
  by (simp add: wrap_i64_def i64_range_def)

lemma wrap_i64_range: "i64_range (wrap_i64 x)"
  using pos_mod_bound [of "2 ^ 64" "x + 2 ^ 63"] pos_mod_sign [of "2 ^ 64" "x + 2 ^ 63"]
  by (simp add: wrap_i64_def i64_range_def)

section \<open>Results\<close>

datatype ('a, 'e) result = Ok 'a | Err 'e | Panic

fun rbind :: "('a, 'e) result \<Rightarrow> ('a \<Rightarrow> ('b, 'e) result) \<Rightarrow> ('b, 'e) result" where
  "rbind (Ok x) f = f x"
| "rbind (Err e) f = Err e"
| "rbind Panic f = Panic"

fun ok_or :: "'a option \<Rightarrow> 'e \<Rightarrow> ('a, 'e) result" where
  "ok_or (Some x) e = Ok x"
| "ok_or None e = Err e"

fun unwrap :: "'a option \<Rightarrow> ('a, 'e) result" where
  "unwrap (Some x) = Ok x"
| "unwrap None = Panic"

lemma rbind_Ok_iff: "rbind m f = Ok y \<longleftrightarrow> (\<exists>x. m = Ok x \<and> f x = Ok y)"
  by (cases m) auto

lemma rbind_assoc: "rbind (rbind m f) g = rbind m (\<lambda>x. rbind (f x) g)"
  by (cases m) auto

lemma rbind_cong [fundef_cong]:
  "m = m' \<Longrightarrow> (\<And>x. m' = Ok x \<Longrightarrow> f x = g x) \<Longrightarrow> rbind m f = rbind m' g"
  by (cases m') auto

text \<open>Iterator \<open>try_for_each\<close> that collects: the first error stops it.\<close>

fun try_map :: "('a \<Rightarrow> ('b, 'e) result) \<Rightarrow> 'a list \<Rightarrow> ('b list, 'e) result" where
  "try_map f [] = Ok []"
| "try_map f (x # xs) = rbind (f x) (\<lambda>y. rbind (try_map f xs) (\<lambda>ys. Ok (y # ys)))"

lemma try_map_Ok: "(\<And>x. x \<in> set xs \<Longrightarrow> f x = Ok (g x)) \<Longrightarrow> try_map f xs = Ok (map g xs)"
  by (induction xs) auto

text \<open>
  The same loop with its result discarded (\<open>let _ = ...try_for_each(...)\<close>): what was
  pushed before the first error stays.
\<close>

fun take_until_err :: "('a \<Rightarrow> ('b, 'e) result) \<Rightarrow> 'a list \<Rightarrow> 'b list" where
  "take_until_err f [] = []"
| "take_until_err f (x # xs) =
     (case f x of Ok y \<Rightarrow> y # take_until_err f xs | _ \<Rightarrow> [])"

section \<open>Generic lemmas\<close>

lemma take_min_length: "take (min n (length xs)) xs = take n xs"
  by (cases "n \<le> length xs") auto

lemma drop_min_length: "drop (min n (length xs)) xs = drop n xs"
  by (cases "n \<le> length xs") auto

lemma strict_sorted_filter:
  "sorted_wrt (<) (map f xs) \<Longrightarrow> sorted_wrt (<) (map f (filter P xs))"
  by (induction xs) auto

end
