(* ===== verification/RustStd.thy ===== *)
theory RustStd
  imports Prelude
begin

text \<open>
  The functions of Rust's standard library the program computes with: ASCII case conversion,
  decimal printing and \<open>parse\<close> of integers with their error values, UTF-8 validation
  (\<open>str::from_utf8\<close>), and \<open>split\<close>.
\<close>

section \<open>ASCII case\<close>

definition ascii_upper_char :: "char \<Rightarrow> char" where
  "ascii_upper_char c =
     (if 97 \<le> (of_char c :: nat) \<and> (of_char c :: nat) \<le> 122 then char_of (of_char c - 32 :: nat) else c)"

definition ascii_lower_char :: "char \<Rightarrow> char" where
  "ascii_lower_char c =
     (if 65 \<le> (of_char c :: nat) \<and> (of_char c :: nat) \<le> 90 then char_of (of_char c + 32 :: nat) else c)"

definition to_ascii_upper :: "string \<Rightarrow> string" where
  "to_ascii_upper = map ascii_upper_char"

definition to_ascii_lower :: "string \<Rightarrow> string" where
  "to_ascii_lower = map ascii_lower_char"

lemma length_to_ascii_upper [simp]: "length (to_ascii_upper s) = length s"
  by (simp add: to_ascii_upper_def)

lemma ascii_upper_char_idem: "ascii_upper_char (ascii_upper_char c) = ascii_upper_char c"
proof -
  have "of_char c - 32 < (256 :: nat)" using of_char_mod_256 [of c] by (metis less_imp_diff_less mod_less_divisor zero_less_numeral)
  then show ?thesis by (auto simp: ascii_upper_char_def)
qed

lemma to_ascii_upper_idem: "to_ascii_upper (to_ascii_upper s) = to_ascii_upper s"
  by (simp add: to_ascii_upper_def ascii_upper_char_idem)

section \<open>Decimal printing\<close>

definition digit_char :: "nat \<Rightarrow> char" where
  "digit_char d = char_of (48 + d)"

fun show_nat :: "nat \<Rightarrow> string" where
  "show_nat n = (if n < 10 then [digit_char n] else show_nat (n div 10) @ [digit_char (n mod 10)])"

declare show_nat.simps [simp del]

definition show_int :: "int \<Rightarrow> string" where
  "show_int i = (if i < 0 then CHR ''-'' # show_nat (nat (- i)) else show_nat (nat i))"

definition show_u64 :: "u64 \<Rightarrow> string" where
  "show_u64 w = show_nat (unat w)"

section \<open>Integer parsing\<close>

text \<open>\<open>core::num::IntErrorKind\<close> and the texts of its \<open>Display\<close>.\<close>

datatype int_error = IntEmpty | InvalidDigit | PosOverflow | NegOverflow

fun int_error_msg :: "int_error \<Rightarrow> string" where
  "int_error_msg IntEmpty = ''cannot parse integer from empty string''"
| "int_error_msg InvalidDigit = ''invalid digit found in string''"
| "int_error_msg PosOverflow = ''number too large to fit in target type''"
| "int_error_msg NegOverflow = ''number too small to fit in target type''"

definition is_digit :: "char \<Rightarrow> bool" where
  "is_digit c \<longleftrightarrow> 48 \<le> (of_char c :: nat) \<and> (of_char c :: nat) \<le> 57"

definition digit_val :: "char \<Rightarrow> nat" where
  "digit_val c = of_char c - 48"

text \<open>
  The digit loop of \<open>from_str_radix\<close>: it stops at the first digit that is no digit or that
  takes the value past the bound.
\<close>

fun digits_loop :: "nat \<Rightarrow> int_error \<Rightarrow> nat \<Rightarrow> string \<Rightarrow> (nat, int_error) result" where
  "digits_loop bound ovf acc [] = Ok acc"
| "digits_loop bound ovf acc (c # cs) =
     (if \<not> is_digit c then Err InvalidDigit
      else if bound < acc * 10 + digit_val c then Err ovf
      else digits_loop bound ovf (acc * 10 + digit_val c) cs)"

definition parse_unsigned :: "nat \<Rightarrow> string \<Rightarrow> (nat, int_error) result" where
  "parse_unsigned bound s =
     (if s = [] then Err IntEmpty
      else if s = ''+'' \<or> s = ''-'' then Err InvalidDigit
      else digits_loop bound PosOverflow 0 (if hd s = CHR ''+'' then tl s else s))"

definition parse_i64 :: "string \<Rightarrow> (int, int_error) result" where
  "parse_i64 s =
     (if s = [] then Err IntEmpty
      else if s = ''+'' \<or> s = ''-'' then Err InvalidDigit
      else if hd s = CHR ''-''
      then rbind (digits_loop (2 ^ 63) NegOverflow 0 (tl s)) (\<lambda>n. Ok (- int n))
      else rbind (digits_loop (2 ^ 63 - 1) PosOverflow 0 (if hd s = CHR ''+'' then tl s else s))
             (\<lambda>n. Ok (int n)))"

definition parse_usize :: "string \<Rightarrow> (nat, int_error) result" where
  "parse_usize = parse_unsigned (2 ^ 64 - 1)"

definition parse_u64 :: "string \<Rightarrow> (u64, int_error) result" where
  "parse_u64 s = rbind (parse_unsigned (2 ^ 64 - 1) s) (\<lambda>n. Ok (of_nat n))"

definition parse_u16 :: "string \<Rightarrow> (nat, int_error) result" where
  "parse_u16 = parse_unsigned (2 ^ 16 - 1)"

definition parse_u8 :: "string \<Rightarrow> (u8, int_error) result" where
  "parse_u8 s = rbind (parse_unsigned 255 s) (\<lambda>n. Ok (of_nat n))"

subsection \<open>Round trips between printing and parsing\<close>

lemma of_char_digit_char [simp]: "d < 10 \<Longrightarrow> (of_char (digit_char d) :: nat) = 48 + d"
  by (simp add: digit_char_def)

lemma is_digit_digit_char [simp]: "d < 10 \<Longrightarrow> is_digit (digit_char d)"
  by (simp add: is_digit_def)

lemma digit_val_digit_char [simp]: "d < 10 \<Longrightarrow> digit_val (digit_char d) = d"
  by (simp add: digit_val_def)

lemma show_nat_nonempty [simp]: "show_nat n \<noteq> []"
  by (subst show_nat.simps) simp

lemma show_nat_digits: "c \<in> set (show_nat n) \<Longrightarrow> is_digit c"
proof (induction n rule: show_nat.induct)
  case (1 n)
  from "1.prems" show ?case
    by (subst (asm) show_nat.simps) (auto split: if_splits dest: "1.IH")
qed

lemma digits_loop_append:
  "digits_loop b e acc (xs @ ys) = rbind (digits_loop b e acc xs) (\<lambda>a. digits_loop b e a ys)"
  by (induction xs arbitrary: acc) auto

lemma digits_loop_show_nat: "n \<le> b \<Longrightarrow> digits_loop b e 0 (show_nat n) = Ok n"
proof (induction n rule: show_nat.induct)
  case (1 n)
  show ?case
  proof (cases "n < 10")
    case True
    with "1.prems" show ?thesis by (subst show_nat.simps) simp
  next
    case False
    have "n div 10 \<le> b" using "1.prems" by (meson div_le_dividend order_trans)
    with False have "digits_loop b e 0 (show_nat (n div 10)) = Ok (n div 10)"
      by (rule "1.IH")
    with False "1.prems" show ?thesis
      by (subst show_nat.simps) (simp add: digits_loop_append)
  qed
qed

lemma hd_show_nat_digit: "is_digit (hd (show_nat n))"
  using show_nat_digits [of "hd (show_nat n)" n] by simp

lemma digit_not_sign: "is_digit c \<Longrightarrow> c \<noteq> CHR ''+'' \<and> c \<noteq> CHR ''-''"
  by (auto simp: is_digit_def)

lemma show_nat_not_sign: "show_nat n \<noteq> ''+''" "show_nat n \<noteq> ''-''"
  "hd (show_nat n) \<noteq> CHR ''+''" "hd (show_nat n) \<noteq> CHR ''-''"
  using hd_show_nat_digit [of n] by (auto simp: is_digit_def)

lemma parse_unsigned_show_nat [rust_std]: "n \<le> b \<Longrightarrow> parse_unsigned b (show_nat n) = Ok n"
  by (simp add: parse_unsigned_def digits_loop_show_nat show_nat_not_sign)

lemma parse_usize_show_nat [rust_std]: "n < 2 ^ 64 \<Longrightarrow> parse_usize (show_nat n) = Ok n"
  by (simp add: parse_usize_def parse_unsigned_show_nat)

lemma parse_u64_show_u64 [rust_std]: "parse_u64 (show_u64 w) = Ok w"
proof -
  have "unat w \<le> 2 ^ 64 - 1" using unsigned_less [of w, where ?'a = nat] by simp
  then show ?thesis by (simp add: parse_u64_def show_u64_def parse_unsigned_show_nat)
qed

lemma parse_i64_show_int [rust_std]: "i64_range i \<Longrightarrow> parse_i64 (show_int i) = Ok i"
  by (auto simp: parse_i64_def show_int_def i64_range_def digits_loop_show_nat show_nat_not_sign)

text \<open>What \<open>parse::<i64>\<close> accepts is in range, and the loop never passes its bound.\<close>

lemma digits_loop_bound: "digits_loop b e acc s = Ok n \<Longrightarrow> acc \<le> b \<Longrightarrow> n \<le> b"
  by (induction s arbitrary: acc) (auto split: if_splits)

lemma parse_i64_range: "parse_i64 s = Ok i \<Longrightarrow> i64_range i"
  by (auto simp: parse_i64_def i64_range_def rbind_Ok_iff split: if_splits
      dest!: digits_loop_bound)

lemma digits_loop_no_panic [simp]: "digits_loop b e acc s \<noteq> Panic"
  by (induction s arbitrary: acc) auto

section \<open>UTF-8\<close>

text \<open>
  \<open>str::from_utf8\<close> accepts exactly the well-formed byte sequences of the Unicode standard
  (table 3-7): no overlong forms, no surrogates, nothing past U+10FFFF.
\<close>

definition in_range :: "nat \<Rightarrow> nat \<Rightarrow> char \<Rightarrow> bool" where
  "in_range lo hi c \<longleftrightarrow> lo \<le> of_char c \<and> of_char c \<le> hi"

abbreviation cont :: "char \<Rightarrow> bool" where
  "cont \<equiv> in_range 0x80 0xBF"

fun utf8_valid :: "bytes \<Rightarrow> bool" where
  "utf8_valid [] = True"
| "utf8_valid (a # s) =
     (if in_range 0 0x7F a then utf8_valid s
      else (case s of [] \<Rightarrow> False
      | b # s1 \<Rightarrow>
        if in_range 0xC2 0xDF a then cont b \<and> utf8_valid s1
        else (case s1 of [] \<Rightarrow> False
        | c # s2 \<Rightarrow>
          if in_range 0xE0 0xE0 a then in_range 0xA0 0xBF b \<and> cont c \<and> utf8_valid s2
          else if in_range 0xED 0xED a then in_range 0x80 0x9F b \<and> cont c \<and> utf8_valid s2
          else if in_range 0xE1 0xEF a then cont b \<and> cont c \<and> utf8_valid s2
          else (case s2 of [] \<Rightarrow> False
          | d # s3 \<Rightarrow>
            if in_range 0xF0 0xF0 a then in_range 0x90 0xBF b \<and> cont c \<and> cont d \<and> utf8_valid s3
            else if in_range 0xF1 0xF3 a then cont b \<and> cont c \<and> cont d \<and> utf8_valid s3
            else in_range 0xF4 0xF4 a \<and> in_range 0x80 0x8F b \<and> cont c \<and> cont d \<and> utf8_valid s3))))"

declare utf8_valid.simps(2) [simp del]

lemma utf8_valid_ascii_Cons [simp]: "in_range 0 0x7F a \<Longrightarrow> utf8_valid (a # s) = utf8_valid s"
  by (subst utf8_valid.simps) simp

lemma utf8_valid_ascii: "(\<And>c. c \<in> set s \<Longrightarrow> (of_char c :: nat) < 128) \<Longrightarrow> utf8_valid s"
proof (induction s)
  case (Cons a s)
  then have "(of_char a :: nat) < 128" by simp
  then have "in_range 0 0x7F a" by (simp add: in_range_def)
  with Cons show ?case by simp
qed simp

lemma utf8_valid_show_nat: "utf8_valid (show_nat n)"
  by (rule utf8_valid_ascii) (auto dest!: show_nat_digits simp: is_digit_def)

section \<open>Splitting\<close>

text \<open>\<open>str::split(c)\<close>: always at least one piece.\<close>

fun split_on :: "char \<Rightarrow> string \<Rightarrow> string list" where
  "split_on c [] = [[]]"
| "split_on c (x # xs) =
     (if x = c then [] # split_on c xs
      else (case split_on c xs of [] \<Rightarrow> [[x]] | p # ps \<Rightarrow> (x # p) # ps))"

lemma split_on_nonempty [simp]: "split_on c s \<noteq> []"
  by (cases s) (auto split: list.splits)

lemma split_on_no_sep: "c \<notin> set s \<Longrightarrow> split_on c s = [s]"
  by (induction s) auto

lemma split_on_append_sep:
  "c \<notin> set s \<Longrightarrow> split_on c (s @ c # t) = s # split_on c t"
  by (induction s) auto

end
