(* ===== verification/Exceptions.thy ===== *)
theory Exceptions
  imports RustStd
begin

text \<open>
  \<open>src/src/exceptions.rs\<close>: the error type of the command layer and the conversions into it.
  The conversion into a reply (\<open>into_resp\<close>) is in theory \<open>Resp\<close>, with the reply type.
\<close>

datatype custom_error =
    PathNotExists string
  | InvalidArgument string
  | MissingArgument string
  | ParseError string
  | NoCmdError string
  | UnsupportedCmdStructure string
  | UnsupportedCmd string
  | UnprocessableError string
  | InternalError string
  | FileReadingError
  | RDBParsingError
  | WrongUsernamePassword string
  | OutOfIndex
  | Dummy

type_synonym 'a cres = "('a, custom_error) result"

text \<open>The \<open>From\<close> impls behind the \<open>?\<close> operator.\<close>

fun of_parse_int :: "('a, int_error) result \<Rightarrow> 'a cres" where
  "of_parse_int (Ok x) = Ok x"
| "of_parse_int (Err e) = Err (ParseError (int_error_msg e))"
| "of_parse_int Panic = Panic"

definition from_utf8 :: "bytes \<Rightarrow> string cres" where
  "from_utf8 b = (if utf8_valid b then Ok b else Err (ParseError ''Error parsing UTF8''))"

lemma of_parse_int_Ok_iff [simp]: "of_parse_int r = Ok x \<longleftrightarrow> r = Ok x"
  by (cases r) auto

end
