(* ===== verification/Resp.thy ===== *)
theory Resp
  imports Exceptions
begin

text \<open>
  \<open>RespType\<close> of \<open>src/src/resp.rs\<close>: the values of the Redis protocol, their constructors
  during parsing, and their wire format. \<open>ser\<close> is the wire format as a total function;
  \<open>serialize\<close> is the code, which has a \<open>todo!\<close> arm and so may panic.
\<close>

type_synonym f64 = "64 word"

datatype resp_type =
    SimpleStr "string option"
  | RError "string option"
  | Integer "int option"
  | BulkStr nat "string option"
  | NullBulkStr
  | Array nat "resp_type list option"
  | RNull
  | RBool "int option"
  | Double "f64 option"
  | BigNbr "string option"
  | BulkError nat "string option"
  | VerbatimStr nat "string option"
  | RMap
  | RAttr
  | RSet
  | RPush
  | RDB "bytes option"
  | RBytes "bytes option"

datatype read_out = OutString string | OutBytes bytes

definition delimiter :: bytes where
  "delimiter = [CHR 0x0D, CHR 0x0A]"

lemma delimiter_nonempty [simp]: "delimiter \<noteq> []"
  by (simp add: delimiter_def)

fun get_prefix :: "resp_type \<Rightarrow> string" where
  "get_prefix (SimpleStr _) = ''+''"
| "get_prefix (RError _) = ''-''"
| "get_prefix (Integer _) = '':''"
| "get_prefix (BulkStr _ _) = ''$''"
| "get_prefix NullBulkStr = ''$-1'' @ delimiter"
| "get_prefix (Array _ _) = ''*''"
| "get_prefix RNull = ''_''"
| "get_prefix (RBool _) = ''#''"
| "get_prefix (Double _) = '',''"
| "get_prefix (BigNbr _) = ''(''"
| "get_prefix (BulkError _ _) = ''!''"
| "get_prefix (VerbatimStr _ _) = ''=''"
| "get_prefix RMap = ''%''"
| "get_prefix RAttr = ''|''"
| "get_prefix RSet = ''~''"
| "get_prefix RPush = ''>''"
| "get_prefix (RDB _) = ''$''"
| "get_prefix (RBytes _) = ''''"

definition match_prefix :: "char \<Rightarrow> bool \<Rightarrow> resp_type option" where
  "match_prefix c rdb =
     (if c = CHR ''+'' then Some (SimpleStr None)
      else if c = CHR ''-'' then Some (RError None)
      else if c = CHR '':'' then Some (Integer None)
      else if c = CHR ''$'' then Some (if rdb then RDB None else BulkStr 0 None)
      else if c = CHR ''*'' then Some (Array 0 None)
      else if c = CHR ''_'' then Some RNull
      else if c = CHR ''#'' then Some (RBool None)
      else if c = CHR '','' then Some (Double None)
      else if c = CHR ''!'' then Some (BulkError 0 None)
      else if c = CHR ''='' then Some (VerbatimStr 0 None)
      else if c = CHR ''%'' then Some RMap
      else if c = CHR ''|'' then Some RAttr
      else if c = CHR ''~'' then Some RSet
      else if c = CHR ''>'' then Some RPush
      else None)"

fun set_length :: "nat \<Rightarrow> resp_type \<Rightarrow> resp_type" where
  "set_length n (Array _ v) = Array n v"
| "set_length n (BulkStr _ v) = BulkStr n v"
| "set_length n r = r"

fun is_completed :: "resp_type \<Rightarrow> bool" where
  "is_completed (SimpleStr v) = (v \<noteq> None)"
| "is_completed (RError v) = (v \<noteq> None)"
| "is_completed (Integer v) = (v \<noteq> None)"
| "is_completed (Array n v) = (case v of Some xs \<Rightarrow> length xs = n | None \<Rightarrow> False)"
| "is_completed (BulkStr _ v) = (v \<noteq> None)"
| "is_completed (BulkError _ v) = (v \<noteq> None)"
| "is_completed (VerbatimStr _ v) = (v \<noteq> None)"
| "is_completed (RDB v) = (v \<noteq> None)"
| "is_completed _ = False"

fun add_item :: "resp_type \<Rightarrow> resp_type \<Rightarrow> resp_type" where
  "add_item (Array n v) item = Array n (Some ((case v of Some xs \<Rightarrow> xs | None \<Rightarrow> []) @ [item]))"
| "add_item r item = r"

text \<open>\<open>get_or_insert\<close>: a value already there stays.\<close>

definition get_or_insert :: "'a option \<Rightarrow> 'a \<Rightarrow> 'a option" where
  "get_or_insert v x = Some (case v of Some y \<Rightarrow> y | None \<Rightarrow> x)"

fun set_value :: "resp_type \<Rightarrow> read_out \<Rightarrow> (resp_type, string) result" where
  "set_value (SimpleStr v) (OutString s) = Ok (SimpleStr (get_or_insert v s))"
| "set_value (RError v) (OutString s) = Ok (RError (get_or_insert v s))"
| "set_value (BulkStr n v) (OutString s) = Ok (BulkStr n (get_or_insert v s))"
| "set_value (RDB v) (OutBytes b) = Ok (RDB (get_or_insert v b))"
| "set_value _ _ = Err ''Not implemented''"

definition bulk_bytes :: "bytes \<Rightarrow> resp_type" where
  "bulk_bytes v = RBytes (Some (''$'' @ show_nat (length v) @ delimiter @ v @ delimiter))"

fun get_str :: "resp_type \<Rightarrow> string option" where
  "get_str (SimpleStr v) = v"
| "get_str (BulkStr _ v) = v"
| "get_str _ = None"

fun get_int :: "resp_type \<Rightarrow> int option" where
  "get_int (Integer v) = v"
| "get_int _ = None"

section \<open>Wire format\<close>

fun serialize :: "resp_type \<Rightarrow> bytes cres"
  and serialize_all :: "resp_type list \<Rightarrow> bytes cres" where
  "serialize (Array n v) =
     (case v of
        Some xs \<Rightarrow> rbind (serialize_all xs) (\<lambda>b. Ok (get_prefix (Array n v) @ show_nat n @ delimiter @ b))
      | None \<Rightarrow> Ok (get_prefix (Array n v) @ show_int (-1) @ delimiter))"
| "serialize (BulkStr n v) =
     (case v of
        Some s \<Rightarrow> Ok (get_prefix (BulkStr n v) @ show_nat n @ delimiter @ s @ delimiter)
      | None \<Rightarrow> Ok (get_prefix (BulkStr n v) @ show_int (-1) @ delimiter))"
| "serialize (SimpleStr v) =
     Ok (case v of Some s \<Rightarrow> get_prefix (SimpleStr v) @ s @ delimiter | None \<Rightarrow> [])"
| "serialize (Integer v) =
     Ok (case v of Some x \<Rightarrow> get_prefix (Integer v) @ show_int x @ delimiter | None \<Rightarrow> [])"
| "serialize (RDB (Some b)) = Ok (get_prefix (RDB (Some b)) @ show_nat (length b) @ delimiter @ b)"
| "serialize (RError v) =
     Ok (case v of Some s \<Rightarrow> get_prefix (RError v) @ s @ delimiter | None \<Rightarrow> [])"
| "serialize (RBytes v) = Ok (case v of Some b \<Rightarrow> b | None \<Rightarrow> [])"
| "serialize NullBulkStr = Ok (''$-1'' @ delimiter)"
| "serialize _ = Panic"
| "serialize_all [] = Ok []"
| "serialize_all (x # xs) = rbind (serialize x) (\<lambda>b. rbind (serialize_all xs) (\<lambda>bs. Ok (b @ bs)))"

text \<open>The values whose serialisation is implemented, and the format itself.\<close>

fun serializable :: "resp_type \<Rightarrow> bool" where
  "serializable (Array n v) = (case v of Some xs \<Rightarrow> list_all serializable xs | None \<Rightarrow> True)"
| "serializable (BulkStr _ _) = True"
| "serializable (SimpleStr _) = True"
| "serializable (Integer _) = True"
| "serializable (RDB v) = (v \<noteq> None)"
| "serializable (RError _) = True"
| "serializable (RBytes _) = True"
| "serializable NullBulkStr = True"
| "serializable _ = False"

fun ser :: "resp_type \<Rightarrow> bytes" where
  "ser (Array n v) =
     (case v of Some xs \<Rightarrow> ''*'' @ show_nat n @ delimiter @ concat (map ser xs)
      | None \<Rightarrow> ''*-1'' @ delimiter)"
| "ser (BulkStr n v) =
     (case v of Some s \<Rightarrow> ''$'' @ show_nat n @ delimiter @ s @ delimiter
      | None \<Rightarrow> ''$-1'' @ delimiter)"
| "ser (SimpleStr v) = (case v of Some s \<Rightarrow> ''+'' @ s @ delimiter | None \<Rightarrow> [])"
| "ser (Integer v) = (case v of Some x \<Rightarrow> '':'' @ show_int x @ delimiter | None \<Rightarrow> [])"
| "ser (RDB v) = (case v of Some b \<Rightarrow> ''$'' @ show_nat (length b) @ delimiter @ b | None \<Rightarrow> [])"
| "ser (RError v) = (case v of Some s \<Rightarrow> ''-'' @ s @ delimiter | None \<Rightarrow> [])"
| "ser (RBytes v) = (case v of Some b \<Rightarrow> b | None \<Rightarrow> [])"
| "ser NullBulkStr = ''$-1'' @ delimiter"
| "ser _ = []"

lemma show_int_minus_one [simp]: "show_int (-1) = ''-1''"
  by code_simp

lemma serialize_all_ser:
  "(\<And>x. x \<in> set xs \<Longrightarrow> serialize x = Ok (ser x)) \<Longrightarrow> serialize_all xs = Ok (concat (map ser xs))"
  by (induction xs) auto

lemma serialize_ok: "serializable r \<Longrightarrow> serialize r = Ok (ser r)"
  by (induction r rule: serializable.induct)
    (auto split: option.splits simp: list_all_iff serialize_all_ser)

lemma serialize_all_Ok:
  "serialize_all xs = Ok b \<Longrightarrow> x \<in> set xs \<Longrightarrow> \<exists>b'. serialize x = Ok b'"
  by (induction xs arbitrary: b) (auto simp: rbind_Ok_iff)

lemma serialize_Ok_serializable: "serialize r = Ok b \<Longrightarrow> serializable r"
proof (induction r arbitrary: b rule: serializable.induct)
  case (1 n v)
  then show ?case
    by (fastforce simp: list_all_iff rbind_Ok_iff split: option.splits dest: serialize_all_Ok)
next
  case (5 v)
  then show ?case by (cases v) auto
qed (auto split: option.splits)

section \<open>Replies of errors\<close>

fun into_resp :: "custom_error \<Rightarrow> resp_type" where
  "into_resp (PathNotExists s) = RError (Some s)"
| "into_resp (InvalidArgument s) = RError (Some s)"
| "into_resp (MissingArgument s) = RError (Some s)"
| "into_resp (ParseError s) = RError (Some s)"
| "into_resp (NoCmdError s) = RError (Some s)"
| "into_resp (UnsupportedCmdStructure s) = RError (Some s)"
| "into_resp (UnsupportedCmd s) = RError (Some s)"
| "into_resp (UnprocessableError s) = RError (Some s)"
| "into_resp (InternalError s) = RError (Some s)"
| "into_resp (WrongUsernamePassword s) = RError (Some s)"
| "into_resp FileReadingError = NullBulkStr"
| "into_resp RDBParsingError = NullBulkStr"
| "into_resp OutOfIndex = NullBulkStr"
| "into_resp Dummy = NullBulkStr"

definition into_error_bytes :: "custom_error \<Rightarrow> bytes" where
  "into_error_bytes e = ser (into_resp e)"

lemma into_resp_serializable [simp]: "serializable (into_resp e)"
  by (cases e) auto

text \<open>Shorthands for the replies the handlers build.\<close>

definition bulk :: "string \<Rightarrow> resp_type" where
  "bulk s = BulkStr (length s) (Some s)"

definition nil_bulk :: resp_type where
  "nil_bulk = BulkStr 0 None"

definition arr :: "resp_type list \<Rightarrow> resp_type" where
  "arr xs = Array (length xs) (Some xs)"

definition null_arr :: resp_type where
  "null_arr = Array 0 None"

lemma serializable_bulk [simp]: "serializable (bulk s)" "serializable nil_bulk"
  "serializable null_arr" "serializable (arr xs) = list_all serializable xs"
  by (simp_all add: bulk_def nil_bulk_def null_arr_def arr_def)

lemma is_completed_bulk [simp]: "is_completed (bulk s)" "is_completed (arr xs)"
  by (simp_all add: bulk_def arr_def)

end
