(* ===== verification/Floats.thy ===== *)
theory Floats
  imports Resp
begin

text \<open>
  Rust's \<open>f64\<close> as the program uses it: IEEE 754 binary64 bit patterns, comparison,
  correctly rounded arithmetic, the casts \<open>as f64\<close>, \<open>as u64\<close> and \<open>as u32\<close>,
  \<open>str::parse::<f64>\<close> and the \<open>Display\<close> of a float. Rounding is to nearest, ties to
  even; every NaN that an operation produces is the canonical one.
  The trigonometric functions of \<open>geohash::distance\<close> come from the platform's libm and
  have unspecified precision, so they are parameters where they are used.
\<close>

section \<open>Bit patterns\<close>

definition mag_bits :: "f64 \<Rightarrow> nat" where
  "mag_bits x = unat x mod 2 ^ 63"

definition f_sign :: "f64 \<Rightarrow> bool" where
  "f_sign x \<longleftrightarrow> 2 ^ 63 \<le> unat x"

definition inf_bits :: nat where
  "inf_bits = 2047 * 2 ^ 52"

definition is_nan :: "f64 \<Rightarrow> bool" where
  "is_nan x \<longleftrightarrow> inf_bits < mag_bits x"

definition is_inf :: "f64 \<Rightarrow> bool" where
  "is_inf x \<longleftrightarrow> mag_bits x = inf_bits"

definition make_f64 :: "bool \<Rightarrow> nat \<Rightarrow> f64" where
  "make_f64 s b = of_nat ((if s then 2 ^ 63 else 0) + b)"

definition f_nan :: f64 where
  "f_nan = make_f64 False (inf_bits + 2 ^ 51)"

text \<open>The value of a finite pattern is \<open>f_mant x * 2 powr f_expo x\<close> with the sign put in front.\<close>

definition f_mant :: "f64 \<Rightarrow> nat" where
  "f_mant x = (let e = mag_bits x div 2 ^ 52; m = mag_bits x mod 2 ^ 52
               in if e = 0 then m else m + 2 ^ 52)"

definition f_expo :: "f64 \<Rightarrow> int" where
  "f_expo x = (let e = mag_bits x div 2 ^ 52 in if e = 0 then - 1074 else int e - 1075)"

section \<open>Comparison\<close>

text \<open>
  On the patterns that are no NaN the order is that of the sign-magnitude key; both zeros
  have key 0. \<open>partial_cmp\<close> is \<open>None\<close> as soon as one side is NaN.
\<close>

definition f64_key :: "f64 \<Rightarrow> int" where
  "f64_key x = (if f_sign x then - int (mag_bits x) else int (mag_bits x))"

datatype ordering = Less | Equal | Greater

definition int_cmp :: "int \<Rightarrow> int \<Rightarrow> ordering" where
  "int_cmp a b = (if a < b then Less else if a = b then Equal else Greater)"

definition partial_cmp :: "f64 \<Rightarrow> f64 \<Rightarrow> ordering option" where
  "partial_cmp x y = (if is_nan x \<or> is_nan y then None else Some (int_cmp (f64_key x) (f64_key y)))"

definition f_lt :: "f64 \<Rightarrow> f64 \<Rightarrow> bool" where
  "f_lt x y \<longleftrightarrow> partial_cmp x y = Some Less"

definition f_eq :: "f64 \<Rightarrow> f64 \<Rightarrow> bool" where
  "f_eq x y \<longleftrightarrow> partial_cmp x y = Some Equal"

definition f_le :: "f64 \<Rightarrow> f64 \<Rightarrow> bool" where
  "f_le x y \<longleftrightarrow> f_lt x y \<or> f_eq x y"

section \<open>Rounding\<close>

fun nbits :: "nat \<Rightarrow> nat" where
  "nbits n = (if n = 0 then 0 else Suc (nbits (n div 2)))"

declare nbits.simps [simp del]

definition round_even :: "nat \<Rightarrow> nat \<Rightarrow> nat" where
  "round_even p q =
     (let d = p div q; r = p mod q
      in if 2 * r < q \<or> (2 * r = q \<and> even d) then d else d + 1)"

definition scale_num :: "nat \<Rightarrow> int \<Rightarrow> nat" where
  "scale_num p e = (if 0 \<le> e then p else p * 2 ^ nat (- e))"

definition scale_den :: "nat \<Rightarrow> int \<Rightarrow> nat" where
  "scale_den q e = (if 0 \<le> e then q * 2 ^ nat e else q)"

text \<open>
  The magnitude of the float nearest to \<open>p / q\<close>. The exponent is chosen so that the
  quotient has 53 bits, but never below that of the subnormals; a carry out of the mantissa
  moves into the exponent by itself, and past the largest finite value the result is infinite.
\<close>

definition round_expo :: "nat \<Rightarrow> nat \<Rightarrow> int" where
  "round_expo p q =
     (let e = int (nbits p) - int (nbits q) - 53
      in max (- 1074) (if 2 ^ 53 \<le> scale_num p e div scale_den q e then e + 1 else e))"

definition round_mag :: "nat \<Rightarrow> nat \<Rightarrow> nat" where
  "round_mag p q =
     (if p = 0 then 0
      else let e = round_expo p q
           in min (nat (e + 1074) * 2 ^ 52 + round_even (scale_num p e) (scale_den q e)) inf_bits)"

definition round_scaled :: "bool \<Rightarrow> nat \<Rightarrow> int \<Rightarrow> f64" where
  "round_scaled s m e = make_f64 s (round_mag (scale_num m (- e)) (scale_den 1 (- e)))"

section \<open>Arithmetic\<close>

definition f_neg :: "f64 \<Rightarrow> f64" where
  "f_neg x = make_f64 (\<not> f_sign x) (mag_bits x)"

definition f_abs :: "f64 \<Rightarrow> f64" where
  "f_abs x = make_f64 False (mag_bits x)"

definition f_mul :: "f64 \<Rightarrow> f64 \<Rightarrow> f64" where
  "f_mul x y =
     (let s = (f_sign x \<noteq> f_sign y) in
      if is_nan x \<or> is_nan y then f_nan
      else if is_inf x \<or> is_inf y
      then (if mag_bits x = 0 \<or> mag_bits y = 0 then f_nan else make_f64 s inf_bits)
      else round_scaled s (f_mant x * f_mant y) (f_expo x + f_expo y))"

definition f_div :: "f64 \<Rightarrow> f64 \<Rightarrow> f64" where
  "f_div x y =
     (let s = (f_sign x \<noteq> f_sign y) in
      if is_nan x \<or> is_nan y then f_nan
      else if is_inf x then (if is_inf y then f_nan else make_f64 s inf_bits)
      else if is_inf y then make_f64 s 0
      else if mag_bits y = 0 then (if mag_bits x = 0 then f_nan else make_f64 s inf_bits)
      else let e = f_expo x - f_expo y
           in make_f64 s (round_mag (scale_num (f_mant x) (- e)) (scale_den (f_mant y) (- e))))"

text \<open>The exact sum at the smaller exponent, then rounded; an exact zero is positive.\<close>

definition signed :: "f64 \<Rightarrow> int \<Rightarrow> int" where
  "signed x e = (if f_sign x then - 1 else 1) * int (f_mant x) * 2 ^ nat (f_expo x - e)"

definition f_add :: "f64 \<Rightarrow> f64 \<Rightarrow> f64" where
  "f_add x y =
     (if is_nan x \<or> is_nan y then f_nan
      else if is_inf x then (if is_inf y \<and> f_sign x \<noteq> f_sign y then f_nan else x)
      else if is_inf y then y
      else let e = min (f_expo x) (f_expo y); v = signed x e + signed y e
           in if v = 0 then make_f64 (f_sign x \<and> f_sign y) 0
              else round_scaled (v < 0) (nat \<bar>v\<bar>) e)"

definition f_sub :: "f64 \<Rightarrow> f64 \<Rightarrow> f64" where
  "f_sub x y = f_add x (f_neg y)"

section \<open>Casts\<close>

definition f_of_nat :: "nat \<Rightarrow> f64" where
  "f_of_nat n = make_f64 False (round_mag n 1)"

text \<open>\<open>as u64\<close> and \<open>as u32\<close>: truncation that saturates, NaN becomes 0.\<close>

definition f_trunc :: "f64 \<Rightarrow> nat" where
  "f_trunc x = scale_num (f_mant x) (- f_expo x) div scale_den 1 (- f_expo x)"

definition f_to_uint :: "nat \<Rightarrow> f64 \<Rightarrow> nat" where
  "f_to_uint mx x =
     (if is_nan x \<or> f_sign x then 0
      else if is_inf x then mx
      else min (f_trunc x) mx)"

definition f_to_u64 :: "f64 \<Rightarrow> u64" where
  "f_to_u64 x = of_nat (f_to_uint (2 ^ 64 - 1) x)"

definition f_to_u32 :: "f64 \<Rightarrow> u32" where
  "f_to_u32 x = of_nat (f_to_uint (2 ^ 32 - 1) x)"

section \<open>Parsing\<close>

datatype float_error = FloatEmpty | FloatInvalid

fun float_error_msg :: "float_error \<Rightarrow> string" where
  "float_error_msg FloatEmpty = ''cannot parse float from empty string''"
| "float_error_msg FloatInvalid = ''invalid float literal''"

definition round_dec :: "nat \<Rightarrow> int \<Rightarrow> nat" where
  "round_dec c s = (if 0 \<le> s then round_mag (c * 10 ^ nat s) 1 else round_mag c (10 ^ nat (- s)))"

fun digits_val :: "nat \<Rightarrow> string \<Rightarrow> nat" where
  "digits_val acc [] = acc"
| "digits_val acc (c # cs) = digits_val (acc * 10 + digit_val c) cs"

text \<open>\<open>[eE] [+-] digits\<close>, all or nothing.\<close>

definition parse_exponent :: "string \<Rightarrow> int option" where
  "parse_exponent s =
     (case s of
        [] \<Rightarrow> Some 0
      | c # r \<Rightarrow>
          if c = CHR ''e'' \<or> c = CHR ''E''
          then let neg = (r \<noteq> [] \<and> hd r = CHR ''-'');
                   ds = (if r \<noteq> [] \<and> (hd r = CHR ''-'' \<or> hd r = CHR ''+'') then tl r else r)
               in if ds = [] \<or> \<not> list_all is_digit ds then None
                  else Some (if neg then - int (digits_val 0 ds) else int (digits_val 0 ds))
          else None)"

definition parse_decimal :: "string \<Rightarrow> nat option" where
  "parse_decimal s =
     (let i = takeWhile is_digit s; r = dropWhile is_digit s;
          dot = (r \<noteq> [] \<and> hd r = CHR ''.'');
          f = (if dot then takeWhile is_digit (tl r) else []);
          e = (if dot then dropWhile is_digit (tl r) else r)
      in if i = [] \<and> f = [] then None
         else case parse_exponent e of
                None \<Rightarrow> None
              | Some x \<Rightarrow> Some (round_dec (digits_val 0 (i @ f)) (x - int (length f))))"

definition parse_magnitude :: "string \<Rightarrow> nat option" where
  "parse_magnitude s =
     (let l = to_ascii_lower s in
      if l = ''inf'' \<or> l = ''infinity'' then Some inf_bits
      else if l = ''nan'' then Some (inf_bits + 2 ^ 51)
      else parse_decimal s)"

definition parse_f64 :: "string \<Rightarrow> (f64, float_error) result" where
  "parse_f64 s =
     (if s = [] then Err FloatEmpty
      else let neg = (hd s = CHR ''-'');
               r = (if hd s = CHR ''-'' \<or> hd s = CHR ''+'' then tl s else s)
           in case parse_magnitude r of
                Some b \<Rightarrow> Ok (make_f64 neg b)
              | None \<Rightarrow> Err FloatInvalid)"

fun of_parse_float :: "('a, float_error) result \<Rightarrow> 'a cres" where
  "of_parse_float (Ok x) = Ok x"
| "of_parse_float (Err e) = Err (ParseError (float_error_msg e))"
| "of_parse_float Panic = Panic"

section \<open>Display\<close>

text \<open>
  \<open>to_string\<close> prints the shortest decimal that rounds back to the float, without an
  exponent; among the shortest ones the closest. Seventeen significant digits are enough
  for a binary64.
\<close>

function lead_zeros :: "nat \<Rightarrow> nat \<Rightarrow> nat" where
  "lead_zeros p q = (if p = 0 \<or> q \<le> p * 10 then 0 else Suc (lead_zeros (p * 10) q))"
  by pat_completeness auto

termination
  by (relation "measure (\<lambda>(p, q). q - p)") auto

declare lead_zeros.simps [simp del]

definition dec_expo :: "nat \<Rightarrow> nat \<Rightarrow> int" where
  "dec_expo p q =
     (if q \<le> p then int (length (show_nat (p div q))) else - int (lead_zeros p q))"

text \<open>The decimals with \<open>n\<close> digits around \<open>p / q\<close> that round to the bits \<open>b\<close>.\<close>

definition pick_digits :: "nat \<Rightarrow> nat \<Rightarrow> nat \<Rightarrow> int \<Rightarrow> nat option" where
  "pick_digits b p q s =
     (let p' = (if 0 \<le> s then p else p * 10 ^ nat (- s));
          q' = (if 0 \<le> s then q * 10 ^ nat s else q);
          lo = p' div q'; hi = lo + 1
      in if round_dec lo s = b \<and> (round_dec hi s \<noteq> b \<or> 2 * (p' mod q') < q') then Some lo
         else if round_dec hi s = b then Some hi else None)"

fun shortest :: "nat \<Rightarrow> nat \<Rightarrow> nat \<Rightarrow> nat \<Rightarrow> nat \<Rightarrow> int \<Rightarrow> (nat \<times> int) option" where
  "shortest 0 n b p q k = None"
| "shortest (Suc fuel) n b p q k =
     (case pick_digits b p q (k - int n) of
        Some c \<Rightarrow> Some (c, k - int n)
      | None \<Rightarrow> shortest fuel (Suc n) b p q k)"

fun strip_zeros :: "nat \<Rightarrow> int \<Rightarrow> nat \<times> int" where
  "strip_zeros c s = (if c = 0 \<or> c mod 10 \<noteq> 0 then (c, s) else strip_zeros (c div 10) (s + 1))"

declare strip_zeros.simps [simp del]

definition render_dec :: "nat \<Rightarrow> int \<Rightarrow> string" where
  "render_dec c s =
     (let ds = show_nat c; n = nat (- s) in
      if 0 \<le> s then ds @ replicate (nat s) (CHR ''0'')
      else if n < length ds
      then take (length ds - n) ds @ ''.'' @ drop (length ds - n) ds
      else ''0.'' @ replicate (n - length ds) (CHR ''0'') @ ds)"

definition show_mag :: "f64 \<Rightarrow> string" where
  "show_mag x =
     (let p = scale_num (f_mant x) (- f_expo x); q = scale_den 1 (- f_expo x) in
      if p = 0 then ''0''
      else case shortest 17 1 (mag_bits x) p q (dec_expo p q) of
             Some (c, s) \<Rightarrow> (case strip_zeros c s of (c', s') \<Rightarrow> render_dec c' s')
           | None \<Rightarrow> show_nat (p div q))"

definition show_f64 :: "f64 \<Rightarrow> string" where
  "show_f64 x =
     (if is_nan x then ''NaN''
      else (if f_sign x then ''-'' else '''') @ (if is_inf x then ''inf'' else show_mag x))"

text \<open>\<open>format!("{:.6}", x)\<close>.\<close>

definition show_fixed6 :: "f64 \<Rightarrow> string" where
  "show_fixed6 x =
     (if is_nan x then ''NaN''
      else (if f_sign x then ''-'' else '''') @
        (if is_inf x then ''inf''
         else let n = round_even (scale_num (f_mant x) (- f_expo x) * 10 ^ 6) (scale_den 1 (- f_expo x));
                  ds = show_nat (n mod 10 ^ 6)
              in show_nat (n div 10 ^ 6) @ ''.'' @ replicate (6 - length ds) (CHR ''0'') @ ds))"

section \<open>Small integers are exact\<close>

lemma nbits_1 [simp]: "nbits (Suc 0) = 1"
  by (simp add: nbits.simps [of "Suc 0"] nbits.simps [of 0])

lemma nbits_pos: "0 < n \<Longrightarrow> 0 < nbits n"
  by (subst nbits.simps) simp

lemma nbits_bounds: "0 < n \<Longrightarrow> 2 ^ (nbits n - 1) \<le> n \<and> n < 2 ^ nbits n"
proof (induction n rule: nbits.induct)
  case (1 n)
  show ?case
  proof (cases "n div 2 = 0")
    case True
    with 1 have "n = 1" by simp
    then show ?thesis by simp
  next
    case False
    define k where "k = nbits (n div 2)"
    from False 1 have "2 ^ (k - 1) \<le> n div 2" "n div 2 < 2 ^ k" by (auto simp: k_def)
    moreover have "0 < k" using False by (simp add: k_def nbits_pos)
    moreover have "nbits n = Suc k" using 1 by (subst nbits.simps) (simp add: k_def)
    ultimately show ?thesis
      by (cases k) (auto simp: field_simps)
  qed
qed

lemma nbits_le: "n < 2 ^ k \<Longrightarrow> nbits n \<le> k"
proof (cases "n = 0")
  case False
  assume "n < 2 ^ k"
  with nbits_bounds [of n] False have "(2::nat) ^ (nbits n - 1) < 2 ^ k" by linarith
  then show ?thesis using False nbits_pos [of n] by simp
qed (simp add: nbits.simps)

lemma round_even_1 [simp]: "round_even p (Suc 0) = p"
  by (simp add: round_even_def)

text \<open>An integer of at most 53 bits is shifted until it has exactly 53.\<close>

lemma round_mag_small:
  assumes "0 < n" and "n < 2 ^ 53"
  shows "round_mag n 1 = (nbits n + 1021) * 2 ^ 52 + n * 2 ^ (53 - nbits n)"
    and "2 ^ 52 \<le> n * 2 ^ (53 - nbits n)" and "n * 2 ^ (53 - nbits n) < 2 ^ 53"
proof -
  define b where "b = nbits n"
  have b: "0 < b" "b \<le> 53" using assms by (auto simp: b_def nbits_pos nbits_le)
  have bnd: "2 ^ (b - 1) \<le> n" "n < 2 ^ b" using nbits_bounds [OF assms(1)] by (auto simp: b_def)
  have split: "(2::nat) ^ 52 = 2 ^ (b - 1) * 2 ^ (53 - b)" "(2::nat) ^ 53 = 2 ^ b * 2 ^ (53 - b)"
    using b by (simp_all flip: power_add)
  show lo: "2 ^ 52 \<le> n * 2 ^ (53 - nbits n)"
    unfolding split b_def [symmetric] using bnd by (intro mult_right_mono) auto
  show hi: "n * 2 ^ (53 - nbits n) < 2 ^ 53"
    unfolding split b_def [symmetric] using bnd by (intro mult_strict_right_mono) auto
  have "(2::nat) ^ (54 - b) = 2 * 2 ^ (53 - b)" using b by (simp flip: power_Suc add: Suc_diff_le)
  then have "2 ^ 53 \<le> n * 2 ^ (54 - b)" using lo by (simp add: b_def)
  moreover have "nat (54 - int b) = 54 - b" "nat (53 - int b) = 53 - b" by simp_all
  ultimately have e: "round_expo n 1 = int b - 53"
    using b by (simp add: round_expo_def scale_num_def scale_den_def flip: b_def)
  have "round_mag n 1 = min ((b + 1021) * 2 ^ 52 + n * 2 ^ (53 - b)) inf_bits"
  proof (cases "b = 53")
    case True
    then show ?thesis using assms e
      by (simp add: round_mag_def Let_def scale_num_def scale_den_def)
  next
    case False
    with b have "b < 53" by simp
    then show ?thesis using assms e
      by (simp add: round_mag_def Let_def scale_num_def scale_den_def nat_add_distrib nat_diff_distrib)
  qed
  then show "round_mag n 1 = (nbits n + 1021) * 2 ^ 52 + n * 2 ^ (53 - nbits n)"
    using b hi by (simp add: inf_bits_def b_def min_def)
qed

lemma unat_make: "b < 2 ^ 63 \<Longrightarrow> unat (make_f64 s b) = (if s then 2 ^ 63 else 0) + b"
  unfolding make_f64_def unsigned_of_nat of_nat_id by (rule take_bit_nat_eq_self) simp

lemma mag_bits_make [simp]: "b < 2 ^ 63 \<Longrightarrow> mag_bits (make_f64 s b) = b"
  by (simp add: mag_bits_def unat_make)

lemma f_sign_make [simp]: "b < 2 ^ 63 \<Longrightarrow> f_sign (make_f64 s b) = s"
  by (simp add: f_sign_def unat_make)

lemma f_of_nat_decode:
  assumes "0 < n" and "n < 2 ^ 53"
  shows "mag_bits (f_of_nat n) = (nbits n + 1021) * 2 ^ 52 + n * 2 ^ (53 - nbits n)"
    and "f_mant (f_of_nat n) = n * 2 ^ (53 - nbits n)" and "f_expo (f_of_nat n) = int (nbits n) - 53"
    and "\<not> f_sign (f_of_nat n)" and "mag_bits (f_of_nat n) < inf_bits"
proof -
  note r = round_mag_small [OF assms]
  define b where "b = nbits n"
  define m where "m = n * 2 ^ (53 - b) - 2 ^ 52"
  have b: "b \<le> 53" using assms by (simp add: b_def nbits_le)
  have m: "n * 2 ^ (53 - b) = m + 2 ^ 52" "m < 2 ^ 52" using r(2,3) by (auto simp: m_def b_def)
  have mag: "round_mag n 1 = (b + 1022) * 2 ^ 52 + m" using r(1) m by (simp add: b_def)
  moreover have small: "(b + 1022) * 2 ^ 52 + m < inf_bits" using b m by (simp add: inf_bits_def)
  ultimately have mb: "mag_bits (f_of_nat n) = (b + 1022) * 2 ^ 52 + m"
    unfolding f_of_nat_def by (subst mag_bits_make) (auto simp: inf_bits_def)
  show "\<not> f_sign (f_of_nat n)"
    unfolding f_of_nat_def using mag small by (subst f_sign_make) (auto simp: inf_bits_def)
  from mb small show "mag_bits (f_of_nat n) < inf_bits" by simp
  from mb m show "mag_bits (f_of_nat n) = (nbits n + 1021) * 2 ^ 52 + n * 2 ^ (53 - nbits n)"
    by (simp add: b_def)
  have "mag_bits (f_of_nat n) div 2 ^ 52 = b + 1022" "mag_bits (f_of_nat n) mod 2 ^ 52 = m"
    using m(2) by (simp_all only: mb div_mult_self3 mod_mult_self3 mod_less div_less)
  then show "f_mant (f_of_nat n) = n * 2 ^ (53 - nbits n)"
    and "f_expo (f_of_nat n) = int (nbits n) - 53"
    using m by (simp_all add: f_mant_def f_expo_def b_def)
qed

lemma f_of_nat_0: "f_of_nat 0 = 0"
  by (simp add: f_of_nat_def make_f64_def round_mag_def)

lemma f_not_nan_of_nat: "n < 2 ^ 53 \<Longrightarrow> \<not> is_nan (f_of_nat n)"
proof (cases "n = 0")
  case True
  then show ?thesis by (simp add: f_of_nat_0 is_nan_def mag_bits_def)
next
  case False
  assume "n < 2 ^ 53"
  with False f_of_nat_decode(5) [of n] show ?thesis by (simp add: is_nan_def)
qed

theorem f_to_u64_of_nat:
  assumes "n < 2 ^ 53"
  shows "f_to_u64 (f_of_nat n) = of_nat n"
proof (cases "n = 0")
  case True
  then show ?thesis
    by (simp add: f_of_nat_0 f_to_u64_def f_to_uint_def is_nan_def is_inf_def f_sign_def inf_bits_def
        mag_bits_def f_trunc_def f_mant_def scale_num_def)
next
  case False
  then have pos: "0 < n" by simp
  note d = f_of_nat_decode [OF pos assms]
  have b: "nbits n \<le> 53" using assms by (simp add: nbits_le)
  have "f_trunc (f_of_nat n) = n"
  proof (cases "nbits n = 53")
    case True
    then show ?thesis by (simp add: f_trunc_def d scale_num_def scale_den_def)
  next
    case False
    with b have "nat (53 - int (nbits n)) = 53 - nbits n" "nbits n < 53" by simp_all
    then show ?thesis by (simp add: f_trunc_def d scale_num_def scale_den_def)
  qed
  with assms d(4,5) show ?thesis
    by (simp add: f_to_u64_def f_to_uint_def is_nan_def is_inf_def)
qed

section \<open>The order\<close>

lemma partial_cmp_nan: "is_nan x \<or> is_nan y \<longleftrightarrow> partial_cmp x y = None"
  by (simp add: partial_cmp_def)

lemma partial_cmp_refl: "\<not> is_nan x \<Longrightarrow> partial_cmp x x = Some Equal"
  by (simp add: partial_cmp_def int_cmp_def)

lemma f_lt_trans: "f_lt x y \<Longrightarrow> f_lt y z \<Longrightarrow> f_lt x z"
  by (auto simp: f_lt_def partial_cmp_def int_cmp_def split: if_splits)

end
