(* ===== verification/Containers.thy ===== *)
theory Containers
  imports Prelude
begin

text \<open>
  The standard collections the program keeps its state in, and the contract their users rely on.

  \<^item> \<open>HashMap\<close>: an association list with distinct keys. Its order is one of the orders
    \<open>iter()\<close> may produce (Rust leaves it unspecified), so theorems never depend on it.
  \<^item> \<open>HashSet\<close>: a list without duplicates, with the same reading of its order.
  \<^item> \<open>BTreeMap\<close>: an association list sorted by key, which is what \<open>iter()\<close> yields.
\<close>

type_synonym ('k, 'v) hashmap = "('k \<times> 'v) list"
type_synonym 'a hashset = "'a list"
type_synonym ('k, 'v) btreemap = "('k \<times> 'v) list"

section \<open>The map contract\<close>

text \<open>What every client of a map uses: lookup after insert, after remove, and of the empty map.\<close>

locale map_contract =
  fixes empty :: "'m"
    and get :: "'m \<Rightarrow> 'k \<Rightarrow> 'v option"
    and insert :: "'k \<Rightarrow> 'v \<Rightarrow> 'm \<Rightarrow> 'm"
    and remove :: "'k \<Rightarrow> 'm \<Rightarrow> 'm"
    and inv :: "'m \<Rightarrow> bool"
  assumes inv_empty: "inv empty"
    and inv_insert: "inv m \<Longrightarrow> inv (insert k v m)"
    and inv_remove: "inv m \<Longrightarrow> inv (remove k m)"
    and get_empty: "get empty k = None"
    and get_insert: "inv m \<Longrightarrow> get (insert k v m) k' = (if k' = k then Some v else get m k')"
    and get_remove: "inv m \<Longrightarrow> get (remove k m) k' = (if k' = k then None else get m k')"
begin

lemma get_insert_same: "inv m \<Longrightarrow> get (insert k v m) k = Some v"
  by (simp add: get_insert)

lemma get_insert_other: "inv m \<Longrightarrow> k' \<noteq> k \<Longrightarrow> get (insert k v m) k' = get m k'"
  by (simp add: get_insert)

lemma insert_twice: "inv m \<Longrightarrow> get (insert k v (insert k u m)) k' = get (insert k v m) k'"
  by (simp add: get_insert inv_insert)

lemma remove_insert: "inv m \<Longrightarrow> get (remove k (insert k v m)) k' = get (remove k m) k'"
  by (simp add: get_insert get_remove inv_insert)

lemma insert_commute:
  "inv m \<Longrightarrow> k1 \<noteq> k2 \<Longrightarrow>
   get (insert k1 v1 (insert k2 v2 m)) k = get (insert k2 v2 (insert k1 v1 m)) k"
  by (simp add: get_insert inv_insert)

text \<open>Inserting a list of pairs: the last binding of a key wins.\<close>

lemma inv_fold_insert: "inv m \<Longrightarrow> inv (fold (\<lambda>(k, v). insert k v) kvs m)"
  by (induction kvs arbitrary: m) (auto simp: inv_insert)

lemma get_fold_insert:
  "inv m \<Longrightarrow> get (fold (\<lambda>(k, v). insert k v) kvs m) k' =
     (case map_of (rev kvs) k' of Some v \<Rightarrow> Some v | None \<Rightarrow> get m k')"
proof (induction kvs rule: rev_induct)
  case (snoc kv kvs)
  then show ?case
    by (cases kv) (simp add: get_insert inv_fold_insert)
qed simp

end

section \<open>HashMap\<close>

definition hm_inv :: "('k, 'v) hashmap \<Rightarrow> bool" where
  "hm_inv m \<longleftrightarrow> distinct (map fst m)"

abbreviation hm_get :: "('k, 'v) hashmap \<Rightarrow> 'k \<Rightarrow> 'v option" where
  "hm_get \<equiv> map_of"

abbreviation hm_insert :: "'k \<Rightarrow> 'v \<Rightarrow> ('k, 'v) hashmap \<Rightarrow> ('k, 'v) hashmap" where
  "hm_insert \<equiv> AList.update"

abbreviation hm_remove :: "'k \<Rightarrow> ('k, 'v) hashmap \<Rightarrow> ('k, 'v) hashmap" where
  "hm_remove \<equiv> AList.delete"

definition hm_keys :: "('k, 'v) hashmap \<Rightarrow> 'k list" where
  "hm_keys m = map fst m"

definition hm_contains :: "('k, 'v) hashmap \<Rightarrow> 'k \<Rightarrow> bool" where
  "hm_contains m k \<longleftrightarrow> hm_get m k \<noteq> None"

text \<open>\<open>entry(k).or_insert(v)\<close>: keeps a present value.\<close>

definition hm_or_insert :: "'k \<Rightarrow> 'v \<Rightarrow> ('k, 'v) hashmap \<Rightarrow> ('k, 'v) hashmap" where
  "hm_or_insert k v m = (case hm_get m k of None \<Rightarrow> hm_insert k v m | Some _ \<Rightarrow> m)"

lemma hm_get_insert [simp]: "hm_get (hm_insert k v m) k' = (if k' = k then Some v else hm_get m k')"
  by (auto simp: update_conv')

lemma hm_get_remove [simp]: "hm_get (hm_remove k m) k' = (if k' = k then None else hm_get m k')"
  by (auto simp: delete_conv')

lemma hm_get_or_insert:
  "hm_get (hm_or_insert k v m) k' =
     (if k' = k then Some (case hm_get m k of None \<Rightarrow> v | Some w \<Rightarrow> w) else hm_get m k')"
  by (auto simp: hm_or_insert_def split: option.splits)

lemma hm_inv_Nil [simp, intro]: "hm_inv []"
  by (simp add: hm_inv_def)

lemma hm_inv_insert [simp, intro]: "hm_inv m \<Longrightarrow> hm_inv (hm_insert k v m)"
  by (simp add: hm_inv_def distinct_update)

lemma hm_inv_remove [simp, intro]: "hm_inv m \<Longrightarrow> hm_inv (hm_remove k m)"
  by (simp add: hm_inv_def distinct_delete)

lemma hm_inv_or_insert [simp, intro]: "hm_inv m \<Longrightarrow> hm_inv (hm_or_insert k v m)"
  by (simp add: hm_or_insert_def split: option.splits)

lemma set_hm_insert: "set (hm_insert k v m) \<subseteq> insert (k, v) (set m)"
  by (induction m) auto

lemma set_hm_remove: "set (hm_remove k m) = {x \<in> set m. fst x \<noteq> k}"
  by (auto simp: AList.delete_eq)

lemma hm_remove_absent: "hm_get m k = None \<Longrightarrow> hm_remove k m = m"
  by (induction m) (auto split: if_splits)

lemma hm_get_None_keys: "hm_get m k = None \<longleftrightarrow> k \<notin> set (hm_keys m)"
  by (simp add: hm_keys_def map_of_eq_None_iff)

lemma hm_get_Some_in: "hm_inv m \<Longrightarrow> (k, v) \<in> set m \<longleftrightarrow> hm_get m k = Some v"
  by (simp add: hm_inv_def)

interpretation hm: map_contract "[]" hm_get hm_insert hm_remove hm_inv
  by unfold_locales auto

section \<open>HashSet\<close>

definition hs_insert :: "'a \<Rightarrow> 'a hashset \<Rightarrow> 'a hashset" where
  "hs_insert x s = (if x \<in> set s then s else s @ [x])"

definition hs_remove :: "'a \<Rightarrow> 'a hashset \<Rightarrow> 'a hashset" where
  "hs_remove x s = filter (\<lambda>y. y \<noteq> x) s"

lemma set_hs_insert [simp]: "set (hs_insert x s) = insert x (set s)"
  by (auto simp: hs_insert_def)

lemma set_hs_remove [simp]: "set (hs_remove x s) = set s - {x}"
  by (auto simp: hs_remove_def)

lemma distinct_hs_insert [simp]: "distinct s \<Longrightarrow> distinct (hs_insert x s)"
  by (simp add: hs_insert_def)

lemma distinct_hs_remove [simp]: "distinct s \<Longrightarrow> distinct (hs_remove x s)"
  by (simp add: hs_remove_def)

section \<open>BTreeMap\<close>

definition bt_inv :: "('k::linorder, 'v) btreemap \<Rightarrow> bool" where
  "bt_inv m \<longleftrightarrow> sorted_wrt (<) (map fst m)"

fun bt_insert :: "'k::linorder \<Rightarrow> 'v \<Rightarrow> ('k, 'v) btreemap \<Rightarrow> ('k, 'v) btreemap" where
  "bt_insert k v [] = [(k, v)]"
| "bt_insert k v ((k', v') # m) =
     (if k < k' then (k, v) # (k', v') # m
      else if k = k' then (k, v) # m
      else (k', v') # bt_insert k v m)"

fun bt_remove :: "'k::linorder \<Rightarrow> ('k, 'v) btreemap \<Rightarrow> ('k, 'v) btreemap" where
  "bt_remove k [] = []"
| "bt_remove k ((k', v') # m) =
     (if k < k' then (k', v') # m
      else if k = k' then m
      else (k', v') # bt_remove k m)"

abbreviation bt_get :: "('k::linorder, 'v) btreemap \<Rightarrow> 'k \<Rightarrow> 'v option" where
  "bt_get \<equiv> map_of"

definition bt_contains :: "('k::linorder, 'v) btreemap \<Rightarrow> 'k \<Rightarrow> bool" where
  "bt_contains m k \<longleftrightarrow> bt_get m k \<noteq> None"

definition bt_first :: "('k::linorder, 'v) btreemap \<Rightarrow> ('k \<times> 'v) option" where
  "bt_first m = (case m of [] \<Rightarrow> None | kv # _ \<Rightarrow> Some kv)"

definition bt_last :: "('k::linorder, 'v) btreemap \<Rightarrow> ('k \<times> 'v) option" where
  "bt_last m = (if m = [] then None else Some (last m))"

text \<open>
  \<open>range(lo..=hi)\<close> panics when \<open>lo > hi\<close> and the tree has an element to compare with; the
  ranges with an unbounded end never do.
\<close>

definition bt_range :: "'k::linorder \<Rightarrow> 'k \<Rightarrow> ('k, 'v) btreemap \<Rightarrow> (('k \<times> 'v) list, 'e) result" where
  "bt_range lo hi m =
     (if m \<noteq> [] \<and> hi < lo then Panic else Ok (filter (\<lambda>(k, _). lo \<le> k \<and> k \<le> hi) m))"

definition bt_range_after :: "'k::linorder \<Rightarrow> ('k, 'v) btreemap \<Rightarrow> ('k \<times> 'v) list" where
  "bt_range_after lo m = filter (\<lambda>(k, _). lo < k) m"

definition bt_range_below :: "'k::linorder \<Rightarrow> ('k, 'v) btreemap \<Rightarrow> ('k \<times> 'v) list" where
  "bt_range_below hi m = filter (\<lambda>(k, _). k < hi) m"

lemma bt_inv_Nil [simp]: "bt_inv []"
  by (simp add: bt_inv_def)

lemma bt_inv_Cons: "bt_inv ((k, v) # m) \<longleftrightarrow> (\<forall>k' \<in> fst ` set m. k < k') \<and> bt_inv m"
  by (auto simp: bt_inv_def)

lemma fst_set_bt_insert: "fst ` set (bt_insert k v m) = insert k (fst ` set m)"
  by (induction k v m rule: bt_insert.induct) auto

lemma bt_inv_insert [simp, intro]: "bt_inv m \<Longrightarrow> bt_inv (bt_insert k v m)"
  by (induction k v m rule: bt_insert.induct) (auto simp: bt_inv_Cons fst_set_bt_insert)

lemma set_bt_remove: "bt_inv m \<Longrightarrow> set (bt_remove k m) = {x \<in> set m. fst x \<noteq> k}"
  by (induction k m rule: bt_remove.induct) (auto simp: bt_inv_Cons)

lemma bt_inv_remove [simp, intro]: "bt_inv m \<Longrightarrow> bt_inv (bt_remove k m)"
  by (induction k m rule: bt_remove.induct) (auto simp: bt_inv_Cons set_bt_remove)

lemma bt_get_insert:
  "bt_inv m \<Longrightarrow> bt_get (bt_insert k v m) k' = (if k' = k then Some v else bt_get m k')"
  by (induction k v m rule: bt_insert.induct) (auto simp: bt_inv_Cons)

lemma bt_get_none: "(\<And>k'. k' \<in> fst ` set m \<Longrightarrow> k < k') \<Longrightarrow> bt_get m k = None"
  by (metis less_irrefl map_of_eq_None_iff)

lemma bt_get_remove:
  "bt_inv m \<Longrightarrow> bt_get (bt_remove k m) k' = (if k' = k then None else bt_get m k')"
proof (induction k m rule: bt_remove.induct)
  case (2 k l v m)
  then have "bt_get m k = None" if "k \<le> l"
    using that by (intro bt_get_none) (auto simp: bt_inv_Cons)
  with 2 show ?case by (auto simp: bt_inv_Cons)
qed simp

interpretation bt: map_contract "[]" bt_get bt_insert bt_remove bt_inv
  by unfold_locales (auto simp: bt_get_insert bt_get_remove)

lemma bt_inv_distinct: "bt_inv m \<Longrightarrow> distinct (map fst m)"
  by (induction m) (auto simp: bt_inv_def)

lemma bt_get_Some_in: "bt_inv m \<Longrightarrow> (k, v) \<in> set m \<longleftrightarrow> bt_get m k = Some v"
  by (simp add: bt_inv_distinct)

lemma set_bt_insert: "bt_inv m \<Longrightarrow> set (bt_insert k v m) = insert (k, v) {x \<in> set m. fst x \<noteq> k}"
  by (induction k v m rule: bt_insert.induct) (auto simp: bt_inv_Cons)

lemma length_bt_insert:
  "bt_inv m \<Longrightarrow> length (bt_insert k v m) = (if bt_contains m k then length m else Suc (length m))"
proof (induction k v m rule: bt_insert.induct)
  case (2 k v l w m)
  then have "bt_get m k = None" if "k \<le> l"
    using that by (intro bt_get_none) (auto simp: bt_inv_Cons)
  with 2 show ?case by (auto simp: bt_inv_Cons bt_contains_def)
qed (simp add: bt_contains_def)

lemma bt_inv_filter: "bt_inv m \<Longrightarrow> bt_inv (filter P m)"
  unfolding bt_inv_def by (rule strict_sorted_filter)

text \<open>A key above every key of the map is appended.\<close>

lemma bt_last_max: "bt_inv m \<Longrightarrow> bt_last m = Some (k, v) \<Longrightarrow> k' \<in> fst ` set m \<Longrightarrow> k' \<le> k"
proof (cases m rule: rev_cases)
  case (snoc ys y)
  assume "bt_inv m" "bt_last m = Some (k, v)" "k' \<in> fst ` set m"
  with snoc show ?thesis
    by (auto simp: bt_inv_def bt_last_def sorted_wrt_append intro: less_imp_le)
qed (simp add: bt_last_def)

lemma bt_insert_append:
  "(\<And>k'. k' \<in> fst ` set m \<Longrightarrow> k' < k) \<Longrightarrow> bt_insert k v m = m @ [(k, v)]"
  by (induction k v m rule: bt_insert.induct) (auto simp: less_imp_not_less)

lemma bt_insert_after_last:
  assumes "bt_inv m" and "bt_last m = Some (l, w)" and "l < k"
  shows "bt_insert k v m = m @ [(k, v)]"
proof (rule bt_insert_append)
  fix k' assume "k' \<in> fst ` set m"
  with assms(1,2) have "k' \<le> l" by (rule bt_last_max)
  with assms(3) show "k' < k" by simp
qed

text \<open>The key set, kept opaque in the proofs of its users.\<close>

definition bt_keys :: "('k::linorder, 'v) btreemap \<Rightarrow> 'k set" where
  "bt_keys m = fst ` set m"

lemma bt_keys_insert: "bt_keys (bt_insert k v m) = insert k (bt_keys m)"
  by (simp add: bt_keys_def fst_set_bt_insert)

lemma bt_keys_remove: "bt_inv m \<Longrightarrow> bt_keys (bt_remove k m) = bt_keys m - {k}"
  by (force simp: bt_keys_def set_bt_remove)

lemma bt_keys_empty: "bt_keys m = {} \<longleftrightarrow> m = []"
  by (simp add: bt_keys_def)

lemma bt_keys_Nil [simp]: "bt_keys [] = {}"
  by (simp add: bt_keys_def)

lemma bt_keys_Cons [simp]: "bt_keys ((k, v) # m) = insert k (bt_keys m)"
  by (simp add: bt_keys_def)

lemma finite_bt_keys [simp]: "finite (bt_keys m)"
  by (simp add: bt_keys_def)

lemma bt_keys_get: "k \<in> bt_keys m \<longleftrightarrow> bt_get m k \<noteq> None"
  by (simp add: bt_keys_def map_of_eq_None_iff)

lemma card_bt_keys: "bt_inv m \<Longrightarrow> card (bt_keys m) = length m"
  using distinct_card [OF bt_inv_distinct, of m] by (simp add: bt_keys_def)

lemma bt_keys_set: "bt_keys m = set (map fst m)"
  by (simp add: bt_keys_def)

lemma length_filter_keys:
  "bt_inv m \<Longrightarrow> length (filter (\<lambda>(k, _). P k) m) = card {k \<in> bt_keys m. P k}"
proof -
  assume m: "bt_inv m"
  have "bt_keys (filter (\<lambda>(k, _). P k) m) = {k \<in> bt_keys m. P k}"
    by (force simp: bt_keys_def)
  with card_bt_keys [OF bt_inv_filter [OF m], of "\<lambda>(k, _). P k"] show ?thesis by simp
qed

end
