(* ===== verification/SortedSet.thy ===== *)
theory SortedSet
  imports Floats Containers
begin

text \<open>
  \<open>SortedSet\<close> of \<open>src/src/commands/data_types.rs\<close>: a map from members to scores
  and a tree ordered by (score, member). The key of the tree is the comparison key of the float
  with the NaN flag in front; \<open>Score::cmp\<close> unwraps \<open>partial_cmp\<close>, so every comparison
  with a NaN panics, and a search compares as soon as the tree has an element.
\<close>

type_synonym score_key = "bool \<times> int"
type_synonym zkey = "score_key \<times> string"

record sorted_set =
  zs_members :: "(string, f64) hashmap"
  zs_scores :: "(zkey, unit) btreemap"

definition score_key :: "f64 \<Rightarrow> score_key" where
  "score_key x = (is_nan x, if is_nan x then 0 else f64_key x)"

definition nan_key :: "zkey \<Rightarrow> bool" where
  "nan_key k = fst (fst k)"

definition cmp_panics :: "zkey \<Rightarrow> (zkey, unit) btreemap \<Rightarrow> bool" where
  "cmp_panics k t \<longleftrightarrow> t \<noteq> [] \<and> (nan_key k \<or> list_ex (\<lambda>(k', _). nan_key k') t)"

definition sc_insert :: "zkey \<Rightarrow> (zkey, unit) btreemap \<Rightarrow> (zkey, unit) btreemap cres" where
  "sc_insert k t = (if cmp_panics k t then Panic else Ok (bt_insert k () t))"

definition sc_remove :: "zkey \<Rightarrow> (zkey, unit) btreemap \<Rightarrow> (zkey, unit) btreemap cres" where
  "sc_remove k t = (if cmp_panics k t then Panic else Ok (bt_remove k t))"

definition zs_new :: sorted_set where
  "zs_new = \<lparr>zs_members = [], zs_scores = []\<rparr>"

section \<open>Operations\<close>

text \<open>
  \<open>add\<close>. For a member that is present the entry of the \<^emph>\<open>new\<close> score is removed from the
  tree before the new score is inserted.
\<close>

definition zs_add :: "f64 \<Rightarrow> string \<Rightarrow> sorted_set \<Rightarrow> (sorted_set \<times> int) cres" where
  "zs_add score member z =
     (let k = (score_key score, member) in
      rbind (if hm_contains (zs_members z) member
             then rbind (sc_remove k (zs_scores z)) (\<lambda>t. Ok (t, 0))
             else Ok (zs_scores z, 1))
        (\<lambda>(t, n). rbind (sc_insert k t)
          (\<lambda>t'. Ok (\<lparr>zs_members = hm_insert member score (zs_members z), zs_scores = t'\<rparr>, n))))"

definition zs_rank :: "string \<Rightarrow> sorted_set \<Rightarrow> int option cres" where
  "zs_rank member z =
     (case hm_get (zs_members z) member of
        None \<Rightarrow> Ok None
      | Some s \<Rightarrow>
          let k = (score_key s, member) in
          if cmp_panics k (zs_scores z) then Panic
          else Ok (Some (int (length (bt_range_below k (zs_scores z))))))"

definition as_usize :: "int \<Rightarrow> nat" where
  "as_usize i = nat (i mod 2 ^ 64)"

definition clamp_index :: "int \<Rightarrow> int \<Rightarrow> int" where
  "clamp_index count i = (if i < 0 then max (count + i) 0 else i)"

definition zs_get_members :: "int \<Rightarrow> int \<Rightarrow> sorted_set \<Rightarrow> string list" where
  "zs_get_members start_idx end_idx z =
     (let count = int (length (zs_scores z));
          s = clamp_index count start_idx; e = clamp_index count end_idx
      in if e < s then []
         else map (\<lambda>((_, m), _). m)
                (take (as_usize (wrap_i64 (e - s + 1))) (drop (as_usize s) (zs_scores z))))"

definition zs_score :: "string \<Rightarrow> sorted_set \<Rightarrow> f64 option" where
  "zs_score member z = hm_get (zs_members z) member"

definition zs_remove :: "string \<Rightarrow> sorted_set \<Rightarrow> (sorted_set \<times> int) cres" where
  "zs_remove member z =
     (case hm_get (zs_members z) member of
        Some s \<Rightarrow>
          rbind (sc_remove (score_key s, member) (zs_scores z))
            (\<lambda>t. Ok (\<lparr>zs_members = hm_remove member (zs_members z), zs_scores = t\<rparr>, 1))
      | None \<Rightarrow> Ok (z, 0))"

definition zs_len :: "sorted_set \<Rightarrow> nat" where
  "zs_len z = length (zs_members z)"

section \<open>Invariant\<close>

text \<open>
  What every reachable sorted set satisfies: both collections are well formed, the tree has the
  entry of every member, and a tree with a NaN has no other entry. Absence of stale entries is
  \<^emph>\<open>not\<close> invariant; \<open>zs_clean\<close> is the property the rank and range commands need.
\<close>

definition zs_inv :: "sorted_set \<Rightarrow> bool" where
  "zs_inv z \<longleftrightarrow> hm_inv (zs_members z) \<and> bt_inv (zs_scores z) \<and>
     (\<forall>m s. hm_get (zs_members z) m = Some s \<longrightarrow> (score_key s, m) \<in> bt_keys (zs_scores z)) \<and>
     ((\<exists>k \<in> bt_keys (zs_scores z). nan_key k) \<longrightarrow> length (zs_scores z) = 1)"

definition zs_clean :: "sorted_set \<Rightarrow> bool" where
  "zs_clean z \<longleftrightarrow> zs_inv z \<and>
     (\<forall>k m. (k, m) \<in> bt_keys (zs_scores z) \<longleftrightarrow>
            (\<exists>s. hm_get (zs_members z) m = Some s \<and> k = score_key s))"

definition zs_ordered :: "sorted_set \<Rightarrow> bool" where
  "zs_ordered z \<longleftrightarrow> (\<forall>k \<in> bt_keys (zs_scores z). \<not> nan_key k)"

lemma nan_key_score [simp]: "nan_key (score_key s, m) = is_nan s"
  by (simp add: nan_key_def score_key_def)

lemma cmp_panics_iff:
  "cmp_panics k t \<longleftrightarrow> t \<noteq> [] \<and> (nan_key k \<or> (\<exists>k' \<in> bt_keys t. nan_key k'))"
  by (force simp: cmp_panics_def list_ex_iff bt_keys_def)

lemma zs_inv_new [inv_intros]: "zs_inv zs_new"
  by (simp add: zs_inv_def zs_new_def)

lemma zs_clean_new [inv_intros]: "zs_clean zs_new"
  by (simp add: zs_clean_def zs_inv_new) (simp add: zs_new_def)

lemma zs_cleanD:
  "zs_clean z \<Longrightarrow>
   (k, m) \<in> bt_keys (zs_scores z) \<longleftrightarrow> (\<exists>s. hm_get (zs_members z) m = Some s \<and> k = score_key s)"
  unfolding zs_clean_def by blast

lemma zs_cleanI:
  "zs_inv z \<Longrightarrow>
   (\<And>k m. (k, m) \<in> bt_keys (zs_scores z) \<longleftrightarrow>
      (\<exists>s. hm_get (zs_members z) m = Some s \<and> k = score_key s)) \<Longrightarrow> zs_clean z"
  unfolding zs_clean_def by blast

lemma sc_insert_Ok:
  assumes "sc_insert k t = Ok t'" and "bt_inv t"
  shows "bt_inv t'" and "bt_keys t' = insert k (bt_keys t)"
    and "t = [] \<or> (\<forall>k' \<in> bt_keys t'. \<not> nan_key k')"
  using assms by (auto simp: sc_insert_def cmp_panics_iff bt_keys_insert split: if_splits)

lemma sc_remove_Ok:
  assumes "sc_remove k t = Ok t'" and "bt_inv t"
  shows "bt_inv t'" and "bt_keys t' = bt_keys t - {k}" and "\<forall>k' \<in> bt_keys t'. \<not> nan_key k'"
  using assms by (auto simp: sc_remove_def cmp_panics_iff bt_keys_remove split: if_splits)

text \<open>What \<open>add\<close> does to the two collections when it returns.\<close>

lemma zs_add_Ok:
  assumes "zs_add score member z = Ok (z', n)" and "bt_inv (zs_scores z)"
  shows "zs_members z' = hm_insert member score (zs_members z)"
    and "bt_inv (zs_scores z')"
    and "bt_keys (zs_scores z') = insert (score_key score, member) (bt_keys (zs_scores z))"
    and "n = (if hm_contains (zs_members z) member then 0 else 1)"
    and "(\<exists>k \<in> bt_keys (zs_scores z'). nan_key k) \<longrightarrow>
         zs_scores z = [] \<or> bt_keys (zs_scores z) = {(score_key score, member)}"
proof -
  obtain t where t: "sc_insert (score_key score, member) t = Ok (zs_scores z')" "bt_inv t"
    and m: "zs_members z' = hm_insert member score (zs_members z)"
    and n: "n = (if hm_contains (zs_members z) member then 0 else 1)"
    and f: "bt_keys t \<union> {(score_key score, member)} =
            bt_keys (zs_scores z) \<union> {(score_key score, member)}"
  proof (cases "hm_contains (zs_members z) member")
    case True
    with assms(1) obtain u where
      u: "sc_remove (score_key score, member) (zs_scores z) = Ok u"
         "sc_insert (score_key score, member) u = Ok (zs_scores z')"
         "zs_members z' = hm_insert member score (zs_members z)" "n = 0"
      by (auto simp: zs_add_def Let_def rbind_Ok_iff)
    with that [of u] sc_remove_Ok [OF u(1) assms(2)] True show ?thesis by auto
  next
    case False
    with assms that [of "zs_scores z"] show ?thesis
      by (auto simp: zs_add_def Let_def rbind_Ok_iff)
  qed
  note i = sc_insert_Ok [OF t]
  show "zs_members z' = hm_insert member score (zs_members z)" by (rule m)
  show "bt_inv (zs_scores z')" by (rule i(1))
  show "n = (if hm_contains (zs_members z) member then 0 else 1)" by (rule n)
  show g: "bt_keys (zs_scores z') = insert (score_key score, member) (bt_keys (zs_scores z))"
    using i(2) f by auto
  show "(\<exists>k \<in> bt_keys (zs_scores z'). nan_key k) \<longrightarrow>
         zs_scores z = [] \<or> bt_keys (zs_scores z) = {(score_key score, member)}"
  proof (intro impI)
    assume "\<exists>k \<in> bt_keys (zs_scores z'). nan_key k"
    with i(3) have "t = []" by auto
    with f have "bt_keys (zs_scores z) \<subseteq> {(score_key score, member)}" by auto
    then show "zs_scores z = [] \<or> bt_keys (zs_scores z) = {(score_key score, member)}"
      using bt_keys_empty [of "zs_scores z"] by auto
  qed
qed

lemma zs_inv_add [inv_intros]:
  assumes "zs_inv z" and "zs_add score member z = Ok (z', n)"
  shows "zs_inv z'"
proof -
  have bt: "bt_inv (zs_scores z)" using assms(1) by (simp add: zs_inv_def)
  note a = zs_add_Ok [OF assms(2) bt]
  have "length (zs_scores z') = 1" if "\<exists>k \<in> bt_keys (zs_scores z'). nan_key k"
  proof -
    have "bt_keys (zs_scores z') = {(score_key score, member)}"
      unfolding a(3) using a(5) that by auto
    then show ?thesis using card_bt_keys [OF a(2)] by simp
  qed
  with assms(1) a show ?thesis
    by (auto simp: zs_inv_def)
qed

lemma zs_remove_Ok:
  assumes "zs_remove member z = Ok (z', n)" and "zs_inv z" and "hm_get (zs_members z) member = Some s"
  shows "zs_members z' = hm_remove member (zs_members z)" and "bt_inv (zs_scores z')"
    and "bt_keys (zs_scores z') = bt_keys (zs_scores z) - {(score_key s, member)}" and "n = 1"
    and "\<forall>k' \<in> bt_keys (zs_scores z'). \<not> nan_key k'"
  using assms by (auto simp: zs_remove_def zs_inv_def rbind_Ok_iff dest: sc_remove_Ok)

lemma zs_remove_absent:
  "hm_get (zs_members z) member = None \<Longrightarrow> zs_remove member z = Ok (z, 0)"
  by (simp add: zs_remove_def)

lemma zs_inv_remove [inv_intros]:
  assumes "zs_inv z" and "zs_remove member z = Ok (z', n)"
  shows "zs_inv z'"
proof (cases "hm_get (zs_members z) member")
  case None
  with assms show ?thesis by (simp add: zs_remove_absent)
next
  case (Some s)
  with zs_remove_Ok [OF assms(2,1) Some] assms(1) show ?thesis
    by (auto simp: zs_inv_def)
qed

section \<open>Correctness without stale entries\<close>

lemma zs_clean_add:
  assumes "zs_clean z" and "zs_add score member z = Ok (z', n)"
    and fresh: "\<And>s. zs_score member z = Some s \<Longrightarrow> score_key s = score_key score"
  shows "zs_clean z'"
proof -
  have inv: "zs_inv z" using assms(1) by (simp add: zs_clean_def)
  then have "bt_inv (zs_scores z)" by (simp add: zs_inv_def)
  note a = zs_add_Ok [OF assms(2) this]
  have "(k, m) \<in> bt_keys (zs_scores z') \<longleftrightarrow>
        (\<exists>s. hm_get (zs_members z') m = Some s \<and> k = score_key s)" for k m
    unfolding a(3) a(1) using zs_cleanD [OF assms(1)] fresh by (auto simp: zs_score_def)
  with zs_inv_add [OF inv assms(2)] show ?thesis by (rule zs_cleanI)
qed

lemma zs_clean_remove:
  assumes "zs_clean z" and "zs_remove member z = Ok (z', n)"
  shows "zs_clean z'"
proof (cases "hm_get (zs_members z) member")
  case None
  with assms show ?thesis by (simp add: zs_remove_absent)
next
  case (Some s)
  have inv: "zs_inv z" using assms(1) by (simp add: zs_clean_def)
  note r = zs_remove_Ok [OF assms(2) inv Some]
  have "(k, m) \<in> bt_keys (zs_scores z') \<longleftrightarrow>
        (\<exists>s. hm_get (zs_members z') m = Some s \<and> k = score_key s)" for k m
    unfolding r(3) r(1) using zs_cleanD [OF assms(1)] Some by auto
  with zs_inv_remove [OF inv assms(2)] show ?thesis by (rule zs_cleanI)
qed

text \<open>No comparison panics while no NaN is around.\<close>

lemma zs_add_returns:
  assumes "zs_ordered z" and "\<not> is_nan score" and "bt_inv (zs_scores z)"
  shows "\<exists>z' n. zs_add score member z = Ok (z', n) \<and> zs_ordered z'"
proof -
  have "\<not> cmp_panics (score_key score, member) (zs_scores z)"
    and "\<not> cmp_panics (score_key score, member) (bt_remove (score_key score, member) (zs_scores z))"
    using assms by (auto simp: cmp_panics_iff zs_ordered_def bt_keys_remove)
  then obtain z' n where "zs_add score member z = Ok (z', n)"
    by (cases "hm_contains (zs_members z) member")
      (auto simp: zs_add_def Let_def sc_remove_def sc_insert_def)
  with zs_add_Ok(3) [OF this assms(3)] assms show ?thesis
    by (auto simp: zs_ordered_def)
qed

lemma zs_add_nan_panics:
  "is_nan score \<Longrightarrow> zs_scores z \<noteq> [] \<Longrightarrow> zs_add score member z = Panic"
  by (auto simp: zs_add_def Let_def sc_remove_def sc_insert_def cmp_panics_iff)

lemma zs_score_add:
  assumes "zs_inv z" and "zs_add score member z = Ok (z', n)"
  shows "zs_score m z' = (if m = member then Some score else zs_score m z)"
  using zs_add_Ok(1) [OF assms(2)] assms(1) by (simp add: zs_score_def zs_inv_def)

text \<open>
  The rank of a member is the number of members below it and of the entries below it that updates
  have left behind.
\<close>

definition zs_below :: "sorted_set \<Rightarrow> string \<Rightarrow> string \<Rightarrow> bool" where
  "zs_below z m' m \<longleftrightarrow>
     (\<exists>s s'. zs_score m z = Some s \<and> zs_score m' z = Some s' \<and> (score_key s', m') < (score_key s, m))"

definition stale_below :: "sorted_set \<Rightarrow> string \<Rightarrow> zkey set" where
  "stale_below z m =
     {(k, m') \<in> bt_keys (zs_scores z). (\<exists>s. zs_score m z = Some s \<and> (k, m') < (score_key s, m)) \<and>
        (\<forall>s. zs_score m' z = Some s \<longrightarrow> k \<noteq> score_key s)}"

lemma stale_below_iff:
  assumes "zs_score m z = Some s"
  shows "x \<in> stale_below z m \<longleftrightarrow> x \<in> bt_keys (zs_scores z) \<and> x < (score_key s, m) \<and>
      \<not> (\<exists>s'. zs_score (snd x) z = Some s' \<and> fst x = score_key s')"
proof (cases x)
  case (Pair k m')
  show ?thesis unfolding stale_below_def Pair using assms by simp
qed

lemma live_below_iff:
  assumes "zs_score m z = Some s"
  shows "x \<in> (\<lambda>m'. (score_key (the (zs_score m' z)), m')) ` {m'. zs_below z m' m} \<longleftrightarrow>
    x < (score_key s, m) \<and> (\<exists>s'. zs_score (snd x) z = Some s' \<and> fst x = score_key s')" (is "?l \<longleftrightarrow> ?r")
proof
  assume ?l
  then obtain m' where x: "x = (score_key (the (zs_score m' z)), m')" "zs_below z m' m" by blast
  then obtain s' where "zs_score m' z = Some s'" "(score_key s', m') < (score_key s, m)"
    using assms unfolding zs_below_def by auto
  with x(1) show ?r by simp
next
  assume r: ?r
  then obtain s' where s': "zs_score (snd x) z = Some s'" "fst x = score_key s'" by blast
  then have e: "x = (score_key s', snd x)" by (metis prod.collapse)
  with r have "(score_key s', snd x) < (score_key s, m)" by simp
  then have "zs_below z (snd x) m" using assms s'(1) unfolding zs_below_def by blast
  moreover have "x = (score_key (the (zs_score (snd x) z)), snd x)" using e s'(1) by simp
  ultimately show ?l by blast
qed

lemma zs_rank_stale:
  assumes "zs_inv z" and "zs_ordered z" and "zs_score m z = Some s"
  shows "zs_rank m z = Ok (Some (int (card {m'. zs_below z m' m} + card (stale_below z m))))"
proof -
  define k where "k = (score_key s, m)"
  define live where "live = (\<lambda>m'. (score_key (the (zs_score m' z)), m')) ` {m'. zs_below z m' m}"
  define below where "below = {x \<in> bt_keys (zs_scores z). x < k}"
  have bt: "bt_inv (zs_scores z)" using assms(1) by (simp add: zs_inv_def)
  have keys: "\<And>m s. zs_score m z = Some s \<Longrightarrow> (score_key s, m) \<in> bt_keys (zs_scores z)"
    using assms(1) by (simp add: zs_inv_def zs_score_def)
  have "k \<in> bt_keys (zs_scores z)" using keys [OF assms(3)] by (simp add: k_def)
  with assms(2) have np: "\<not> cmp_panics k (zs_scores z)"
    unfolding cmp_panics_iff zs_ordered_def by blast
  have in_keys: "x \<in> bt_keys (zs_scores z)" if "zs_score (snd x) z = Some s'" "fst x = score_key s'" for x s'
    using keys [OF that(1)] unfolding that(2) [symmetric] by simp
  have eq: "below = live \<union> stale_below z m"
  proof (rule set_eqI)
    fix x
    show "x \<in> below \<longleftrightarrow> x \<in> live \<union> stale_below z m"
      unfolding below_def live_def k_def Un_iff live_below_iff [OF assms(3)] stale_below_iff [OF assms(3)]
      using in_keys [of x] by (simp only: mem_Collect_eq) metis
  qed
  have d: "live \<inter> stale_below z m = {}"
    unfolding live_def set_eq_iff Int_iff live_below_iff [OF assms(3)] stale_below_iff [OF assms(3)]
    by (simp only: empty_iff) blast
  have "finite below" by (simp add: below_def bt_keys_def)
  then have "card below = card live + card (stale_below z m)"
    unfolding eq by (intro card_Un_disjoint d) simp_all
  moreover have "card live = card {m'. zs_below z m' m}" by (simp add: live_def card_image inj_on_def)
  moreover have "length (bt_range_below k (zs_scores z)) = card below"
    by (simp add: bt_range_below_def length_filter_keys [OF bt] below_def)
  moreover have "zs_rank m z = Ok (Some (int (length (bt_range_below k (zs_scores z)))))"
    using np assms(3) unfolding zs_rank_def zs_score_def k_def by (simp only: option.case Let_def if_False)
  ultimately show ?thesis by simp
qed

lemma stale_none: "zs_clean z \<Longrightarrow> stale_below z m = {}"
  by (auto simp: zs_clean_def stale_below_def zs_score_def)

lemma zs_rank_clean:
  assumes "zs_clean z" and "zs_ordered z" and "zs_score m z = Some s"
  shows "zs_rank m z = Ok (Some (int (card {m'. zs_below z m' m})))"
  using zs_rank_stale [OF _ assms(2,3)] assms(1) by (simp add: stale_none zs_clean_def)

text \<open>The whole range lists every member once, in the order of (score, member).\<close>

lemma zs_get_members_all:
  assumes "zs_clean z" and "length (zs_scores z) < 2 ^ 63" and "zs_scores z \<noteq> []"
  shows "zs_get_members 0 (- 1) z = map (snd \<circ> fst) (zs_scores z)"
proof -
  have len: "0 < int (length (zs_scores z))" using assms(3) by simp
  have "zs_get_members 0 (- 1) z =
      map (\<lambda>((_, m), _). m) (take (as_usize (int (length (zs_scores z)))) (zs_scores z))"
    using len assms(2)
    by (simp add: zs_get_members_def clamp_index_def as_usize_def wrap_i64_id i64_range_def Let_def)
  also have "as_usize (int (length (zs_scores z))) = length (zs_scores z)"
    using assms(2) by (simp add: as_usize_def)
  finally show ?thesis by (auto simp: comp_def case_prod_beta)
qed

lemma zs_members_of_clean:
  assumes "zs_clean z"
  shows "set (map (snd \<circ> fst) (zs_scores z)) = {m. zs_score m z \<noteq> None}"
    and "distinct (map (snd \<circ> fst) (zs_scores z))"
proof -
  have keys: "(k, m) \<in> bt_keys (zs_scores z) \<longleftrightarrow> (\<exists>s. zs_score m z = Some s \<and> k = score_key s)" for k m
    using zs_cleanD [OF assms] by (simp add: zs_score_def)
  have snd: "set (map (snd \<circ> fst) (zs_scores z)) = snd ` bt_keys (zs_scores z)"
    by (simp add: bt_keys_def image_comp)
  show "set (map (snd \<circ> fst) (zs_scores z)) = {m. zs_score m z \<noteq> None}"
  proof (unfold snd, intro set_eqI iffI)
    fix m assume "m \<in> snd ` bt_keys (zs_scores z)"
    then obtain k where "(k, m) \<in> bt_keys (zs_scores z)" by auto
    then show "m \<in> {m. zs_score m z \<noteq> None}" by (auto simp: keys)
  next
    fix m assume "m \<in> {m. zs_score m z \<noteq> None}"
    then obtain s where "(score_key s, m) \<in> bt_keys (zs_scores z)" by (auto simp: keys)
    then show "m \<in> snd ` bt_keys (zs_scores z)" by (metis snd_conv image_eqI)
  qed
  have d: "distinct (map fst (zs_scores z))"
    using assms by (simp add: zs_clean_def zs_inv_def bt_inv_distinct)
  have "inj_on snd (set (map fst (zs_scores z)))"
    unfolding bt_keys_set [symmetric]
  proof (rule inj_onI)
    fix x y :: zkey
    assume xy: "x \<in> bt_keys (zs_scores z)" "y \<in> bt_keys (zs_scores z)" "snd x = snd y"
    then obtain k k' m where "x = (k, m)" "y = (k', m)" by (metis prod.collapse)
    with xy keys [of k m] keys [of k' m] show "x = y" by auto
  qed
  with d have "distinct (map snd (map fst (zs_scores z)))"
    unfolding distinct_map [of snd] by blast
  then show "distinct (map (snd \<circ> fst) (zs_scores z))" by simp
qed

section \<open>The stale entry of an updated score\<close>

lemma zs_add_keeps_old_entry:
  assumes "zs_inv z" and "zs_score member z = Some old" and "zs_add score member z = Ok (z', n)"
  shows "(score_key old, member) \<in> bt_keys (zs_scores z')"
    and "(score_key score, member) \<in> bt_keys (zs_scores z')"
proof -
  have "bt_inv (zs_scores z)" using assms(1) by (simp add: zs_inv_def)
  from zs_add_Ok(3) [OF assms(3) this] assms(1,2)
  show "(score_key old, member) \<in> bt_keys (zs_scores z')"
    and "(score_key score, member) \<in> bt_keys (zs_scores z')"
    by (auto simp: zs_inv_def zs_score_def)
qed

end
