(* ===== verification/Bitmap.thy ===== *)
theory Bitmap
  imports SortedSet
begin

text \<open>
  The bitmaps of \<open>src/src/commands/data_types.rs\<close>: \<open>BitValue\<close>, \<open>BitRange\<close>,
  \<open>BitOps\<close> on slices of bytes and the growing \<open>Bitmap\<close>. The abstract view of a map is the
  set \<open>bits m\<close> of the offsets that are set; offset 0 is the most significant bit of byte 0.
  The locale \<open>bit_array\<close> states what a client of get and set relies on.
\<close>

type_synonym bitmap = "u8 list"

datatype bit_value = Zero | One

definition bit_value_of :: "u8 \<Rightarrow> bit_value cres" where
  "bit_value_of v =
     (if v = 1 then Ok One else if v = 0 then Ok Zero
      else Err (ParseError ''Input must be either 0 or 1''))"

datatype bit_unit = UByte | UBit

record bit_range =
  br_start :: int
  br_end :: int
  br_unit :: bit_unit

section \<open>Operations\<close>

definition bit_mask :: "nat \<Rightarrow> u8" where
  "bit_mask offset = push_bit (7 - offset mod 8) 1"

definition bits_get :: "bitmap \<Rightarrow> nat \<Rightarrow> u8 cres" where
  "bits_get m offset =
     (if offset div 8 < length m
      then Ok (if and (m ! (offset div 8)) (bit_mask offset) \<noteq> 0 then 1 else 0)
      else Err OutOfIndex)"

definition bits_set :: "bitmap \<Rightarrow> nat \<Rightarrow> bit_value \<Rightarrow> bitmap cres" where
  "bits_set m offset v =
     (if offset div 8 < length m
      then let b = m ! (offset div 8) in
        Ok (m[offset div 8 :=
              (case v of One \<Rightarrow> or b (bit_mask offset)
               | Zero \<Rightarrow> and b (xor (bit_mask offset) (- 1)))])
      else Err OutOfIndex)"

definition count_ones :: "u8 \<Rightarrow> nat" where
  "count_ones b = length (filter (bit b) [0..<8])"

definition bit_set_at :: "bitmap \<Rightarrow> nat \<Rightarrow> bool" where
  "bit_set_at m i = (case bits_get m i of Ok v \<Rightarrow> 0 < v | _ \<Rightarrow> False)"

text \<open>A negative index counts from the end; the range is then cut to the map.\<close>

definition bit_count :: "bitmap \<Rightarrow> bit_range option \<Rightarrow> nat" where
  "bit_count m rng =
     (case rng of
        None \<Rightarrow> sum_list (map count_ones m)
      | Some r \<Rightarrow>
          let len = (case br_unit r of UByte \<Rightarrow> int (length m) | UBit \<Rightarrow> int (length m) * 8);
              s = clamp_index len (br_start r);
              e = min (clamp_index len (br_end r)) (len - 1)
          in if len = 0 \<or> e < s then 0
             else (case br_unit r of
                 UByte \<Rightarrow> sum_list (map count_ones (take (nat e + 1 - nat s) (drop (nat s) m)))
               | UBit \<Rightarrow> length (filter (bit_set_at m) [nat s..<nat e + 1])))"

definition byte_at :: "bitmap \<Rightarrow> nat \<Rightarrow> u8" where
  "byte_at m i = (if i < length m then m ! i else 0)"

definition bits_combine :: "(u8 \<Rightarrow> u8 \<Rightarrow> u8) \<Rightarrow> bitmap \<Rightarrow> bitmap \<Rightarrow> bitmap" where
  "bits_combine f m1 m2 =
     map (\<lambda>i. f (byte_at m1 i) (byte_at m2 i)) [0..<max (length m1) (length m2)]"

definition bits_and :: "bitmap \<Rightarrow> bitmap \<Rightarrow> bitmap" where
  "bits_and = bits_combine and"

definition bits_or :: "bitmap \<Rightarrow> bitmap \<Rightarrow> bitmap" where
  "bits_or = bits_combine or"

definition bitmap_new :: "nat \<Rightarrow> bitmap" where
  "bitmap_new len = replicate ((len + 7) div 8) 0"

text \<open>\<open>offset + 1\<close> wraps around in the release build.\<close>

definition bitmap_extend :: "nat \<Rightarrow> bitmap \<Rightarrow> bitmap" where
  "bitmap_extend offset m = m @ replicate ((wrap_usize (offset + 1) + 7) div 8 - length m) 0"

text \<open>\<open>s.as_bytes()\<close>, and the bytes of a bitmap in a reply.\<close>

definition as_bytes :: "string \<Rightarrow> bitmap" where
  "as_bytes s = map (\<lambda>c. of_nat (of_char c)) s"

definition bitmap_chars :: "bitmap \<Rightarrow> bytes" where
  "bitmap_chars m = map (\<lambda>b. char_of (unat b)) m"

section \<open>The abstract set of bits\<close>

definition bits :: "bitmap \<Rightarrow> nat set" where
  "bits m = {i. i div 8 < length m \<and> bit (m ! (i div 8)) (7 - i mod 8)}"

definition bits_cap :: "bitmap \<Rightarrow> nat" where
  "bits_cap m = 8 * length m"

lemma div8_less: "i div 8 < n \<longleftrightarrow> i < 8 * (n :: nat)"
  by (simp add: div_less_iff_less_mult mult.commute)

lemma bits_below: "i \<in> bits m \<Longrightarrow> i < bits_cap m"
  by (simp add: bits_def bits_cap_def div8_less)

lemma finite_bits [simp]: "finite (bits m)"
  by (rule finite_subset [of _ "{..<bits_cap m}"]) (auto dest: bits_below)

lemma bit_bit_mask: "bit (bit_mask i) n \<longleftrightarrow> n = 7 - i mod 8"
proof -
  have "7 - i mod 8 < 8" by simp
  then show ?thesis by (auto simp: bit_mask_def bit_exp_iff)
qed

lemma and_bit_mask: "and b (bit_mask i) \<noteq> 0 \<longleftrightarrow> bit b (7 - i mod 8)" for b :: u8
proof -
  have "w = 0 \<longleftrightarrow> (\<forall>n. \<not> bit w n)" for w :: u8 by (auto intro: bit_word_eqI)
  then show ?thesis by (simp add: bit_and_iff bit_bit_mask)
qed

lemma bits_get_eq:
  "bits_get m i = (if i < bits_cap m then Ok (if i \<in> bits m then 1 else 0) else Err OutOfIndex)"
  by (simp add: bits_get_def bits_def bits_cap_def div8_less and_bit_mask)

lemma bit_set_at_iff: "bit_set_at m i \<longleftrightarrow> i \<in> bits m"
  by (auto simp: bit_set_at_def bits_get_eq dest: bits_below)

lemma same_bit: "i div 8 = j div 8 \<and> 7 - i mod 8 = 7 - j mod 8 \<longleftrightarrow> i = (j :: nat)"
proof -
  have "7 - i mod 8 = 7 - j mod 8 \<longleftrightarrow> i mod 8 = j mod 8"
    using mod_less_divisor [of 8 i] mod_less_divisor [of 8 j] by linarith
  then show ?thesis by (metis mult_div_mod_eq)
qed

lemma bits_set_eq:
  assumes "i < bits_cap m"
  obtains m' where "bits_set m i v = Ok m'" "length m' = length m"
    "bits m' = (case v of One \<Rightarrow> insert i (bits m) | Zero \<Rightarrow> bits m - {i})"
proof -
  have i: "i div 8 < length m" using assms by (simp add: bits_cap_def div8_less)
  let ?b = "case v of One \<Rightarrow> or (m ! (i div 8)) (bit_mask i)
            | Zero \<Rightarrow> and (m ! (i div 8)) (xor (bit_mask i) (- 1))"
  have b: "bit ?b n \<longleftrightarrow> (if n = 7 - i mod 8 then v = One else bit (m ! (i div 8)) n)" for n
  proof -
    have "7 - i mod 8 < 8" by simp
    then show ?thesis
      by (auto split: bit_value.splits dest: bit_imp_le_length
          simp: bit_or_iff bit_and_iff bit_not_iff bit_bit_mask)
  qed
  have "j \<in> bits (m[i div 8 := ?b]) \<longleftrightarrow>
        j \<in> (case v of One \<Rightarrow> insert i (bits m) | Zero \<Rightarrow> bits m - {i})" for j
  proof (cases "j div 8 = i div 8")
    case True
    with i b [of "7 - j mod 8"] same_bit [of j i] show ?thesis
      by (cases v) (auto simp: bits_def)
  next
    case False
    with i show ?thesis by (cases v) (auto simp: bits_def)
  qed
  then show thesis using i by (intro that [of "m[i div 8 := ?b]"]) (auto simp: bits_set_def Let_def)
qed

section \<open>The contract of a bit array\<close>

locale bit_array =
  fixes abs :: "'m \<Rightarrow> nat set" and cap :: "'m \<Rightarrow> nat"
    and get :: "'m \<Rightarrow> nat \<Rightarrow> u8 cres"
    and set :: "'m \<Rightarrow> nat \<Rightarrow> bit_value \<Rightarrow> 'm cres"
  assumes get_in: "i < cap m \<Longrightarrow> get m i = Ok (if i \<in> abs m then 1 else 0)"
    and get_out: "cap m \<le> i \<Longrightarrow> get m i = Err OutOfIndex"
    and set_in: "i < cap m \<Longrightarrow> \<exists>m'. set m i v = Ok m' \<and> cap m' = cap m \<and>
       abs m' = (if v = One then insert i (abs m) else abs m - {i})"
    and set_out: "cap m \<le> i \<Longrightarrow> set m i v = Err OutOfIndex"
begin

lemma set_Ok_abs:
  "set m i v = Ok m' \<Longrightarrow>
   i < cap m \<and> cap m' = cap m \<and> abs m' = (if v = One then insert i (abs m) else abs m - {i})"
  by (cases "i < cap m") (use set_in [of i m v] set_out [of m i v] in auto)

lemma get_set_same: "set m i v = Ok m' \<Longrightarrow> get m' i = Ok (if v = One then 1 else 0)"
  by (auto dest!: set_Ok_abs simp: get_in)

lemma get_set_other:
  assumes "set m i v = Ok m'" and "j \<noteq> i"
  shows "get m' j = get m j"
  using set_Ok_abs [OF assms(1)] assms(2)
  by (cases "j < cap m") (auto simp: get_in get_out)

lemma set_set_same:
  assumes "set m i v = Ok m1" and "set m1 i w = Ok m2"
  shows "get m2 j = (if j = i then Ok (if w = One then 1 else 0) else get m j)"
  using assms get_set_same get_set_other by metis

end

interpretation ba: bit_array bits bits_cap bits_get bits_set
proof
  fix i m v assume "i < bits_cap m"
  then show "\<exists>m'. bits_set m i v = Ok m' \<and> bits_cap m' = bits_cap m \<and>
      bits m' = (if v = One then insert i (bits m) else bits m - {i})"
    by (rule bits_set_eq [where v = v]) (auto simp: bits_cap_def split: bit_value.splits)
qed (auto simp: bits_get_eq bits_set_def bits_cap_def div8_less)

section \<open>Counting, combining, growing\<close>

lemma block_offset: "8 * j \<le> i \<Longrightarrow> i < 8 * j + 8 \<Longrightarrow> i div 8 = j \<and> i mod 8 = i - 8 * j" for i j :: nat
  by (auto simp: le_iff_add)

lemma card_block:
  assumes "j < length m"
  shows "card (bits m \<inter> {8 * j..<8 * j + 8}) = count_ones (m ! j)"
proof -
  let ?A = "{n \<in> {..<8}. bit (m ! j) n}" and ?B = "bits m \<inter> {8 * j..<8 * j + 8}"
  have "bij_betw (\<lambda>n. 8 * j + (7 - n)) ?A ?B"
  proof (rule bij_betw_byWitness [where f' = "\<lambda>i. 7 - i mod 8"])
    show "\<forall>n\<in>?A. 7 - (8 * j + (7 - n)) mod 8 = n"
    proof
      fix n assume "n \<in> ?A"
      then have "(7 - n) mod 8 = 7 - n" "7 - (7 - n) = n" by auto
      then show "7 - (8 * j + (7 - n)) mod 8 = n" by (simp only: mod_mult_self4)
    qed
    show "\<forall>i\<in>?B. 8 * j + (7 - (7 - i mod 8)) = i" using block_offset [of j] by auto
    show "(\<lambda>n. 8 * j + (7 - n)) ` ?A \<subseteq> ?B"
    proof
      fix i assume "i \<in> (\<lambda>n. 8 * j + (7 - n)) ` ?A"
      then obtain n where n: "i = 8 * j + (7 - n)" "n < 8" "bit (m ! j) n" by auto
      then have "8 * j \<le> i" "i < 8 * j + 8" by simp_all
      moreover from this have "i div 8 = j" "7 - i mod 8 = n"
        using block_offset [of j i] n by auto
      ultimately show "i \<in> ?B" using n assms by (auto simp: bits_def)
    qed
    show "(\<lambda>i. 7 - i mod 8) ` ?B \<subseteq> ?A" using block_offset [of j] by (auto simp: bits_def)
  qed
  then have "card ?B = card ?A" by (simp add: bij_betw_same_card)
  also have "?A = set (filter (bit (m ! j)) [0..<8])" by auto
  also have "card \<dots> = length (filter (bit (m ! j)) [0..<8])" by (rule distinct_card) simp
  finally show ?thesis by (simp add: count_ones_def)
qed

lemma card_blocks:
  "a \<le> b \<Longrightarrow> b \<le> length m \<Longrightarrow>
   card (bits m \<inter> {8 * a..<8 * b}) = sum_list (map count_ones (take (b - a) (drop a m)))"
proof (induction "b - a" arbitrary: b)
  case (Suc n)
  then obtain b' where b: "b = Suc b'" "a \<le> b'" "n = b' - a" by (cases b) auto
  have s: "bits m \<inter> {8 * a..<8 * b} = (bits m \<inter> {8 * a..<8 * b'}) \<union> (bits m \<inter> {8 * b'..<8 * b' + 8})"
    using b by auto
  have "card (bits m \<inter> {8 * a..<8 * b}) =
        card (bits m \<inter> {8 * a..<8 * b'}) + card (bits m \<inter> {8 * b'..<8 * b' + 8})"
    unfolding s by (rule card_Un_disjoint) auto
  moreover have "take (b - a) (drop a m) = take (b' - a) (drop a m) @ [m ! b']"
    using b Suc.prems by (simp add: Suc_diff_le take_Suc_conv_app_nth)
  ultimately show ?case
    using Suc.hyps(1) [of b'] b Suc.prems card_block [of b' m] by simp
qed simp

lemma bit_count_all: "bit_count m None = card (bits m)"
proof -
  have "bits m \<inter> {8 * 0..<8 * length m} = bits m" by (auto dest: bits_below simp: bits_cap_def)
  then show ?thesis using card_blocks [of 0 "length m" m] by (simp add: bit_count_def)
qed

text \<open>The bits a range names, as Redis documents it.\<close>

definition range_bits :: "bitmap \<Rightarrow> bit_range \<Rightarrow> nat set" where
  "range_bits m r =
     (let u = (case br_unit r of UByte \<Rightarrow> 8 | UBit \<Rightarrow> 1);
          len = int (bits_cap m) div u;
          s = (if br_start r < 0 then max 0 (len + br_start r) else br_start r);
          e = (if br_end r < 0 then max 0 (len + br_end r) else br_end r)
      in {i \<in> bits m. u * s \<le> int i \<and> int i < u * (e + 1)})"

lemma range_bytes:
  assumes "0 \<le> s" and "e = min e' (int (length m) - 1)"
  shows "(if int (length m) = 0 \<or> e < s then 0
          else sum_list (map count_ones (take (nat e + 1 - nat s) (drop (nat s) m)))) =
         card {i \<in> bits m. 8 * s \<le> int i \<and> int i < 8 * (e' + 1)}" (is "?l = card ?R")
proof -
  have "int i < 8 * (e' + 1) \<longleftrightarrow> int i < 8 * (e + 1)" if "i \<in> bits m" for i
    using bits_below [OF that] assms(2) by (auto simp: bits_cap_def min_def)
  then have R: "?R = {i \<in> bits m. 8 * s \<le> int i \<and> int i < 8 * (e + 1)}" by blast
  show ?thesis
  proof (cases "int (length m) = 0 \<or> e < s")
    case True
    then have "?R = {}" unfolding R by (auto simp: bits_def)
    with True show ?thesis by simp
  next
    case False
    then have "?R = bits m \<inter> {8 * nat s..<8 * (nat e + 1)}" unfolding R using assms(1) by auto
    moreover have "nat s \<le> nat e + 1" "nat e + 1 \<le> length m" using False assms by auto
    ultimately show ?thesis using card_blocks [of "nat s" "nat e + 1" m] False by simp
  qed
qed

lemma range_offsets:
  assumes "0 \<le> s" and "e = min e' (int (length m) * 8 - 1)"
  shows "(if int (length m) * 8 = 0 \<or> e < s then 0
          else length (filter (bit_set_at m) [nat s..<nat e + 1])) =
         card {i \<in> bits m. s \<le> int i \<and> int i < e' + 1}" (is "?l = card ?R")
proof -
  have "int i < e' + 1 \<longleftrightarrow> int i < e + 1" if "i \<in> bits m" for i
    using bits_below [OF that] assms(2) by (auto simp: bits_cap_def min_def)
  then have R: "?R = {i \<in> bits m. s \<le> int i \<and> int i < e + 1}" by blast
  show ?thesis
  proof (cases "int (length m) * 8 = 0 \<or> e < s")
    case True
    then have "?R = {}" unfolding R by (auto simp: bits_def)
    with True show ?thesis by simp
  next
    case False
    then have "?R = set (filter (bit_set_at m) [nat s..<nat e + 1])"
      unfolding R using assms(1) by (auto simp: bit_set_at_iff)
    then have "card ?R = length (filter (bit_set_at m) [nat s..<nat e + 1])"
      by (simp only: distinct_card distinct_filter distinct_upt)
    with False show ?thesis by simp
  qed
qed

lemma clamp_index_nonneg: "0 \<le> clamp_index len i"
  by (simp add: clamp_index_def)

lemma bit_count_range: "bit_count m (Some r) = card (range_bits m r)"
proof (cases "br_unit r")
  case UByte
  have "range_bits m r = {i \<in> bits m. 8 * clamp_index (int (length m)) (br_start r) \<le> int i \<and>
          int i < 8 * (clamp_index (int (length m)) (br_end r) + 1)}"
    by (simp add: range_bits_def UByte clamp_index_def bits_cap_def max.commute Let_def)
  then show ?thesis
    using range_bytes [OF clamp_index_nonneg [of "int (length m)" "br_start r"] refl, of m
        "clamp_index (int (length m)) (br_end r)"]
    by (simp only: bit_count_def UByte Let_def option.case bit_unit.case)
next
  case UBit
  have "range_bits m r = {i \<in> bits m. clamp_index (int (length m) * 8) (br_start r) \<le> int i \<and>
          int i < clamp_index (int (length m) * 8) (br_end r) + 1}"
    by (simp add: range_bits_def UBit clamp_index_def bits_cap_def max.commute mult.commute Let_def)
  then show ?thesis
    using range_offsets [OF clamp_index_nonneg [of "int (length m) * 8" "br_start r"] refl, of m
        "clamp_index (int (length m) * 8) (br_end r)"]
    by (simp only: bit_count_def UBit Let_def option.case bit_unit.case)
qed

lemma length_bits_combine: "length (bits_combine f m1 m2) = max (length m1) (length m2)"
  by (simp add: bits_combine_def)

lemma bit_byte_at: "bit (byte_at m (i div 8)) (7 - i mod 8) \<longleftrightarrow> i \<in> bits m"
  by (simp add: byte_at_def bits_def)

lemma bits_and_eq: "bits (bits_and m1 m2) = bits m1 \<inter> bits m2"
proof -
  have "i \<in> bits (bits_and m1 m2) \<longleftrightarrow> i \<in> bits m1 \<inter> bits m2" for i
    unfolding Int_iff bit_byte_at [symmetric]
    by (auto simp: bits_and_def bits_combine_def bits_def bit_and_iff byte_at_def)
  then show ?thesis by blast
qed

lemma bits_or_eq: "bits (bits_or m1 m2) = bits m1 \<union> bits m2"
proof -
  have "i \<in> bits (bits_or m1 m2) \<longleftrightarrow> i \<in> bits m1 \<union> bits m2" for i
    unfolding Un_iff bit_byte_at [symmetric]
    by (auto simp: bits_or_def bits_combine_def bits_def bit_or_iff byte_at_def)
  then show ?thesis by blast
qed

lemma bits_replicate_0 [simp]: "bits (replicate n 0) = {}"
  by (simp add: bits_def)

lemma bits_append_0: "bits (m @ replicate n 0) = bits m"
proof (intro set_eqI)
  fix i
  show "i \<in> bits (m @ replicate n 0) \<longleftrightarrow> i \<in> bits m"
    by (cases "i div 8 < length m"; cases "i div 8 < length m + n")
      (auto simp: bits_def nth_append)
qed

lemma bits_extend: "bits (bitmap_extend i m) = bits m"
  by (simp add: bitmap_extend_def bits_append_0)

lemma bits_new: "bits (bitmap_new n) = {}"
  by (simp add: bitmap_new_def)

lemma cap_extend: "i + 1 < 2 ^ 64 \<Longrightarrow> i < bits_cap (bitmap_extend i m)"
  by (simp add: bitmap_extend_def bits_cap_def wrap_usize_def)

lemma cap_new: "i < bits_cap (bitmap_new (Suc i))"
  by (simp add: bitmap_new_def bits_cap_def)

lemma as_bytes_chars: "bitmap_chars (as_bytes s) = s"
proof -
  have "unat (of_nat (of_char c) :: u8) = of_char c" for c
    by (simp add: unsigned_of_nat take_bit_eq_mod)
  then show ?thesis by (simp add: bitmap_chars_def as_bytes_def comp_def)
qed

end
