(* ===== verification/Store.thy ===== *)
theory Store
  imports Bitmap
begin

text \<open>
  The values of the key space (\<open>StoreValue\<close>, \<open>StoreItem\<close> of
  \<open>src/src/commands/data_types.rs\<close>) and the invariant every stored value satisfies. A
  \<open>VecDeque\<close> is a list whose head is the front.
\<close>

type_synonym stream_id = "u64 \<times> u64"
type_synonym stream = "(stream_id, string list) btreemap"

datatype store_value =
    VStr string
  | VList "string list"
  | VSet "string hashset"
  | VZSet sorted_set
  | VHash "(string, string) hashmap"
  | VStream stream
  | VVectorSet string
  | VBitmap bitmap
  | VNone

fun get_type :: "store_value \<Rightarrow> string" where
  "get_type (VStr _) = ''string''"
| "get_type (VList _) = ''list''"
| "get_type (VSet _) = ''set''"
| "get_type (VZSet _) = ''zset''"
| "get_type (VHash _) = ''hash''"
| "get_type (VStream _) = ''stream''"
| "get_type (VVectorSet _) = ''vectorset''"
| "get_type (VBitmap _) = ''bitmap''"
| "get_type VNone = ''none''"

record store_item =
  item_value :: store_value
  expired_at :: "u64 option"

definition item :: "store_value \<Rightarrow> u64 option \<Rightarrow> store_item" where
  "item v e = \<lparr>item_value = v, expired_at = e\<rparr>"

type_synonym store = "(string, store_item) hashmap"

lemma item_simps [simp]: "item_value (item v e) = v" "expired_at (item v e) = e"
  by (simp_all add: item_def)

lemma item_surj: "i = item (item_value i) (expired_at i)"
  by (simp add: item_def)

fun value_inv :: "store_value \<Rightarrow> bool" where
  "value_inv (VZSet z) = zs_inv z"
| "value_inv (VStream b) = bt_inv b"
| "value_inv (VHash h) = hm_inv h"
| "value_inv (VSet s) = distinct s"
| "value_inv _ = True"

definition store_inv :: "store \<Rightarrow> bool" where
  "store_inv d \<longleftrightarrow> hm_inv d \<and> (\<forall>k i. hm_get d k = Some i \<longrightarrow> value_inv (item_value i))"

lemma store_inv_Nil [simp, inv_intros]: "store_inv []"
  by (simp add: store_inv_def)

lemma store_inv_insert [inv_intros]:
  "store_inv d \<Longrightarrow> value_inv (item_value i) \<Longrightarrow> store_inv (hm_insert k i d)"
  by (simp add: store_inv_def)

lemma store_inv_remove [inv_intros]: "store_inv d \<Longrightarrow> store_inv (hm_remove k d)"
  by (simp add: store_inv_def)

lemma store_inv_or_insert [inv_intros]:
  "store_inv d \<Longrightarrow> value_inv (item_value i) \<Longrightarrow> store_inv (hm_or_insert k i d)"
  by (auto simp: hm_or_insert_def store_inv_insert split: option.splits)

lemma store_inv_get: "store_inv d \<Longrightarrow> hm_get d k = Some i \<Longrightarrow> value_inv (item_value i)"
  by (simp add: store_inv_def)

end
