(* ===== verification/Geohash.thy ===== *)
theory Geohash
  imports Floats
begin

text \<open>
  \<open>src/src/geohash.rs\<close>: longitude and latitude become two 26-bit cells whose bits are
  interleaved into one score. The trigonometry of \<open>distance\<close> is a parameter (\<open>libm\<close>);
  \<open>sqrt\<close> is correctly rounded by IEEE 754 and is modelled.
\<close>

unbundle bit_operations_syntax

section \<open>Interleaving\<close>

definition spread_u32_to_u64 :: "u32 \<Rightarrow> u64" where
  "spread_u32_to_u64 x0 =
     (let x = ucast x0;
          x = (x OR push_bit 16 x) AND 0x0000FFFF0000FFFF;
          x = (x OR push_bit 8 x) AND 0x00FF00FF00FF00FF;
          x = (x OR push_bit 4 x) AND 0x0F0F0F0F0F0F0F0F;
          x = (x OR push_bit 2 x) AND 0x3333333333333333
      in (x OR push_bit 1 x) AND 0x5555555555555555)"

definition compact_u64_to_u32 :: "u64 \<Rightarrow> u64" where
  "compact_u64_to_u32 x0 =
     (let x = x0 AND 0x5555555555555555;
          x = (x OR drop_bit 1 x) AND 0x3333333333333333;
          x = (x OR drop_bit 2 x) AND 0x0F0F0F0F0F0F0F0F;
          x = (x OR drop_bit 4 x) AND 0x00FF00FF00FF00FF;
          x = (x OR drop_bit 8 x) AND 0x0000FFFF0000FFFF
      in (x OR drop_bit 16 x) AND 0x00000000FFFFFFFF)"

definition interleave :: "u32 \<Rightarrow> u32 \<Rightarrow> u64" where
  "interleave long lat = spread_u32_to_u64 lat OR push_bit 1 (spread_u32_to_u64 long)"

definition deinterleave :: "u64 \<Rightarrow> u64 \<times> u64" where
  "deinterleave score = (compact_u64_to_u32 (drop_bit 1 score), compact_u64_to_u32 score)"

section \<open>Encoding and decoding\<close>

definition f_lit :: "string \<Rightarrow> f64" where
  "f_lit s = (case parse_f64 s of Ok x \<Rightarrow> x | _ \<Rightarrow> f_nan)"

definition lat_min :: f64 where "lat_min = f_lit ''-85.05112878''"
definition lat_max :: f64 where "lat_max = f_lit ''85.05112878''"
definition long_min :: f64 where "long_min = f_lit ''-180.0''"
definition long_max :: f64 where "long_max = f_lit ''180.0''"
definition lat_range :: f64 where "lat_range = f_sub lat_max lat_min"
definition long_range :: f64 where "long_range = f_sub long_max long_min"

definition f_step :: f64 where
  "f_step = f_of_nat (2 ^ 26)"

definition geo_cell :: "f64 \<Rightarrow> f64 \<Rightarrow> f64 \<Rightarrow> u32" where
  "geo_cell mn rng x = f_to_u32 (f_mul (f_div (f_sub x mn) rng) f_step)"

definition geo_valid :: "f64 \<Rightarrow> f64 \<Rightarrow> bool" where
  "geo_valid long lat \<longleftrightarrow>
     (f_le lat_min lat \<and> f_le lat lat_max) \<and> (f_le long_min long \<and> f_le long long_max)"

definition geo_encode :: "f64 \<Rightarrow> f64 \<Rightarrow> u64 cres" where
  "geo_encode long lat =
     (if \<not> geo_valid long lat
      then Err (UnprocessableError
        (''ERR invalid longitude,latitude pair '' @ show_fixed6 long @ '','' @ show_fixed6 lat))
      else Ok (interleave (geo_cell long_min long_range long) (geo_cell lat_min lat_range lat)))"

definition cell_edge :: "f64 \<Rightarrow> f64 \<Rightarrow> u64 \<Rightarrow> f64" where
  "cell_edge mn rng n = f_add (f_mul (f_div (f_of_nat (unat n)) f_step) rng) mn"

definition cell_center :: "f64 \<Rightarrow> f64 \<Rightarrow> u64 \<Rightarrow> f64" where
  "cell_center mn rng n = f_div (f_add (cell_edge mn rng n) (cell_edge mn rng (n + 1))) (f_of_nat 2)"

definition geo_decode :: "u64 \<Rightarrow> f64 \<times> f64" where
  "geo_decode score =
     (case deinterleave score of (long, lat) \<Rightarrow>
        (cell_center long_min long_range long, cell_center lat_min lat_range lat))"

section \<open>Distance\<close>

fun isqrt :: "nat \<Rightarrow> nat" where
  "isqrt n =
     (if n = 0 then 0
      else let r = 2 * isqrt (n div 4) in if (r + 1) * (r + 1) \<le> n then r + 1 else r)"

declare isqrt.simps [simp del]

text \<open>\<open>isqrt\<close> at a scale that leaves at least 56 bits, with a sticky bit for the rest.\<close>

definition f_sqrt :: "f64 \<Rightarrow> f64" where
  "f_sqrt x =
     (if is_nan x then f_nan
      else if mag_bits x = 0 then x
      else if f_sign x then f_nan
      else if is_inf x then x
      else let k = (if even (f_expo x) then 110 else 111);
               n = f_mant x * 2 ^ k; r = isqrt n
           in round_scaled False (2 * r + (if r * r = n then 0 else 1))
                ((f_expo x - int k) div 2 - 1))"

record libm =
  m_sin :: "f64 \<Rightarrow> f64"
  m_cos :: "f64 \<Rightarrow> f64"
  m_asin :: "f64 \<Rightarrow> f64"

definition to_radians :: "f64 \<Rightarrow> f64" where
  "to_radians x = f_mul x (f_div (f_lit ''3.14159265358979323846264338327950288'') (f_lit ''180''))"

definition radius :: f64 where
  "radius = f_lit ''6372797.560856''"

text \<open>The locations are popped off the end of the vector.\<close>

definition geo_distance :: "libm \<Rightarrow> (f64 \<times> f64) list \<Rightarrow> f64 cres" where
  "geo_distance L locations =
     (case rev locations of
        (a, b) # (c, d) # _ \<Rightarrow>
          (let long1 = to_radians a; lat1 = to_radians b;
               long2 = to_radians c; lat2 = to_radians d;
               v = m_sin L (f_div (f_sub long2 long1) (f_of_nat 2))
           in if f_eq v 0 then Ok (f_mul radius (f_abs (f_sub lat2 lat1)))
              else let u = m_sin L (f_div (f_sub lat2 lat1) (f_of_nat 2));
                       w = f_add (f_mul u u) (f_mul (f_mul (f_mul (m_cos L lat1) (m_cos L lat2)) v) v)
                   in Ok (f_mul (f_mul (f_of_nat 2) radius) (m_asin L (f_sqrt w))))
      | _ \<Rightarrow> Err (InternalError ''No location provided for distance calculation''))"

section \<open>The bits of a score\<close>

text \<open>
  Every intermediate word has its bits in groups: bit \<open>n\<close> is present when \<open>A n\<close>, and is then
  bit \<open>f n\<close> of the input. One shift-or-mask turn changes the grouping; that it does so correctly
  is a finite check on the 64 positions.
\<close>

definition grouped :: "nat \<Rightarrow> nat \<Rightarrow> bool" where
  "grouped k n \<longleftrightarrow> n mod (2 * k) < k"

definition squeeze :: "nat \<Rightarrow> nat \<Rightarrow> nat" where
  "squeeze k n = n div (2 * k) * k + n mod k"

definition has_bits :: "'a::len word \<Rightarrow> (nat \<Rightarrow> bool) \<Rightarrow> (nat \<Rightarrow> nat) \<Rightarrow> u64 \<Rightarrow> bool" where
  "has_bits x A f w \<longleftrightarrow> (\<forall>n. bit w n \<longleftrightarrow> n < 64 \<and> A n \<and> bit x (f n))"

lemma check_upt: "list_all P [0..<m] \<Longrightarrow> n < m \<Longrightarrow> P n"
  by (simp add: list_all_iff)

lemma spread_step:
  assumes "has_bits x A f w"
    and M: "list_all (\<lambda>n. bit M n = B n) [0..<64]"
    and C: "list_all (\<lambda>n. B n \<longrightarrow> (if A n then f n = g n \<and> (k \<le> n \<longrightarrow> \<not> A (n - k))
              else k \<le> n \<and> A (n - k) \<and> f (n - k) = g n)) [0..<64]"
  shows "has_bits x B g ((w OR push_bit k w) AND M)"
  unfolding has_bits_def
proof
  fix n
  have w: "bit w m \<longleftrightarrow> m < 64 \<and> A m \<and> bit x (f m)" for m
    using assms(1) by (simp add: has_bits_def)
  show "bit ((w OR push_bit k w) AND M) n \<longleftrightarrow> n < 64 \<and> B n \<and> bit x (g n)"
  proof (cases "n < 64")
    case True
    have "bit ((w OR push_bit k w) AND M) n \<longleftrightarrow> B n \<and> (bit w n \<or> k \<le> n \<and> bit w (n - k))"
      using True check_upt [OF M True] by (simp add: bit_simps add.commute conj_commute)
    also have "\<dots> \<longleftrightarrow> B n \<and> bit x (g n)"
      using True check_upt [OF C True] by (cases "B n"; cases "A n") (auto simp: w)
    finally show ?thesis using True by simp
  next
    case False
    then show ?thesis by (auto dest: bit_imp_le_length)
  qed
qed

lemma compact_step:
  assumes "has_bits x A f w"
    and M: "list_all (\<lambda>n. bit M n = B n) [0..<64]"
    and C: "list_all (\<lambda>n. B n \<longrightarrow> (if A n then f n = g n \<and> \<not> (n + k < 64 \<and> A (n + k))
              else n + k < 64 \<and> A (n + k) \<and> f (n + k) = g n)) [0..<64]"
  shows "has_bits x B g ((w OR drop_bit k w) AND M)"
  unfolding has_bits_def
proof
  fix n
  have w: "bit w m \<longleftrightarrow> m < 64 \<and> A m \<and> bit x (f m)" for m
    using assms(1) by (simp add: has_bits_def)
  show "bit ((w OR drop_bit k w) AND M) n \<longleftrightarrow> n < 64 \<and> B n \<and> bit x (g n)"
  proof (cases "n < 64")
    case True
    have "bit ((w OR drop_bit k w) AND M) n \<longleftrightarrow> B n \<and> (bit w n \<or> True \<and> bit w (n + k))"
      using True check_upt [OF M True] by (simp add: bit_simps add.commute conj_commute)
    also have "\<dots> \<longleftrightarrow> B n \<and> bit x (g n)"
      using True check_upt [OF C True] by (cases "B n"; cases "A n") (auto simp: w)
    finally show ?thesis using True by simp
  next
    case False
    then show ?thesis by (auto dest: bit_imp_le_length)
  qed
qed

text \<open>The masks, and the regrouping of every turn.\<close>

definition mask_num :: "nat \<Rightarrow> int" where
  "mask_num k = horner_sum of_bool 2 (map (grouped k) [0..<64])"

lemma mask_nums:
  "mask_num 1 = 0x5555555555555555"
  "mask_num 2 = 0x3333333333333333"
  "mask_num 4 = 0x0F0F0F0F0F0F0F0F"
  "mask_num 8 = 0x00FF00FF00FF00FF"
  "mask_num 16 = 0x0000FFFF0000FFFF"
  "mask_num 32 = 0x00000000FFFFFFFF"
  by code_simp+

lemma mask_bit:
  "mask_num k = numeral w \<Longrightarrow> list_all (\<lambda>n. bit (numeral w :: u64) n = grouped k n) [0..<64]"
proof -
  assume "mask_num k = numeral w"
  then have "bit (numeral w :: int) n \<longleftrightarrow> n < 64 \<and> grouped k n" for n
    by (auto simp: mask_num_def bit_horner_sum_bit_iff simp flip: \<open>mask_num k = numeral w\<close>)
  then have "bit (numeral w :: u64) n = grouped k n" if "n < 64" for n
    using that by simp
  then show ?thesis by (simp only: list_all_iff) simp
qed

definition spread_check :: "nat \<Rightarrow> bool" where
  "spread_check k \<longleftrightarrow> list_all (\<lambda>n. grouped k n \<longrightarrow>
     (if grouped (2 * k) n then squeeze (2 * k) n = squeeze k n \<and> (k \<le> n \<longrightarrow> \<not> grouped (2 * k) (n - k))
      else k \<le> n \<and> grouped (2 * k) (n - k) \<and> squeeze (2 * k) (n - k) = squeeze k n)) [0..<64]"

definition compact_check :: "nat \<Rightarrow> bool" where
  "compact_check k \<longleftrightarrow> list_all (\<lambda>n. grouped (2 * k) n \<longrightarrow>
     (if grouped k n then 2 * squeeze k n = 2 * squeeze (2 * k) n \<and> \<not> (n + k < 64 \<and> grouped k (n + k))
      else n + k < 64 \<and> grouped k (n + k) \<and> 2 * squeeze k (n + k) = 2 * squeeze (2 * k) n)) [0..<64]"

lemma turn_checks: "list_all (\<lambda>k. spread_check k \<and> compact_check k) [1, 2, 4, 8, 16]"
  by code_simp

lemma spread_turn:
  "has_bits x (grouped k2) (squeeze k2) w \<Longrightarrow> k2 = 2 * k \<Longrightarrow>
   list_all (\<lambda>n. bit M n = grouped k n) [0..<64] \<Longrightarrow> spread_check k \<Longrightarrow>
   has_bits x (grouped k) (squeeze k) ((w OR push_bit k w) AND M)"
  unfolding spread_check_def by (simp only:) (rule spread_step)

lemma compact_turn:
  "has_bits x (grouped k) (\<lambda>n. 2 * squeeze k n) w \<Longrightarrow> k2 = 2 * k \<Longrightarrow>
   list_all (\<lambda>n. bit M n = grouped k2 n) [0..<64] \<Longrightarrow> compact_check k \<Longrightarrow>
   has_bits x (grouped k2) (\<lambda>n. 2 * squeeze k2 n) ((w OR drop_bit k w) AND M)"
  unfolding compact_check_def by (simp only:) (rule compact_step)

lemma has_bits_ucast: "has_bits x (grouped 32) (squeeze 32) (ucast x :: u64)" for x :: u32
  unfolding has_bits_def
proof
  fix n
  show "bit (ucast x :: u64) n \<longleftrightarrow> n < 64 \<and> grouped 32 n \<and> bit x (squeeze 32 n)"
    by (cases "n < 32") (auto simp: bit_ucast_iff grouped_def squeeze_def dest: bit_imp_le_length)
qed

lemmas mask_bits = mask_nums [THEN mask_bit]
lemmas turn_ok = turn_checks [unfolded list.pred_inject]

lemma has_bits_spread: "has_bits x (grouped 1) (squeeze 1) (spread_u32_to_u64 x)"
  unfolding spread_u32_to_u64_def Let_def
  by (rule spread_turn [where k = 1 and ?k2.0 = 2], rule spread_turn [where k = 2 and ?k2.0 = 4],
      rule spread_turn [where k = 4 and ?k2.0 = 8], rule spread_turn [where k = 8 and ?k2.0 = 16],
      rule spread_turn [where k = 16 and ?k2.0 = 32], rule has_bits_ucast)
    (simp only: mask_bits turn_ok | simp)+

lemma bit_spread: "bit (spread_u32_to_u64 x) n \<longleftrightarrow> even n \<and> bit x (n div 2)"
proof -
  have "bit (spread_u32_to_u64 x) n \<longleftrightarrow> n < 64 \<and> grouped 1 n \<and> bit x (squeeze 1 n)"
    using has_bits_spread [of x] unfolding has_bits_def by blast
  moreover have "grouped 1 n \<longleftrightarrow> even n" "squeeze 1 n = n div 2"
    by (simp_all add: grouped_def squeeze_def even_iff_mod_2_eq_zero)
  moreover have "n < 64" if "bit x (n div 2)" using bit_imp_le_length [OF that] by simp
  ultimately show ?thesis by auto
qed

lemma has_bits_compact: "has_bits x (grouped 32) (\<lambda>n. 2 * squeeze 32 n) (compact_u64_to_u32 x)"
proof -
  have "has_bits x (grouped 1) (\<lambda>n. 2 * squeeze 1 n) (x AND 0x5555555555555555)"
    unfolding has_bits_def
  proof
    fix n
    have "list_all (\<lambda>n. bit (0x5555555555555555 :: u64) n = grouped 1 n) [0..<64]"
      by (simp only: mask_bits)
    from check_upt [OF this, of n]
    show "bit (x AND 0x5555555555555555) n \<longleftrightarrow> n < 64 \<and> grouped 1 n \<and> bit x (2 * squeeze 1 n)"
      by (auto simp: bit_and_iff grouped_def squeeze_def dest: bit_imp_le_length)
  qed
  note h = this
  show ?thesis
    unfolding compact_u64_to_u32_def Let_def
    by (rule compact_turn [where k = 16 and ?k2.0 = 32], rule compact_turn [where k = 8 and ?k2.0 = 16],
        rule compact_turn [where k = 4 and ?k2.0 = 8], rule compact_turn [where k = 2 and ?k2.0 = 4],
        rule compact_turn [where k = 1 and ?k2.0 = 2], rule h)
      (simp only: mask_bits turn_ok | simp)+
qed

lemma bit_compact: "bit (compact_u64_to_u32 x) n \<longleftrightarrow> n < 32 \<and> bit x (2 * n)"
proof -
  have "bit (compact_u64_to_u32 x) n \<longleftrightarrow> n < 64 \<and> grouped 32 n \<and> bit x (2 * squeeze 32 n)"
    using has_bits_compact [of x] unfolding has_bits_def by blast
  moreover have "n < 64 \<and> grouped 32 n \<longleftrightarrow> n < 32" by (auto simp: grouped_def)
  ultimately show ?thesis by (auto simp: squeeze_def)
qed

section \<open>Round trips\<close>

lemma bit_interleave:
  "bit (interleave long lat) n \<longleftrightarrow> (if even n then bit lat (n div 2) else bit long (n div 2))"
proof -
  have "bit (interleave long lat) n \<longleftrightarrow>
      even n \<and> bit lat (n div 2) \<or> 1 \<le> n \<and> n < 64 \<and> even (n - 1) \<and> bit long ((n - 1) div 2)"
    unfolding interleave_def bit_or_iff bit_push_bit_iff bit_spread by auto
  moreover have "n < 64" if "bit long (n div 2)" using bit_imp_le_length [OF that] by simp
  ultimately show ?thesis by (auto elim!: oddE)
qed

theorem deinterleave_interleave: "deinterleave (interleave long lat) = (ucast long, ucast lat)"
proof -
  have "n < 32" if "bit w n" for n and w :: u32 using bit_imp_le_length [OF that] by simp
  then show ?thesis
    by (auto simp: deinterleave_def bit_compact bit_interleave bit_drop_bit_eq bit_ucast_iff
        intro!: bit_word_eqI)
qed

theorem interleave_deinterleave:
  "(case deinterleave s of (long, lat) \<Rightarrow> interleave (ucast long) (ucast lat)) = s"
proof (rule bit_word_eqI)
  fix n assume "n < LENGTH(64)"
  then show "bit (case deinterleave s of (long, lat) \<Rightarrow> interleave (ucast long) (ucast lat)) n \<longleftrightarrow> bit s n"
    by (auto simp: deinterleave_def bit_interleave bit_ucast_iff bit_compact bit_drop_bit_eq
        elim!: oddE)
qed

lemma bit_below: "unat w < 2 ^ k \<Longrightarrow> bit w n \<Longrightarrow> n < k"
  by (metis bit_take_bit_iff bit_unsigned_iff possible_bit_nat take_bit_nat_eq_self bit_imp_possible_bit)

lemma interleave_bound:
  assumes "unat long < 2 ^ k" and "unat lat < 2 ^ k"
  shows "unat (interleave long lat) < 2 ^ (2 * k)"
proof -
  have "take_bit (2 * k) (interleave long lat) = interleave long lat"
  proof (rule bit_word_eqI)
    fix n
    have "n < 2 * k" if "bit (interleave long lat) n"
      using that bit_below [OF assms(1), of "n div 2"] bit_below [OF assms(2), of "n div 2"]
      by (auto simp: bit_interleave split: if_splits)
    then show "bit (take_bit (2 * k) (interleave long lat)) n = bit (interleave long lat) n"
      by (auto simp: bit_take_bit_iff)
  qed
  then show ?thesis
    by (metis take_bit_nat_less_exp unsigned_take_bit_eq)
qed

text \<open>
  A score of cells below \<open>2^26\<close> fits the 53 bits of a float, so storing it as the score of a
  sorted set loses nothing.
\<close>

theorem score_survives_f64:
  assumes "unat long < 2 ^ 26" and "unat lat < 2 ^ 26"
  shows "f_to_u64 (f_of_nat (unat (interleave long lat))) = interleave long lat"
proof -
  have "unat (interleave long lat) < 2 ^ (2 * 26)" by (rule interleave_bound [OF assms])
  then have "unat (interleave long lat) < 2 ^ 53" by simp
  then show ?thesis by (subst f_to_u64_of_nat) simp_all
qed

end
