(* ===== verification/CmdBuilder.thy ===== *)
theory CmdBuilder
  imports Store Geohash
begin

text \<open>
  \<open>src/src/commands/cmd_builder.rs\<close>: from RESP values to commands. One definition per
  builder function; \<open>resp_arg!\<close> is \<open>arg_str\<close>, which pops one argument off the front. The
  constructors of \<open>Cmd\<close> carry a \<open>C\<close> in front of the source's names.
\<close>

section \<open>Types\<close>

datatype acl_rule = AddPassword string | NoPass

datatype cmd_arg =
    ArgEX "u64 option"
  | ArgPX "u64 option"
  | ListeningPort nat
  | Capa string
  | GetAck string
  | ArgAck int
  | ArgGet string
  | FromLonLat f64 f64
  | ByRadius f64
  | WhoAmI
  | GetUser string
  | SetUser string "acl_rule list"
  | ArgAND string string string
  | ArgOR string string string

datatype (plugins only: code) cmd =
    CPING
  | CPONG
  | COK
  | CECHO string
  | CSET string string "cmd_arg option"
  | CGET string
  | CRPUSH string "string list"
  | CLRANGE string int int
  | CLPUSH string "string list"
  | CLLEN string
  | CLPOP string "nat option"
  | CBLPOP string "u64 option"
  | CTYPE string
  | CXADD string "u64 option \<times> u64 option" "string list"
  | CXRANGE string "u64 \<times> u64" "u64 \<times> u64"
  | CXREAD "u64 option" "u64 option" "(string \<times> u64 \<times> u64) list"
  | CINCR string
  | CMULTI
  | CEXEC
  | CDISCARD
  | CWATCH "string list"
  | CUNWATCH
  | CINFO string
  | CREPLCONF cmd_arg
  | CPSYNC string int
  | CFULLRESYNC string int
  | CRDB bytes
  | CWAIT u64 "u64 option"
  | CCONFIG cmd_arg
  | CKEYS string
  | CSUBSCRIBE "string list"
  | CUNSUBSCRIBE string
  | CPSUBSCRIBE
  | CPUNSUBSCRIBE
  | CQUIT
  | CPUBLISH string string
  | CZADD string f64 string
  | CZRANK string string
  | CZRANGE string int int
  | CZCARD string
  | CZSCORE string string
  | CZREM string string
  | CGEOADD string string string string
  | CGEOPOS string "string list"
  | CGEODIST string "string list"
  | CGEOSEARCH string cmd_arg cmd_arg
  | CACL cmd_arg
  | CAUTH string string
  | CSETBIT string nat u8
  | CGETBIT string nat
  | CSTRLEN string
  | CBITCOUNT string "bit_range option"
  | CBITOP cmd_arg

fun get_name :: "cmd \<Rightarrow> string" where
  "get_name CPING = ''PING''"
| "get_name CPONG = ''PONG''"
| "get_name COK = ''OK''"
| "get_name (CECHO _) = ''ECHO''"
| "get_name (CSET _ _ _) = ''SET''"
| "get_name (CGET _) = ''GET''"
| "get_name (CRPUSH _ _) = ''RPUSH''"
| "get_name (CLRANGE _ _ _) = ''LRANGE''"
| "get_name (CLPUSH _ _) = ''LPUSH''"
| "get_name (CLLEN _) = ''LLEN''"
| "get_name (CLPOP _ _) = ''LPOP''"
| "get_name (CBLPOP _ _) = ''BLPOP''"
| "get_name (CTYPE _) = ''TYPE''"
| "get_name (CXADD _ _ _) = ''XADD''"
| "get_name (CXRANGE _ _ _) = ''XRANGE''"
| "get_name (CXREAD _ _ _) = ''XREAD''"
| "get_name (CINCR _) = ''INCR''"
| "get_name CMULTI = ''MULTI''"
| "get_name CEXEC = ''EXEC''"
| "get_name CDISCARD = ''DISCARD''"
| "get_name (CWATCH _) = ''WATCH''"
| "get_name CUNWATCH = ''UNWATCH''"
| "get_name (CINFO _) = ''INFO''"
| "get_name (CREPLCONF _) = ''REPLCONF''"
| "get_name (CPSYNC _ _) = ''PSYNC''"
| "get_name (CFULLRESYNC _ _) = ''FULLRESYNC''"
| "get_name (CRDB _) = ''RDB''"
| "get_name (CWAIT _ _) = ''WAIT''"
| "get_name (CCONFIG _) = ''CONFIG''"
| "get_name (CKEYS _) = ''KEYS''"
| "get_name (CSUBSCRIBE _) = ''SUBSCRIBE''"
| "get_name (CUNSUBSCRIBE _) = ''UNSUBSCRIBE''"
| "get_name CPSUBSCRIBE = ''PSUBSCRIBE''"
| "get_name CPUNSUBSCRIBE = ''PUNSUBSCRIBE''"
| "get_name CQUIT = ''QUIT''"
| "get_name (CPUBLISH _ _) = ''PUBLISH''"
| "get_name (CZADD _ _ _) = ''ZADD''"
| "get_name (CZRANK _ _) = ''ZRANK''"
| "get_name (CZRANGE _ _ _) = ''ZRANGE''"
| "get_name (CZCARD _) = ''ZCARD''"
| "get_name (CZSCORE _ _) = ''ZSCORE''"
| "get_name (CZREM _ _) = ''ZREM''"
| "get_name (CGEOADD _ _ _ _) = ''GEOADD''"
| "get_name (CGEOPOS _ _) = ''GEOPOS''"
| "get_name (CGEODIST _ _) = ''GEODIST''"
| "get_name (CGEOSEARCH _ _ _) = ''GEOSEARCH''"
| "get_name (CACL _) = ''Acl''"
| "get_name (CAUTH _ _) = ''Auth''"
| "get_name (CSETBIT _ _ _) = ''SETBIT''"
| "get_name (CGETBIT _ _) = ''GETBIT''"
| "get_name (CSTRLEN _) = ''STRLEN''"
| "get_name (CBITCOUNT _ _) = ''BITCOUNT''"
| "get_name (CBITOP _) = ''BITOP''"

definition to_be_broadcast :: "cmd \<Rightarrow> bool" where
  "to_be_broadcast c =
     (case c of
        CSET _ _ _ \<Rightarrow> True | CLPUSH _ _ \<Rightarrow> True | CRPUSH _ _ \<Rightarrow> True
      | CLPOP _ _ \<Rightarrow> True | CBLPOP _ _ \<Rightarrow> True | CINCR _ \<Rightarrow> True
      | CXADD _ _ _ \<Rightarrow> True | CSETBIT _ _ _ \<Rightarrow> True | CBITOP _ \<Rightarrow> True
      | _ \<Rightarrow> False)"

definition is_auth_cmd :: "cmd \<Rightarrow> bool" where
  "is_auth_cmd c = (case c of CAUTH _ _ \<Rightarrow> True | _ \<Rightarrow> False)"

definition always_response :: "cmd \<Rightarrow> bool" where
  "always_response c = (case c of CREPLCONF (GetAck _) \<Rightarrow> True | _ \<Rightarrow> False)"

definition is_flag_list :: "cmd \<Rightarrow> bool" where
  "is_flag_list c = (case c of CLPUSH _ _ \<Rightarrow> True | CRPUSH _ _ \<Rightarrow> True | _ \<Rightarrow> False)"

definition is_flag_stream :: "cmd \<Rightarrow> bool" where
  "is_flag_stream c = (case c of CXADD _ _ _ \<Rightarrow> True | _ \<Rightarrow> False)"

section \<open>Arguments\<close>

definition acl_rule_set :: "string list \<Rightarrow> acl_rule cres" where
  "acl_rule_set vs =
     (case vs of
        [] \<Rightarrow> Err (MissingArgument ''No rule provided'')
      | s # _ \<Rightarrow>
          if s \<noteq> [] \<and> hd s = CHR ''>'' then Ok (AddPassword (tl s))
          else if s = ''nopass'' then Ok NoPass
          else Err (UnsupportedCmd ''Not supported''))"

text \<open>\<open>values.pop_front().ok_or(e)?\<close> on the strings handed to \<open>CmdArg::set\<close>.\<close>

definition pop_or :: "custom_error \<Rightarrow> 'a list \<Rightarrow> ('a \<times> 'a list) cres" where
  "pop_or e vs = (case vs of [] \<Rightarrow> Err e | v # r \<Rightarrow> Ok (v, r))"

definition cmd_arg_set :: "string \<Rightarrow> string list \<Rightarrow> cmd_arg cres" where
  "cmd_arg_set key vs =
     (if key = ''EX''
      then rbind (pop_or Dummy vs) (\<lambda>(v, _). rbind (of_parse_int (parse_u64 v)) (\<lambda>x. Ok (ArgEX (Some x))))
      else if key = ''PX''
      then rbind (pop_or Dummy vs) (\<lambda>(v, _). rbind (of_parse_int (parse_u64 v)) (\<lambda>x. Ok (ArgPX (Some x))))
      else if key = ''listening-port''
      then rbind (pop_or Dummy vs) (\<lambda>(v, _). rbind (of_parse_int (parse_u16 v)) (\<lambda>x. Ok (ListeningPort x)))
      else if key = ''capa'' then rbind (pop_or Dummy vs) (\<lambda>(v, _). Ok (Capa v))
      else if key = ''GETACK'' then rbind (pop_or Dummy vs) (\<lambda>(v, _). Ok (GetAck v))
      else if key = ''ACK''
      then rbind (pop_or Dummy vs) (\<lambda>(v, _). rbind (of_parse_int (parse_i64 v)) (\<lambda>x. Ok (ArgAck x)))
      else if key = ''GET'' then rbind (pop_or Dummy vs) (\<lambda>(v, _). Ok (ArgGet v))
      else if key = ''WHOAMI'' then Ok WhoAmI
      else if key = ''GETUSER'' then rbind (pop_or Dummy vs) (\<lambda>(v, _). Ok (GetUser v))
      else if key = ''SETUSER''
      then rbind (pop_or (MissingArgument ''No username provided'') vs)
             (\<lambda>(u, r). rbind (acl_rule_set r) (\<lambda>rule. Ok (SetUser u [rule])))
      else if key = ''AND'' \<or> key = ''OR''
      then rbind (pop_or (MissingArgument ''dest not provided'') vs)
             (\<lambda>(d, r). rbind (pop_or (MissingArgument ''key1 not provided'') r)
               (\<lambda>(k1, r). rbind (pop_or (MissingArgument ''key2 not provided'') r)
                 (\<lambda>(k2, _). Ok (if key = ''AND'' then ArgAND d k1 k2 else ArgOR d k1 k2))))
      else Err (InvalidArgument (''Invalid arg for '' @ key)))"

definition str_of :: "string \<Rightarrow> resp_type \<Rightarrow> string cres" where
  "str_of msg r = ok_or (get_str r) (MissingArgument msg)"

definition arg_str :: "string \<Rightarrow> resp_type list \<Rightarrow> (string \<times> resp_type list) cres" where
  "arg_str msg vs =
     rbind (pop_or (MissingArgument msg) vs) (\<lambda>(r, vs). rbind (str_of msg r) (\<lambda>s. Ok (s, vs)))"

definition arg_i64 :: "string \<Rightarrow> resp_type list \<Rightarrow> (int \<times> resp_type list) cres" where
  "arg_i64 msg vs =
     rbind (arg_str msg vs) (\<lambda>(s, vs). rbind (of_parse_int (parse_i64 s)) (\<lambda>x. Ok (x, vs)))"

definition arg_u64 :: "string \<Rightarrow> resp_type list \<Rightarrow> (u64 \<times> resp_type list) cres" where
  "arg_u64 msg vs =
     rbind (arg_str msg vs) (\<lambda>(s, vs). rbind (of_parse_int (parse_u64 s)) (\<lambda>x. Ok (x, vs)))"

definition arg_usize :: "string \<Rightarrow> resp_type list \<Rightarrow> (nat \<times> resp_type list) cres" where
  "arg_usize msg vs =
     rbind (arg_str msg vs) (\<lambda>(s, vs). rbind (of_parse_int (parse_usize s)) (\<lambda>x. Ok (x, vs)))"

definition arg_f64 :: "string \<Rightarrow> resp_type list \<Rightarrow> (f64 \<times> resp_type list) cres" where
  "arg_f64 msg vs =
     rbind (arg_str msg vs) (\<lambda>(s, vs). rbind (of_parse_float (parse_f64 s)) (\<lambda>x. Ok (x, vs)))"

section \<open>Builders\<close>

definition b_echo :: "resp_type list \<Rightarrow> cmd cres" where
  "b_echo vs = rbind (arg_str ''No argument provided for ECHO'' vs) (\<lambda>(s, _). Ok (CECHO s))"

definition b_set :: "resp_type list \<Rightarrow> cmd cres" where
  "b_set vs =
     rbind (arg_str ''No key provided for SET'' vs) (\<lambda>(key, vs).
     rbind (arg_str ''No value provided for SET'' vs) (\<lambda>(v, vs).
       (case vs of
          [] \<Rightarrow> Ok (CSET key v None)
        | r # vs \<Rightarrow>
            rbind (str_of ''No arg provided for expiration'' r) (\<lambda>k.
            rbind (arg_str ''No value provided for expiration'' vs) (\<lambda>(x, _).
            rbind (cmd_arg_set k [x]) (\<lambda>opt. Ok (CSET key v (Some opt))))))))"

definition b_get :: "resp_type list \<Rightarrow> cmd cres" where
  "b_get vs = rbind (arg_str ''No key provided for GET'' vs) (\<lambda>(key, _). Ok (CGET key))"

definition b_rpush :: "resp_type list \<Rightarrow> cmd cres" where
  "b_rpush vs =
     rbind (arg_str ''No key provided for RPUSH'' vs) (\<lambda>(key, vs).
     rbind (try_map (str_of ''No value provided for RPUSH'') vs) (\<lambda>xs. Ok (CRPUSH key xs)))"

definition b_lrange :: "resp_type list \<Rightarrow> cmd cres" where
  "b_lrange vs =
     rbind (arg_str ''No key provided for LRANGE'' vs) (\<lambda>(key, vs).
     rbind (arg_i64 ''No start index provided for LRANGE'' vs) (\<lambda>(start, vs).
     rbind (arg_i64 ''No end index provided for LRANGE'' vs) (\<lambda>(stop, _). Ok (CLRANGE key start stop))))"

definition b_lpush :: "resp_type list \<Rightarrow> cmd cres" where
  "b_lpush vs =
     rbind (arg_str ''No key provided for LPUSH'' vs) (\<lambda>(key, vs).
     rbind (try_map (str_of ''No value provided for LPUSH'') vs) (\<lambda>xs. Ok (CLPUSH key xs)))"

definition b_llen :: "resp_type list \<Rightarrow> cmd cres" where
  "b_llen vs = rbind (arg_str ''No key provided for LLEN'' vs) (\<lambda>(key, _). Ok (CLLEN key))"

definition b_lpop :: "resp_type list \<Rightarrow> cmd cres" where
  "b_lpop vs =
     rbind (arg_str ''No key provided for LPOP'' vs) (\<lambda>(key, vs).
       (case vs of
          [] \<Rightarrow> Ok (CLPOP key None)
        | r # _ \<Rightarrow>
            rbind (str_of ''No length provided for LPOP'' r) (\<lambda>s.
            rbind (of_parse_int (parse_usize s)) (\<lambda>n. Ok (CLPOP key (Some n))))))"

definition b_blpop :: "resp_type list \<Rightarrow> cmd cres" where
  "b_blpop vs =
     rbind (arg_str ''No key provided for BLPOP'' vs) (\<lambda>(key, vs).
     rbind (arg_f64 ''No timeout provided for BLPOP'' vs) (\<lambda>(t, _).
       let timeout_ms = f_mul t (f_of_nat 1000) in
       if f_lt timeout_ms 0 then Err (InvalidArgument ''Error while parsing expiration for BLPOP'')
       else if f_eq timeout_ms 0 then Ok (CBLPOP key None)
       else Ok (CBLPOP key (Some (f_to_u64 timeout_ms)))))"

definition b_ktype :: "resp_type list \<Rightarrow> cmd cres" where
  "b_ktype vs = rbind (arg_str ''No key provided for TYPE'' vs) (\<lambda>(key, _). Ok (CTYPE key))"

definition parse_stream_id_xadd :: "string \<Rightarrow> (u64 option \<times> u64 option) cres" where
  "parse_stream_id_xadd v =
     (if v = ''*'' then Ok (None, None)
      else (case split_on (CHR ''-'') v of
          [t, i] \<Rightarrow>
            rbind (of_parse_int (parse_u64 t)) (\<lambda>ts.
              if i = ''*'' then Ok (Some ts, None)
              else rbind (of_parse_int (parse_u64 i)) (\<lambda>idx. Ok (Some ts, Some idx)))
        | _ \<Rightarrow> Err (InvalidArgument ''Error while parsing stream id for XADD'')))"

definition b_xadd :: "resp_type list \<Rightarrow> cmd cres" where
  "b_xadd vs =
     rbind (arg_str ''No key provided for XADD'' vs) (\<lambda>(key, vs).
     rbind (arg_str ''No time id provided for XADD'' vs) (\<lambda>(t, vs).
     rbind (parse_stream_id_xadd t) (\<lambda>i.
     rbind (try_map (str_of ''Invalide key-value pair providec'') vs) (\<lambda>xs. Ok (CXADD key i xs)))))"

definition parse_stream_id :: "string \<Rightarrow> bool \<Rightarrow> stream_id cres" where
  "parse_stream_id v end_id =
     (case split_on (CHR ''-'') v of
        [t, i] \<Rightarrow>
          rbind (of_parse_int (parse_u64 t)) (\<lambda>ts.
          rbind (of_parse_int (parse_u64 i)) (\<lambda>idx. Ok (ts, idx)))
      | [t] \<Rightarrow> rbind (of_parse_int (parse_u64 t)) (\<lambda>ts. Ok (ts, if end_id then - 1 else 0))
      | _ \<Rightarrow> Err (InvalidArgument ''Error while parsing stream id''))"

definition parse_stream_id_xrange :: "string \<Rightarrow> bool \<Rightarrow> stream_id cres" where
  "parse_stream_id_xrange v end_id =
     (if v = ''-'' then Ok (0, 0) else if v = ''+'' then Ok (- 1, - 1) else parse_stream_id v end_id)"

definition parse_stream_id_xread :: "string \<Rightarrow> stream_id cres" where
  "parse_stream_id_xread v = (if v = ''$'' then Ok (- 1, - 1) else parse_stream_id v False)"

definition b_xrange :: "resp_type list \<Rightarrow> cmd cres" where
  "b_xrange vs =
     rbind (arg_str ''No key provided for XRANGE'' vs) (\<lambda>(key, vs).
     rbind (arg_str ''No start id provided for XRANGE'' vs) (\<lambda>(s, vs).
     rbind (arg_str ''No start id provided for XRANGE'' vs) (\<lambda>(e, _).
     rbind (parse_stream_id_xrange s False) (\<lambda>start.
     rbind (parse_stream_id_xrange e True) (\<lambda>end_id. Ok (CXRANGE key start end_id))))))"

text \<open>The options in front of \<open>STREAMS\<close>; what is left are the keys and the ids.\<close>

fun xread_options ::
  "resp_type list \<Rightarrow> u64 option \<Rightarrow> u64 option \<Rightarrow> (u64 option \<times> u64 option \<times> resp_type list) cres" where
  "xread_options [] count block = Err (MissingArgument ''No argument provided for XREAD'')"
| "xread_options (r # vs) count block =
     rbind (str_of ''No argument provided for XREAD'' r) (\<lambda>s.
       let first = to_ascii_upper s in
       if first = ''COUNT'' then
         if count \<noteq> None then Err (UnsupportedCmdStructure ''Cannot have more than two COUNT'')
         else (case vs of
             [] \<Rightarrow> Err (MissingArgument ''No argument provided'')
           | w # ws \<Rightarrow> rbind (str_of ''No argument provided'' w) (\<lambda>t.
               rbind (of_parse_int (parse_u64 t)) (\<lambda>n. xread_options ws (Some n) block)))
       else if first = ''BLOCK'' then
         if block \<noteq> None then Err (UnsupportedCmdStructure ''Cannot have more than two BLOCK'')
         else (case vs of
             [] \<Rightarrow> Err (MissingArgument ''No argument provided'')
           | w # ws \<Rightarrow> rbind (str_of ''No argument provided'' w) (\<lambda>t.
               rbind (of_parse_int (parse_u64 t)) (\<lambda>n. xread_options ws count (Some n))))
       else if first \<noteq> ''STREAMS'' then Err (UnsupportedCmdStructure ''Wrong argument'')
       else Ok (count, block, vs))"

definition b_xread :: "resp_type list \<Rightarrow> cmd cres" where
  "b_xread vs =
     rbind (xread_options vs None None) (\<lambda>(count, block, vs).
       if odd (length vs) then Err (UnsupportedCmdStructure ''Not sufficient key-pair values'')
       else let n = length vs div 2 in
         rbind (try_map (str_of ''Key not provided'') (take n vs)) (\<lambda>keys.
         rbind (try_map (\<lambda>r. rbind (str_of ''Value not provided'' r) parse_stream_id_xread) (drop n vs))
           (\<lambda>ids. Ok (CXREAD count block (zip keys ids)))))"

definition b_incr :: "resp_type list \<Rightarrow> cmd cres" where
  "b_incr vs = rbind (arg_str ''No key provided for INCR'' vs) (\<lambda>(key, _). Ok (CINCR key))"

definition b_watch :: "resp_type list \<Rightarrow> cmd cres" where
  "b_watch vs =
     (let keys = take_until_err (str_of ''Invalid key for WATCH'') vs in
      if keys = [] then Err (MissingArgument ''No key provided for WATCH'') else Ok (CWATCH keys))"

definition b_info :: "resp_type list \<Rightarrow> cmd cres" where
  "b_info vs = rbind (arg_str ''No key provided for INFO'' vs) (\<lambda>(key, _). Ok (CINFO key))"

definition b_replconf :: "resp_type list \<Rightarrow> cmd cres" where
  "b_replconf vs =
     rbind (arg_str ''No key provided for REPLCONF'' vs) (\<lambda>(arg, vs).
     rbind (arg_str ''No value provided for REPLCONF'' vs) (\<lambda>(v, _).
     rbind (cmd_arg_set arg [v]) (\<lambda>opt. Ok (CREPLCONF opt))))"

definition b_psync :: "resp_type list \<Rightarrow> cmd cres" where
  "b_psync vs =
     rbind (arg_str ''No id provided for PSYNC'' vs) (\<lambda>(i, vs).
     rbind (arg_i64 ''No offset provided for PSYNC'' vs) (\<lambda>(offset, _). Ok (CPSYNC i offset)))"

definition b_fullresync :: "string \<Rightarrow> cmd cres" where
  "b_fullresync s =
     (case tl (split_on (CHR '' '') s) of
        [] \<Rightarrow> Err (MissingArgument ''No id provided for FULLRESYNC'')
      | i # r \<Rightarrow>
          (case r of
             [] \<Rightarrow> Err (MissingArgument ''No offset provided for FULLRESYNC'')
           | x # _ \<Rightarrow> rbind (of_parse_int (parse_i64 x)) (\<lambda>offset. Ok (CFULLRESYNC i offset))))"

definition b_rdb :: "bytes option \<Rightarrow> cmd cres" where
  "b_rdb v = (case v of Some b \<Rightarrow> Ok (CRDB b) | None \<Rightarrow> Err (UnprocessableError ''RBD stream is empty''))"

definition b_wait :: "resp_type list \<Rightarrow> cmd cres" where
  "b_wait vs =
     rbind (arg_u64 ''No count provided for WAIT'' vs) (\<lambda>(count, vs).
     rbind (arg_u64 ''No timeout provided for WAIT'' vs) (\<lambda>(t, _).
       Ok (CWAIT count (if t \<le> 0 then None else Some t))))"

definition b_config :: "resp_type list \<Rightarrow> cmd cres" where
  "b_config vs =
     rbind (arg_str ''No arg provided for CONFIG'' vs) (\<lambda>(arg, vs).
     rbind (arg_str ''No value provided for CONFIG'' vs) (\<lambda>(v, _).
     rbind (cmd_arg_set arg [v]) (\<lambda>opt. Ok (CCONFIG opt))))"

definition b_keys :: "resp_type list \<Rightarrow> cmd cres" where
  "b_keys vs = rbind (arg_str ''No arg provided for KEYS'' vs) (\<lambda>(arg, _). Ok (CKEYS arg))"

definition b_subscribe :: "resp_type list \<Rightarrow> cmd cres" where
  "b_subscribe vs = Ok (CSUBSCRIBE (take_until_err (str_of ''No arg provided for KEYS'') vs))"

definition b_unsubscribe :: "resp_type list \<Rightarrow> cmd cres" where
  "b_unsubscribe vs = rbind (arg_str ''No arg provided for UNSUBSCRIBE'' vs) (\<lambda>(key, _). Ok (CUNSUBSCRIBE key))"

definition b_publish :: "resp_type list \<Rightarrow> cmd cres" where
  "b_publish vs =
     rbind (arg_str ''No channel name provided for PUBLISH'' vs) (\<lambda>(key, vs).
     rbind (arg_str ''No message provided for PUBLISH'' vs) (\<lambda>(m, _). Ok (CPUBLISH key m)))"

definition b_zadd :: "resp_type list \<Rightarrow> cmd cres" where
  "b_zadd vs =
     rbind (arg_str ''No key provided for ZADD'' vs) (\<lambda>(key, vs).
     rbind (arg_f64 ''No score provided for ZADD'' vs) (\<lambda>(score, vs).
     rbind (arg_str ''No member provided for ZADD'' vs) (\<lambda>(m, _). Ok (CZADD key score m))))"

definition b_zrank :: "resp_type list \<Rightarrow> cmd cres" where
  "b_zrank vs =
     rbind (arg_str ''No key provided for ZRANK'' vs) (\<lambda>(key, vs).
     rbind (arg_str ''No member provided for ZRANK'' vs) (\<lambda>(m, _). Ok (CZRANK key m)))"

definition b_zrange :: "resp_type list \<Rightarrow> cmd cres" where
  "b_zrange vs =
     rbind (arg_str ''No key provided for ZRANGE'' vs) (\<lambda>(key, vs).
     rbind (arg_i64 ''No start index provided for ZRANGE'' vs) (\<lambda>(start, vs).
     rbind (arg_i64 ''No end index provided for ZRANGE'' vs) (\<lambda>(stop, _). Ok (CZRANGE key start stop))))"

definition b_zcard :: "resp_type list \<Rightarrow> cmd cres" where
  "b_zcard vs = rbind (arg_str ''No key provided for ZCARD'' vs) (\<lambda>(key, _). Ok (CZCARD key))"

definition b_zscore :: "resp_type list \<Rightarrow> cmd cres" where
  "b_zscore vs =
     rbind (arg_str ''No key provided for ZSCORE'' vs) (\<lambda>(key, vs).
     rbind (arg_str ''No member provided for ZSCORE'' vs) (\<lambda>(m, _). Ok (CZSCORE key m)))"

definition b_zrem :: "resp_type list \<Rightarrow> cmd cres" where
  "b_zrem vs =
     rbind (arg_str ''No key provided for ZREM'' vs) (\<lambda>(key, vs).
     rbind (arg_str ''No member provided for ZREM'' vs) (\<lambda>(m, _). Ok (CZREM key m)))"

definition b_geoadd :: "resp_type list \<Rightarrow> cmd cres" where
  "b_geoadd vs =
     rbind (arg_str ''No key provided for GEOADD'' vs) (\<lambda>(key, vs).
     rbind (arg_f64 ''No longitude provided for GEOADD'' vs) (\<lambda>(long, vs).
     rbind (arg_f64 ''No latitude provided for GEOADD'' vs) (\<lambda>(lat, vs).
     rbind (arg_str ''No member provided for GEOADD'' vs) (\<lambda>(m, _).
       Ok (CGEOADD key (show_f64 long) (show_f64 lat) m)))))"

definition b_geopos :: "resp_type list \<Rightarrow> cmd cres" where
  "b_geopos vs =
     rbind (arg_str ''No key provided for GEOPOS'' vs) (\<lambda>(key, vs).
       Ok (CGEOPOS key (take_until_err (str_of ''No member provided'') vs)))"

text \<open>\<open>values.drain(..2)\<close> panics on fewer than two members.\<close>

definition b_geodist :: "resp_type list \<Rightarrow> cmd cres" where
  "b_geodist vs =
     rbind (arg_str ''No key provided for GEODIST'' vs) (\<lambda>(key, vs).
       if length vs < 2 then Panic
       else Ok (CGEODIST key
         (take_until_err (str_of ''Need 2 locations for distance calculation'') (take 2 vs))))"

definition b_geosearch :: "resp_type list \<Rightarrow> cmd cres" where
  "b_geosearch vs =
     rbind (arg_str ''No key provided for GEOSEARCH'' vs) (\<lambda>(key, vs).
     rbind (arg_str ''No FROM arg provided'' vs) (\<lambda>(_, vs).
     rbind (arg_f64 ''No long/lat provided'' vs) (\<lambda>(long, vs).
     rbind (arg_f64 ''No long/lat provided'' vs) (\<lambda>(lat, vs).
     rbind (arg_str ''No BY arg provided'' vs) (\<lambda>(_, vs).
     rbind (arg_f64 ''No radius provided'' vs) (\<lambda>(r, vs).
     rbind (arg_str ''No radius provided'' vs) (\<lambda>(_, _).
       Ok (CGEOSEARCH key (FromLonLat long lat) (ByRadius r)))))))))"

definition b_acl :: "resp_type list \<Rightarrow> cmd cres" where
  "b_acl vs =
     rbind (arg_str ''No arg provided for ACL'' vs) (\<lambda>(kw, vs).
     rbind (try_map (str_of ''No arg value provided for ACL'') vs) (\<lambda>xs.
     rbind (cmd_arg_set kw xs) (\<lambda>opt. Ok (CACL opt))))"

definition b_auth :: "resp_type list \<Rightarrow> cmd cres" where
  "b_auth vs =
     rbind (arg_str ''Username not provided'' vs) (\<lambda>(u, vs).
     rbind (arg_str ''Password not provided'' vs) (\<lambda>(p, _). Ok (CAUTH u p)))"

definition b_setbit :: "resp_type list \<Rightarrow> cmd cres" where
  "b_setbit vs =
     rbind (arg_str ''Bit key not provided'' vs) (\<lambda>(key, vs).
     rbind (arg_usize ''Bit offset not provided'' vs) (\<lambda>(offset, vs).
     rbind (arg_str ''Bit value not provided'' vs) (\<lambda>(s, _).
     rbind (of_parse_int (parse_u8 s)) (\<lambda>b. Ok (CSETBIT key offset b)))))"

definition b_getbit :: "resp_type list \<Rightarrow> cmd cres" where
  "b_getbit vs =
     rbind (arg_str ''Bit key not provided'' vs) (\<lambda>(key, vs).
     rbind (arg_usize ''Bit offset not provided'' vs) (\<lambda>(offset, _). Ok (CGETBIT key offset)))"

definition b_strlen :: "resp_type list \<Rightarrow> cmd cres" where
  "b_strlen vs = rbind (arg_str ''Bit key not provided'' vs) (\<lambda>(key, _). Ok (CSTRLEN key))"

definition syntax_error :: custom_error where
  "syntax_error = InvalidArgument ''ERR syntax error''"

definition unit_of :: "resp_type \<Rightarrow> bit_unit cres" where
  "unit_of r =
     rbind (ok_or (get_str r) syntax_error) (\<lambda>s.
       if to_ascii_upper s = ''BYTE'' then Ok UByte
       else if to_ascii_upper s = ''BIT'' then Ok UBit
       else Err syntax_error)"

definition b_bitcount :: "resp_type list \<Rightarrow> cmd cres" where
  "b_bitcount vs =
     rbind (arg_str ''Bit key not provided'' vs) (\<lambda>(key, vs).
       if vs = [] then Ok (CBITCOUNT key None)
       else
         rbind (arg_i64 ''Start index not provided'' vs) (\<lambda>(s, vs).
         rbind (arg_i64 ''End index not provided'' vs) (\<lambda>(e, vs).
         rbind (case vs of [] \<Rightarrow> Ok (UByte, []) | r # vs \<Rightarrow> rbind (unit_of r) (\<lambda>u. Ok (u, vs)))
           (\<lambda>(u, vs).
             if vs \<noteq> [] then Err syntax_error
             else Ok (CBITCOUNT key (Some \<lparr>br_start = s, br_end = e, br_unit = u\<rparr>))))))"

definition b_bitop :: "resp_type list \<Rightarrow> cmd cres" where
  "b_bitop vs =
     rbind (arg_str ''BITOP operation not provided'' vs) (\<lambda>(oper, vs).
     rbind (arg_str ''BITOP dest not provided'' vs) (\<lambda>(d, vs).
     rbind (arg_str ''BITOP key1 not provided'' vs) (\<lambda>(k1, vs).
     rbind (arg_str ''BITOP key2 not provided'' vs) (\<lambda>(k2, _).
     rbind (cmd_arg_set (to_ascii_upper oper) [d, k1, k2]) (\<lambda>arg. Ok (CBITOP arg))))))"

section \<open>from_resp\<close>

definition builders :: "(string \<times> (resp_type list \<Rightarrow> cmd cres)) list" where
  "builders =
    [(''PING'', \<lambda>_. Ok CPING), (''ECHO'', b_echo), (''SET'', b_set), (''GET'', b_get),
     (''RPUSH'', b_rpush), (''LRANGE'', b_lrange), (''LPUSH'', b_lpush), (''LLEN'', b_llen),
     (''LPOP'', b_lpop), (''BLPOP'', b_blpop), (''TYPE'', b_ktype), (''XADD'', b_xadd),
     (''XRANGE'', b_xrange), (''XREAD'', b_xread), (''INCR'', b_incr), (''MULTI'', \<lambda>_. Ok CMULTI),
     (''EXEC'', \<lambda>_. Ok CEXEC), (''DISCARD'', \<lambda>_. Ok CDISCARD), (''WATCH'', b_watch),
     (''UNWATCH'', \<lambda>_. Ok CUNWATCH), (''INFO'', b_info), (''REPLCONF'', b_replconf),
     (''PSYNC'', b_psync), (''WAIT'', b_wait), (''CONFIG'', b_config), (''KEYS'', b_keys),
     (''SUBSCRIBE'', b_subscribe), (''UNSUBSCRIBE'', b_unsubscribe),
     (''PSUBSCRIBE'', \<lambda>_. Ok CPSUBSCRIBE), (''PUNSUBSCRIBE'', \<lambda>_. Ok CPUNSUBSCRIBE),
     (''QUIT'', \<lambda>_. Ok CQUIT), (''PUBLISH'', b_publish), (''ZADD'', b_zadd), (''ZRANK'', b_zrank),
     (''ZRANGE'', b_zrange), (''ZCARD'', b_zcard), (''ZSCORE'', b_zscore), (''ZREM'', b_zrem),
     (''GEOADD'', b_geoadd), (''GEOPOS'', b_geopos), (''GEODIST'', b_geodist),
     (''GEOSEARCH'', b_geosearch), (''ACL'', b_acl), (''AUTH'', b_auth), (''SETBIT'', b_setbit),
     (''GETBIT'', b_getbit), (''STRLEN'', b_strlen), (''BITCOUNT'', b_bitcount), (''BITOP'', b_bitop)]"

definition build :: "string \<Rightarrow> resp_type list \<Rightarrow> cmd cres" where
  "build s vs =
     (case map_of builders (to_ascii_upper s) of
        Some b \<Rightarrow> b vs
      | None \<Rightarrow> Err (InvalidArgument ''Invalid command''))"

text \<open>
  \<open>p[..10]\<close> panics when the string is shorter or byte 10 is inside a character.
\<close>

definition str_prefix :: "nat \<Rightarrow> string \<Rightarrow> string option" where
  "str_prefix n s =
     (if length s < n \<or> (n < length s \<and> cont (s ! n)) then None else Some (take n s))"

definition from_simple :: "string \<Rightarrow> cmd cres" where
  "from_simple s =
     (if s = ''PONG'' then Ok CPONG
      else if s = ''OK'' then Ok COK
      else rbind (unwrap (str_prefix 10 s)) (\<lambda>p.
        if p = ''FULLRESYNC'' then b_fullresync s
        else Err (InvalidArgument ''Invalid command'')))"

definition from_resp :: "resp_type \<Rightarrow> cmd cres" where
  "from_resp r =
     (case r of
        Array len v \<Rightarrow>
          if len = 0 then Err (NoCmdError ''No command'')
          else (case v of
              None \<Rightarrow> Err (NoCmdError ''No command provided'')
            | Some xs \<Rightarrow>
                (case xs of
                   [] \<Rightarrow> Err (NoCmdError ''No command provided'')
                 | x # vs \<Rightarrow>
                     (case x of
                        BulkStr n s \<Rightarrow>
                          if n = 0 then Err (NoCmdError ''No command'')
                          else rbind (unwrap s) (\<lambda>s. build s vs)
                      | _ \<Rightarrow> Err (InvalidArgument ''Invalid command''))))
      | SimpleStr s \<Rightarrow> rbind (unwrap s) from_simple
      | RDB b \<Rightarrow> b_rdb b
      | _ \<Rightarrow> Err (UnsupportedCmdStructure ''Unsupported structure''))"

end
