(* ===== verification/Registry.thy ===== *)
theory Registry
  imports CmdBuilder
begin

text \<open>
  \<open>RequestRegistry\<close> of \<open>src/src/commands/cmd_handler.rs\<close>: blocked requests with their
  deadlines, open transactions, watched keys and pending acknowledgements.

  A \<open>RequestEntry\<close> holds boxed closures. Here they are data: an entry carries what its
  closures capture (client, timestamp, stream arguments, epoll descriptor), and the handler
  theory runs them. The counter a \<open>Wait\<close> entry shares with its closure is part of the entry.
  \<open>rg_timer\<close> is the state of the timer descriptor: the milliseconds it was last armed with.
  A reading of the clock is an argument.
\<close>

text \<open>
  The \<open>Option<i32>\<close> epoll descriptor a command runs with: none inside a transaction,
  \<open>Some True\<close> the server's own, \<open>Some False\<close> the invalid one of the replay at start-up.
\<close>

type_synonym epoll_ref = "bool option"

datatype request_entry =
    ListReq (lr_key: string) (re_deadline: u64) (re_client: u64) (re_ts: u64)
  | StreamReq (sr_keys: "(string \<times> u64 \<times> u64) list") (re_deadline: u64) (re_client: u64)
      (re_ts: u64) (sr_count: "u64 option")
  | WaitReq (re_client: u64) (wr_required: u64) (wr_actual: u64) (re_deadline: u64)
      (wr_offset: int) (wr_slaves: "u64 list") (re_ts: u64) (wr_epoll: epoll_ref)

fun set_deadline :: "u64 \<Rightarrow> request_entry \<Rightarrow> request_entry" where
  "set_deadline d (ListReq k _ c t) = ListReq k d c t"
| "set_deadline d (StreamReq ks _ c t n) = StreamReq ks d c t n"
| "set_deadline d (WaitReq c n a _ off sl t ep) = WaitReq c n a d off sl t ep"

record registry =
  rg_store :: "(u64, request_entry) hashmap"
  rg_list :: "(string, u64 list) hashmap"
  rg_stream :: "u64 hashset"
  rg_txn :: "(u64, (cmd \<times> bytes) list) hashmap"
  rg_watch :: "(string, (u64, bool) hashmap) hashmap"
  rg_wait :: "(u64, u64) hashmap"
  rg_ack :: "(u64, u64 list) hashmap"
  rg_deadline :: "(u64, u64) btreemap"
  rg_timer :: "int option"

definition registry_new :: registry where
  "registry_new = \<lparr>rg_store = [], rg_list = [], rg_stream = [], rg_txn = [], rg_watch = [],
     rg_wait = [], rg_ack = [], rg_deadline = [], rg_timer = None\<rparr>"

section \<open>Timer and deadlines\<close>

text \<open>\<open>timerfd_settime\<close> refuses a negative time and leaves the timer as it is.\<close>

definition timer_create_event :: "int \<Rightarrow> registry \<Rightarrow> registry" where
  "timer_create_event ms r = (if ms < 0 then r else r\<lparr>rg_timer := (if ms = 0 then None else Some ms)\<rparr>)"

definition set_timer_fd :: "u64 \<Rightarrow> registry \<Rightarrow> registry" where
  "set_timer_fd now r =
     (case bt_first (rg_deadline r) of
        None \<Rightarrow> r
      | Some (d, _) \<Rightarrow> timer_create_event (if now < d then sint (d - now) else 1) r)"

text \<open>
  The loop that looks for a deadline nobody has yet. It ends after at most as many turns as
  there are deadlines.
\<close>

fun free_deadline :: "nat \<Rightarrow> u64 \<Rightarrow> (u64, u64) btreemap \<Rightarrow> u64" where
  "free_deadline 0 d m = d"
| "free_deadline (Suc n) d m = (if bt_contains m d then free_deadline n (d + 1) m else d)"

section \<open>Insert and remove\<close>

definition push_ack :: "u64 \<Rightarrow> u64 \<Rightarrow> (u64, u64 list) hashmap \<Rightarrow> (u64, u64 list) hashmap" where
  "push_ack client slave m =
     hm_insert slave ((case hm_get m slave of Some v \<Rightarrow> v | None \<Rightarrow> []) @ [client]) m"

definition reg_arm :: "u64 \<Rightarrow> u64 \<Rightarrow> u64 \<Rightarrow> request_entry \<Rightarrow> registry \<Rightarrow> registry \<times> request_entry" where
  "reg_arm now ts deadline e r =
     (if 0 < deadline
      then let d = free_deadline (length (rg_deadline r)) deadline (rg_deadline r) in
        (set_timer_fd now (r\<lparr>rg_deadline := bt_insert d ts (rg_deadline r)\<rparr>), set_deadline d e)
      else (r, e))"

definition reg_enqueue :: "u64 \<Rightarrow> request_entry \<Rightarrow> registry \<Rightarrow> registry" where
  "reg_enqueue ts e r =
     (case e of
        ListReq k _ _ _ \<Rightarrow>
          r\<lparr>rg_list := hm_insert k ((case hm_get (rg_list r) k of Some q \<Rightarrow> q | None \<Rightarrow> []) @ [ts]) (rg_list r)\<rparr>
      | StreamReq _ _ _ _ _ \<Rightarrow> r\<lparr>rg_stream := hs_insert ts (rg_stream r)\<rparr>
      | WaitReq c _ _ _ _ slaves _ _ \<Rightarrow>
          r\<lparr>rg_wait := hm_insert c ts (rg_wait r), rg_ack := fold (push_ack c) slaves (rg_ack r)\<rparr>)"

definition reg_insert :: "u64 \<Rightarrow> u64 \<Rightarrow> u64 \<Rightarrow> request_entry \<Rightarrow> registry \<Rightarrow> registry" where
  "reg_insert now ts deadline e r =
     (case reg_arm now ts deadline e r of
        (r1, e1) \<Rightarrow> (let r2 = reg_enqueue ts e1 r1 in r2\<lparr>rg_store := hm_insert ts e1 (rg_store r2)\<rparr>))"

definition drop_ack :: "u64 \<Rightarrow> u64 \<Rightarrow> (u64, u64 list) hashmap \<Rightarrow> (u64, u64 list) hashmap" where
  "drop_ack client slave m =
     (case hm_get m slave of
        None \<Rightarrow> m
      | Some v \<Rightarrow>
          (let v' = filter (\<lambda>x. x \<noteq> client) v in
           if v' = [] then hm_remove slave m else hm_insert slave v' m))"

definition reg_dequeue :: "u64 \<Rightarrow> request_entry \<Rightarrow> registry \<Rightarrow> registry" where
  "reg_dequeue ts e r =
     (case e of
        ListReq k _ _ _ \<Rightarrow>
          (case hm_get (rg_list r) k of
             None \<Rightarrow> r
           | Some q \<Rightarrow>
               (let q' = filter (\<lambda>t. t \<noteq> ts) q in
                r\<lparr>rg_list := (if q' = [] then hm_remove k (rg_list r) else hm_insert k q' (rg_list r))\<rparr>))
      | StreamReq _ _ _ _ _ \<Rightarrow> r\<lparr>rg_stream := hs_remove ts (rg_stream r)\<rparr>
      | WaitReq c _ _ _ _ slaves _ _ \<Rightarrow>
          r\<lparr>rg_wait := hm_remove c (rg_wait r), rg_ack := fold (drop_ack c) slaves (rg_ack r)\<rparr>)"

definition reg_remove :: "u64 \<Rightarrow> u64 \<Rightarrow> registry \<Rightarrow> request_entry option \<times> registry" where
  "reg_remove now ts r =
     (case hm_get (rg_store r) ts of
        None \<Rightarrow> (None, r)
      | Some e \<Rightarrow>
          (let r1 = reg_dequeue ts e (r\<lparr>rg_store := hm_remove ts (rg_store r)\<rparr>);
               r2 = r1\<lparr>rg_deadline := bt_remove (re_deadline e) (rg_deadline r1)\<rparr>
           in (Some e, set_timer_fd now r2)))"

text \<open>An absent key answers \<open>false\<close>, as in the source.\<close>

definition is_backlog_list_empty :: "string \<Rightarrow> registry \<Rightarrow> bool" where
  "is_backlog_list_empty k r = (case hm_get (rg_list r) k of Some q \<Rightarrow> q = [] | None \<Rightarrow> False)"

definition get_nearest_deadline :: "registry \<Rightarrow> (u64 \<times> u64) option" where
  "get_nearest_deadline r = bt_first (rg_deadline r)"

section \<open>Transactions and watched keys\<close>

definition is_transaction :: "u64 \<Rightarrow> registry \<Rightarrow> bool" where
  "is_transaction client r = hm_contains (rg_txn r) client"

definition add_to_txn :: "u64 \<Rightarrow> cmd \<Rightarrow> bytes \<Rightarrow> registry \<Rightarrow> registry" where
  "add_to_txn client c b r =
     r\<lparr>rg_txn := hm_insert client
         ((case hm_get (rg_txn r) client of Some q \<Rightarrow> q | None \<Rightarrow> []) @ [(c, b)]) (rg_txn r)\<rparr>"

definition watch_key :: "u64 \<Rightarrow> string \<Rightarrow> registry \<Rightarrow> registry" where
  "watch_key client k r =
     r\<lparr>rg_watch := hm_insert k
         (hm_or_insert client False (case hm_get (rg_watch r) k of Some w \<Rightarrow> w | None \<Rightarrow> [])) (rg_watch r)\<rparr>"

definition reg_watch :: "string list \<Rightarrow> u64 \<Rightarrow> registry \<Rightarrow> registry" where
  "reg_watch ks client r = fold (watch_key client) ks r"

definition unwatch_all :: "u64 \<Rightarrow> registry \<Rightarrow> registry" where
  "unwatch_all client r = r\<lparr>rg_watch := map (\<lambda>(k, w). (k, hm_remove client w)) (rg_watch r)\<rparr>"

text \<open>The key a command modifies, as \<open>set_dirty\<close> sees it.\<close>

definition dirty_key :: "cmd \<Rightarrow> string option" where
  "dirty_key c =
     (case c of
        CSET k _ _ \<Rightarrow> Some k | CLPUSH k _ \<Rightarrow> Some k | CRPUSH k _ \<Rightarrow> Some k
      | CLPOP k _ \<Rightarrow> Some k | CBLPOP k _ \<Rightarrow> Some k | CINCR k \<Rightarrow> Some k
      | CXADD k _ _ \<Rightarrow> Some k | CSETBIT k _ _ \<Rightarrow> Some k
      | CBITOP (ArgAND d _ _) \<Rightarrow> Some d | CBITOP (ArgOR d _ _) \<Rightarrow> Some d
      | _ \<Rightarrow> None)"

definition set_dirty :: "cmd \<Rightarrow> registry \<Rightarrow> registry" where
  "set_dirty c r =
     (case dirty_key c of
        None \<Rightarrow> r
      | Some k \<Rightarrow>
          (case hm_get (rg_watch r) k of
             None \<Rightarrow> r
           | Some w \<Rightarrow> r\<lparr>rg_watch := hm_insert k (map (\<lambda>(cl, _). (cl, True)) w) (rg_watch r)\<rparr>))"

definition is_any_dirty :: "u64 \<Rightarrow> registry \<Rightarrow> bool" where
  "is_any_dirty client r = list_ex (\<lambda>(_, w). hm_get w client = Some True) (rg_watch r)"

section \<open>Deadlines stay unique\<close>

lemma free_deadline_fresh:
  assumes "bt_inv m" and "length m < 2 ^ 64"
  shows "\<not> bt_contains m (free_deadline (length m) d m)"
proof
  let ?f = "\<lambda>k. d + of_nat k :: u64"
  have step: "bt_contains m (free_deadline n d m) \<Longrightarrow> (\<forall>k \<le> n. bt_contains m (d + of_nat k))" for n d
  proof (induction n arbitrary: d)
    case (Suc n)
    note IH = Suc.IH
    show ?case
    proof (intro allI impI)
      fix k assume k: "k \<le> Suc n"
      from Suc.prems have d: "bt_contains m d" "bt_contains m (free_deadline n (d + 1) m)"
        by (auto split: if_splits)
      show "bt_contains m (d + of_nat k)"
      proof (cases k)
        case (Suc j)
        with k IH [OF d(2)] have "bt_contains m (d + 1 + of_nat j)" by simp
        with Suc show ?thesis by (simp add: add_ac)
      qed (simp add: d)
    qed
  qed simp
  assume "bt_contains m (free_deadline (length m) d m)"
  from step [OF this] have "?f ` {..length m} \<subseteq> bt_keys m"
    by (auto simp: bt_contains_def bt_keys_get)
  then have "card (?f ` {..length m}) \<le> length m"
    using card_mono [OF finite_bt_keys] card_bt_keys [OF assms(1)] by metis
  moreover have "inj_on ?f {..length m}"
  proof (rule inj_onI)
    fix i j assume "i \<in> {..length m}" "j \<in> {..length m}" "?f i = ?f j"
    then have "(of_nat i :: u64) = of_nat j" "i < 2 ^ 64" "j < 2 ^ 64" using assms(2) by auto
    moreover have "unat (of_nat n :: u64) = n" if "n < 2 ^ 64" for n
      using that by (simp add: unsigned_of_nat take_bit_nat_eq_self)
    ultimately show "i = j" by metis
  qed
  ultimately show False by (simp add: card_image)
qed

end
