(* ===== verification/RegistryCorrect.thy ===== *)
theory RegistryCorrect
  imports Registry
begin

text \<open>
  The registry of blocked requests keeps its five indexes consistent: the store, the queue of
  every list, the set of stream readers and the tree of deadlines describe the same requests,
  and while a deadline is pending the timer is armed. The contract its users need (an inserted
  request is found until it is removed, and removed once) is the locale \<open>pending_requests\<close>.
\<close>

section \<open>Fields an operation leaves alone\<close>

lemma timer_fields [simp]:
  "rg_store (set_timer_fd now r) = rg_store r" "rg_list (set_timer_fd now r) = rg_list r"
  "rg_stream (set_timer_fd now r) = rg_stream r" "rg_txn (set_timer_fd now r) = rg_txn r"
  "rg_watch (set_timer_fd now r) = rg_watch r" "rg_wait (set_timer_fd now r) = rg_wait r"
  "rg_ack (set_timer_fd now r) = rg_ack r" "rg_deadline (set_timer_fd now r) = rg_deadline r"
  by (auto simp: set_timer_fd_def timer_create_event_def split: option.splits)

lemma re_set_deadline [simp]:
  "re_deadline (set_deadline d e) = d" "re_ts (set_deadline d e) = re_ts e"
  "re_client (set_deadline d e) = re_client e"
  by (cases e; simp)+

definition stamp :: "registry \<Rightarrow> u64 \<Rightarrow> request_entry \<Rightarrow> request_entry" where
  "stamp r deadline e =
     (if 0 < deadline
      then set_deadline (free_deadline (length (rg_deadline r)) deadline (rg_deadline r)) e else e)"

lemma reg_arm_fields:
  assumes "reg_arm now ts deadline e r = (r1, e1)"
  shows "e1 = stamp r deadline e" and "rg_store r1 = rg_store r" and "rg_list r1 = rg_list r"
    and "rg_stream r1 = rg_stream r" and "rg_txn r1 = rg_txn r" and "rg_watch r1 = rg_watch r"
    and "rg_wait r1 = rg_wait r" and "rg_ack r1 = rg_ack r"
    and "rg_deadline r1 = (if 0 < deadline
           then bt_insert (free_deadline (length (rg_deadline r)) deadline (rg_deadline r)) ts (rg_deadline r)
           else rg_deadline r)"
  using assms by (auto simp: reg_arm_def stamp_def Let_def split: if_splits)

lemma reg_enqueue_fields [simp]:
  "rg_store (reg_enqueue ts e r) = rg_store r" "rg_txn (reg_enqueue ts e r) = rg_txn r"
  "rg_watch (reg_enqueue ts e r) = rg_watch r" "rg_deadline (reg_enqueue ts e r) = rg_deadline r"
  "rg_timer (reg_enqueue ts e r) = rg_timer r"
  by (auto simp: reg_enqueue_def split: request_entry.splits)

lemma reg_dequeue_fields [simp]:
  "rg_store (reg_dequeue ts e r) = rg_store r" "rg_txn (reg_dequeue ts e r) = rg_txn r"
  "rg_watch (reg_dequeue ts e r) = rg_watch r" "rg_deadline (reg_dequeue ts e r) = rg_deadline r"
  "rg_timer (reg_dequeue ts e r) = rg_timer r"
  by (auto simp: reg_dequeue_def Let_def split: request_entry.splits option.splits)

lemma reg_insert_store: "rg_store (reg_insert now ts deadline e r) = hm_insert ts (stamp r deadline e) (rg_store r)"
proof -
  obtain r1 e1 where a: "reg_arm now ts deadline e r = (r1, e1)" by fastforce
  show ?thesis by (simp add: reg_insert_def a reg_arm_fields [OF a] Let_def)
qed

lemma reg_remove_store: "rg_store (snd (reg_remove now ts r)) = hm_remove ts (rg_store r)"
  by (auto simp: reg_remove_def Let_def hm_remove_absent split: option.splits)

lemma reg_remove_fst [simp]: "fst (reg_remove now ts r) = hm_get (rg_store r) ts"
  by (auto simp: reg_remove_def Let_def split: option.splits)

lemma reg_remove_absent: "hm_get (rg_store r) ts = None \<Longrightarrow> reg_remove now ts r = (None, r)"
  by (simp add: reg_remove_def)

lemma reg_txn_fields [simp]:
  "rg_txn (reg_insert now ts deadline e r) = rg_txn r" "rg_watch (reg_insert now ts deadline e r) = rg_watch r"
  "rg_txn (snd (reg_remove now ts r)) = rg_txn r" "rg_watch (snd (reg_remove now ts r)) = rg_watch r"
proof -
  obtain r1 e1 where a: "reg_arm now ts deadline e r = (r1, e1)" by fastforce
  show "rg_txn (reg_insert now ts deadline e r) = rg_txn r"
    "rg_watch (reg_insert now ts deadline e r) = rg_watch r"
    by (simp_all add: reg_insert_def a reg_arm_fields [OF a] Let_def)
qed (simp_all add: reg_remove_def Let_def split: option.splits)

section \<open>The contract of pending requests\<close>

locale pending_requests =
  fixes lookup :: "'r \<Rightarrow> u64 \<Rightarrow> 'e option"
    and insert :: "u64 \<Rightarrow> u64 \<Rightarrow> u64 \<Rightarrow> 'e \<Rightarrow> 'r \<Rightarrow> 'r"
    and remove :: "u64 \<Rightarrow> u64 \<Rightarrow> 'r \<Rightarrow> 'e option \<times> 'r"
    and stored :: "'r \<Rightarrow> u64 \<Rightarrow> 'e \<Rightarrow> 'e"
  assumes lookup_insert: "lookup (insert now ts d e r) ts' = (if ts' = ts then Some (stored r d e) else lookup r ts')"
    and remove_result: "fst (remove now ts r) = lookup r ts"
    and lookup_remove: "lookup (snd (remove now ts r)) ts' = (if ts' = ts then None else lookup r ts')"
begin

lemma removed_once: "fst (remove now' ts (snd (remove now ts r))) = None"
  by (simp add: remove_result lookup_remove)

lemma remove_inserted: "fst (remove now' ts (insert now ts d e r)) = Some (stored r d e)"
  by (simp add: remove_result lookup_insert)

lemma remove_other: "ts' \<noteq> ts \<Longrightarrow> fst (remove now' ts' (snd (remove now ts r))) = fst (remove now' ts' r)"
  by (simp add: remove_result lookup_remove)

lemma insert_then_remove:
  "lookup r ts = None \<Longrightarrow> lookup (snd (remove now' ts (insert now ts d e r))) ts' = lookup r ts'"
  by (simp add: lookup_insert lookup_remove)

end

interpretation rr: pending_requests "\<lambda>r. hm_get (rg_store r)" reg_insert reg_remove stamp
  by unfold_locales (simp_all add: reg_insert_store reg_remove_store)

section \<open>Consistency of the indexes\<close>

definition queued :: "registry \<Rightarrow> string \<Rightarrow> u64 \<Rightarrow> bool" where
  "queued r k t \<longleftrightarrow> (\<exists>q. hm_get (rg_list r) k = Some q \<and> t \<in> set q)"

definition list_req :: "string \<Rightarrow> request_entry \<Rightarrow> bool" where
  "list_req k e \<longleftrightarrow> (case e of ListReq k' _ _ _ \<Rightarrow> k' = k | _ \<Rightarrow> False)"

definition stream_req :: "request_entry \<Rightarrow> bool" where
  "stream_req e \<longleftrightarrow> (case e of StreamReq _ _ _ _ _ \<Rightarrow> True | _ \<Rightarrow> False)"

definition queues_ok :: "registry \<Rightarrow> bool" where
  "queues_ok r \<longleftrightarrow> hm_inv (rg_list r) \<and>
     (\<forall>k q. hm_get (rg_list r) k = Some q \<longrightarrow> q \<noteq> [] \<and> distinct q) \<and>
     (\<forall>k t. queued r k t \<longleftrightarrow> (\<exists>e. hm_get (rg_store r) t = Some e \<and> list_req k e))"

definition streams_ok :: "registry \<Rightarrow> bool" where
  "streams_ok r \<longleftrightarrow> distinct (rg_stream r) \<and>
     (\<forall>t. t \<in> set (rg_stream r) \<longleftrightarrow> (\<exists>e. hm_get (rg_store r) t = Some e \<and> stream_req e))"

definition deadlines_ok :: "registry \<Rightarrow> bool" where
  "deadlines_ok r \<longleftrightarrow> bt_inv (rg_deadline r) \<and>
     (\<forall>d t. bt_get (rg_deadline r) d = Some t \<longleftrightarrow>
        d \<noteq> 0 \<and> (\<exists>e. hm_get (rg_store r) t = Some e \<and> re_deadline e = d))"

definition reg_inv :: "registry \<Rightarrow> bool" where
  "reg_inv r \<longleftrightarrow> hm_inv (rg_store r) \<and> queues_ok r \<and> streams_ok r \<and> deadlines_ok r"

lemma req_simps [simp]:
  "list_req k (ListReq k' d c t) \<longleftrightarrow> k' = k" "\<not> list_req k (StreamReq ks d c t n)"
  "\<not> list_req k (WaitReq c rq a d off sl t ep)" "\<not> stream_req (ListReq k' d c t)"
  "stream_req (StreamReq ks d c t n)" "\<not> stream_req (WaitReq c rq a d off sl t ep)"
  by (simp_all add: list_req_def stream_req_def)

lemma req_set_deadline [simp]:
  "list_req k (set_deadline d e) = list_req k e" "stream_req (set_deadline d e) = stream_req e"
  "list_req k (stamp r d e) = list_req k e" "stream_req (stamp r d e) = stream_req e"
proof -
  show d: "list_req k (set_deadline d e) = list_req k e" "stream_req (set_deadline d e) = stream_req e" for d
    by (cases e; simp)+
  show "list_req k (stamp r d e) = list_req k e" "stream_req (stamp r d e) = stream_req e"
    by (simp_all add: stamp_def d)
qed

lemma reg_inv_new [inv_intros]: "reg_inv registry_new"
  by (simp add: reg_inv_def registry_new_def queues_ok_def streams_ok_def deadlines_ok_def queued_def)

subsection \<open>Insert\<close>

lemma reg_enqueue_set_deadline: "reg_enqueue ts (set_deadline d e) r = reg_enqueue ts e r"
  by (cases e) (simp_all add: reg_enqueue_def)

lemma reg_enqueue_stamp: "reg_enqueue ts (stamp r' d e) r = reg_enqueue ts e r"
  by (simp add: stamp_def reg_enqueue_set_deadline)

lemma reg_enqueue_cong:
  "rg_list r = rg_list r' \<Longrightarrow> rg_list (reg_enqueue ts e r) = rg_list (reg_enqueue ts e r')"
  "rg_stream r = rg_stream r' \<Longrightarrow> rg_stream (reg_enqueue ts e r) = rg_stream (reg_enqueue ts e r')"
  by (cases e; simp add: reg_enqueue_def)+

lemma reg_insert_indexes:
  "rg_list (reg_insert now ts d e r) = rg_list (reg_enqueue ts e r)"
  "rg_stream (reg_insert now ts d e r) = rg_stream (reg_enqueue ts e r)"
  "rg_deadline (reg_insert now ts d e r) =
     (if 0 < d then bt_insert (re_deadline (stamp r d e)) ts (rg_deadline r) else rg_deadline r)"
proof -
  obtain r1 e1 where a: "reg_arm now ts d e r = (r1, e1)" by fastforce
  note f = reg_arm_fields [OF a]
  show "rg_list (reg_insert now ts d e r) = rg_list (reg_enqueue ts e r)"
    "rg_stream (reg_insert now ts d e r) = rg_stream (reg_enqueue ts e r)"
    using f by (auto simp: reg_insert_def a Let_def reg_enqueue_stamp intro!: reg_enqueue_cong)
  show "rg_deadline (reg_insert now ts d e r) =
     (if 0 < d then bt_insert (re_deadline (stamp r d e)) ts (rg_deadline r) else rg_deadline r)"
    by (simp add: reg_insert_def a f Let_def stamp_def)
qed

lemma queued_enqueue: "queued (reg_enqueue ts e r) k t \<longleftrightarrow> queued r k t \<or> list_req k e \<and> t = ts"
  by (cases e) (auto simp: queued_def reg_enqueue_def split: option.splits dest: sym)

lemma queued_cong: "rg_list r = rg_list r' \<Longrightarrow> queued r k t = queued r' k t"
  by (simp add: queued_def)

lemma queues_ok_insert:
  assumes "queues_ok r" and "hm_get (rg_store r) ts = None"
  shows "queues_ok (reg_insert now ts d e r)"
proof -
  have q: "queued (reg_insert now ts d e r) k t \<longleftrightarrow> queued r k t \<or> list_req k e \<and> t = ts" for k t
    by (simp add: queued_cong [OF reg_insert_indexes(1)] queued_enqueue)
  have new: "ts \<notin> set xs" if "hm_get (rg_list r) k = Some xs" for k xs
  proof -
    have "\<not> queued r k ts" using assms by (auto simp: queues_ok_def)
    with that show ?thesis by (auto simp: queued_def)
  qed
  have "hm_inv (rg_list (reg_enqueue ts e r))"
    using assms(1) by (cases e) (auto simp: queues_ok_def reg_enqueue_def)
  moreover have "xs \<noteq> [] \<and> distinct xs" if "hm_get (rg_list (reg_enqueue ts e r)) k = Some xs" for k xs
    using that assms(1) new [of k]
    by (cases e) (auto simp: queues_ok_def reg_enqueue_def split: if_splits option.splits)
  moreover have "queued r k t \<or> list_req k e \<and> t = ts \<longleftrightarrow>
      (\<exists>e'. hm_get (rg_store (reg_insert now ts d e r)) t = Some e' \<and> list_req k e')" for k t
    using assms by (auto simp: reg_insert_store queues_ok_def)
  ultimately show ?thesis
    by (simp add: queues_ok_def q reg_insert_indexes)
qed

lemma streams_ok_insert:
  assumes "streams_ok r" and "hm_get (rg_store r) ts = None"
  shows "streams_ok (reg_insert now ts d e r)"
  using assms by (cases e)
    (auto simp: streams_ok_def reg_insert_indexes reg_insert_store reg_enqueue_def)

lemma free_deadline_ge: "unat d + n < 2 ^ 64 \<Longrightarrow> unat d \<le> unat (free_deadline n d m)"
proof (induction n arbitrary: d)
  case (Suc n)
  from Suc.prems have "unat (d + 1) = unat d + 1"
    by (simp add: unat_word_ariths)
  with Suc.IH [of "d + 1"] Suc.prems show ?case by simp
qed simp

lemma deadlines_ok_insert:
  assumes "deadlines_ok r" and "hm_get (rg_store r) ts = None" and "re_deadline e = d"
    and "unat d + length (rg_deadline r) < 2 ^ 64"
  shows "deadlines_ok (reg_insert now ts d e r)"
proof (cases "0 < d")
  case True
  let ?d = "free_deadline (length (rg_deadline r)) d (rg_deadline r)"
  have bt: "bt_inv (rg_deadline r)" using assms(1) by (simp add: deadlines_ok_def)
  have "\<not> bt_contains (rg_deadline r) ?d"
    using assms(4) by (intro free_deadline_fresh [OF bt]) simp
  then have fresh: "bt_get (rg_deadline r) ?d = None" by (simp add: bt_contains_def)
  have "0 < unat d" using True by (simp add: unat_gt_0 word_neq_0_conv)
  then have "0 < unat ?d" using free_deadline_ge [OF assms(4), of "rg_deadline r"] by simp
  then have nz: "?d \<noteq> 0" by auto
  have old: "\<not> (hm_get (rg_store r) t = Some e' \<and> re_deadline e' = ?d)" for t e'
  proof
    assume "hm_get (rg_store r) t = Some e' \<and> re_deadline e' = ?d"
    with assms(1) nz have "bt_get (rg_deadline r) ?d = Some t" by (simp add: deadlines_ok_def)
    with fresh show False by simp
  qed
  show ?thesis
    using assms(1,2) True bt nz old
    by (auto simp: deadlines_ok_def reg_insert_indexes reg_insert_store stamp_def bt_get_insert)
next
  case False
  then have "d = 0" by (simp add: word_gt_0)
  with assms show ?thesis
    by (auto simp: deadlines_ok_def reg_insert_indexes reg_insert_store stamp_def)
qed

lemma reg_inv_insert [inv_intros]:
  assumes "reg_inv r" and "hm_get (rg_store r) ts = None" and "re_deadline e = d"
    and "unat d + length (rg_deadline r) < 2 ^ 64"
  shows "reg_inv (reg_insert now ts d e r)"
  using assms queues_ok_insert streams_ok_insert deadlines_ok_insert
  by (simp add: reg_inv_def reg_insert_store)

subsection \<open>Remove\<close>

lemma reg_remove_indexes:
  assumes "hm_get (rg_store r) ts = Some e"
  shows "rg_list (snd (reg_remove now ts r)) = rg_list (reg_dequeue ts e r)"
    and "rg_stream (snd (reg_remove now ts r)) = rg_stream (reg_dequeue ts e r)"
    and "rg_deadline (snd (reg_remove now ts r)) = bt_remove (re_deadline e) (rg_deadline r)"
proof -
  show "rg_list (snd (reg_remove now ts r)) = rg_list (reg_dequeue ts e r)"
    "rg_stream (snd (reg_remove now ts r)) = rg_stream (reg_dequeue ts e r)"
    by (cases e; simp add: reg_remove_def assms reg_dequeue_def Let_def split: option.splits)+
  show "rg_deadline (snd (reg_remove now ts r)) = bt_remove (re_deadline e) (rg_deadline r)"
    by (simp add: reg_remove_def assms Let_def)
qed

lemma queued_dequeue:
  "queued (reg_dequeue ts e r) k t \<longleftrightarrow> queued r k t \<and> \<not> (list_req k e \<and> t = ts)"
  by (cases e) (auto simp: queued_def reg_dequeue_def Let_def filter_empty_conv split: option.splits if_splits)

lemma reg_inv_remove [inv_intros]:
  assumes "reg_inv r"
  shows "reg_inv (snd (reg_remove now ts r))"
proof (cases "hm_get (rg_store r) ts")
  case None
  with assms show ?thesis by (simp add: reg_remove_absent)
next
  case (Some e)
  note i = reg_remove_indexes [OF Some, of now]
  have q: "queued (snd (reg_remove now ts r)) k t \<longleftrightarrow> queued r k t \<and> \<not> (list_req k e \<and> t = ts)" for k t
    by (simp add: queued_cong [OF i(1)] queued_dequeue)
  from assms have inv: "queues_ok r" "streams_ok r" "deadlines_ok r" by (simp_all add: reg_inv_def)
  have "hm_inv (rg_list (reg_dequeue ts e r))"
    using inv(1) by (cases e) (auto simp: queues_ok_def reg_dequeue_def Let_def split: option.splits)
  moreover have "xs \<noteq> [] \<and> distinct xs" if "hm_get (rg_list (reg_dequeue ts e r)) k = Some xs" for k xs
    using that inv(1)
    by (cases e) (auto simp: queues_ok_def reg_dequeue_def Let_def split: if_splits option.splits)
  moreover have "queued r k t \<and> \<not> (list_req k e \<and> t = ts) \<longleftrightarrow>
      (\<exists>e'. hm_get (rg_store (snd (reg_remove now ts r))) t = Some e' \<and> list_req k e')" for k t
    using inv(1) Some by (auto simp: reg_remove_store queues_ok_def)
  ultimately have "queues_ok (snd (reg_remove now ts r))"
    by (simp add: queues_ok_def q i)
  moreover have "streams_ok (snd (reg_remove now ts r))"
    using inv(2) Some by (cases e)
      (auto simp: streams_ok_def i reg_remove_store reg_dequeue_def Let_def split: option.splits)
  moreover have "t = ts" if "hm_get (rg_store r) t = Some e'" "re_deadline e' = re_deadline e"
    "re_deadline e \<noteq> 0" for t e'
  proof -
    have "bt_get (rg_deadline r) (re_deadline e) = Some t" "bt_get (rg_deadline r) (re_deadline e) = Some ts"
      using inv(3) that Some by (auto simp: deadlines_ok_def)
    then show ?thesis by simp
  qed
  then have "deadlines_ok (snd (reg_remove now ts r))"
    using inv(3) Some
    by (auto simp: deadlines_ok_def i reg_remove_store bt_get_remove)
  ultimately show ?thesis using assms by (simp add: reg_inv_def reg_remove_store)
qed

section \<open>The timer\<close>

definition timer_ok :: "registry \<Rightarrow> bool" where
  "timer_ok r \<longleftrightarrow> (rg_deadline r \<noteq> [] \<longrightarrow> rg_timer r \<noteq> None)"

definition sane_deadlines :: "registry \<Rightarrow> bool" where
  "sane_deadlines r \<longleftrightarrow> (\<forall>d \<in> bt_keys (rg_deadline r). unat d < 2 ^ 63)"

lemma sint_diff_pos:
  fixes now d :: u64
  assumes "now < d" and "unat d < 2 ^ 63"
  shows "0 < sint (d - now)"
proof -
  have "unat (d - now) = unat d - unat now" using assms(1) by (simp add: unat_sub word_le_less_eq)
  moreover have "unat now < unat d" using assms(1) by (simp add: word_less_nat_alt)
  ultimately have "0 < unat (d - now)" "unat (d - now) < 2 ^ 63" using assms(2) by auto
  moreover have "uint (d - now) = int (unat (d - now))" by simp
  ultimately have u: "0 < uint (d - now)" "uint (d - now) < 2 ^ 63"
    by (simp_all only: of_nat_0_less_iff of_nat_less_numeral_power_cancel_iff)
  then have "sint (d - now) = uint (d - now)"
    by (simp add: sint_uint signed_take_bit_int_eq_self)
  with u(1) show ?thesis by simp
qed

lemma set_timer_ok: "sane_deadlines r \<Longrightarrow> timer_ok (set_timer_fd now r)"
proof (cases "rg_deadline r")
  case (Cons x m)
  moreover obtain d t where "x = (d, t)" by fastforce
  moreover assume "sane_deadlines r"
  ultimately have "bt_first (rg_deadline r) = Some (d, t)" "unat d < 2 ^ 63"
    by (auto simp: bt_first_def sane_deadlines_def)
  then show ?thesis
    using sint_diff_pos [of now d]
    by (auto simp: timer_ok_def set_timer_fd_def timer_create_event_def)
qed (simp add: timer_ok_def)

lemma timer_ok_insert [inv_intros]:
  assumes "timer_ok r" and "sane_deadlines (reg_insert now ts d e r)"
  shows "timer_ok (reg_insert now ts d e r)"
proof -
  obtain r1 e1 where a: "reg_arm now ts d e r = (r1, e1)" by fastforce
  have "timer_ok r1"
  proof (cases "0 < d")
    case True
    with a assms(2) show ?thesis
      by (auto simp: reg_arm_def Let_def sane_deadlines_def reg_insert_indexes stamp_def intro!: set_timer_ok)
  next
    case False
    with a assms(1) show ?thesis by (simp add: reg_arm_def)
  qed
  then show ?thesis by (simp add: reg_insert_def a Let_def timer_ok_def)
qed

lemma timer_ok_remove [inv_intros]:
  assumes "sane_deadlines r" and "timer_ok r" and "deadlines_ok r"
  shows "timer_ok (snd (reg_remove now ts r))"
proof (cases "hm_get (rg_store r) ts")
  case None
  with assms show ?thesis by (simp add: reg_remove_absent)
next
  case (Some e)
  have "sane_deadlines (reg_dequeue ts e (r\<lparr>rg_store := hm_remove ts (rg_store r)\<rparr>)
      \<lparr>rg_deadline := bt_remove (re_deadline e) (rg_deadline r)\<rparr>)"
    using assms by (auto simp: sane_deadlines_def deadlines_ok_def bt_keys_remove)
  then show ?thesis by (simp add: reg_remove_def Some Let_def set_timer_ok)
qed

text \<open>
  The converse fails: when the last deadline is removed the timer stays armed, since
  \<open>set_timer_fd\<close> does nothing on an empty tree.
\<close>

lemma timer_left_armed:
  "rg_deadline (snd (reg_remove now ts r)) = [] \<Longrightarrow> rg_timer (snd (reg_remove now ts r)) = rg_timer r"
proof (cases "hm_get (rg_store r) ts")
  case (Some e)
  assume "rg_deadline (snd (reg_remove now ts r)) = []"
  then have "bt_remove (re_deadline e) (rg_deadline r) = []"
    using reg_remove_indexes(3) [OF Some] by simp
  with Some show ?thesis by (simp add: reg_remove_def Let_def set_timer_fd_def bt_first_def)
qed (simp add: reg_remove_absent)

section \<open>Transactions and watched keys\<close>

lemma txn_of_add:
  "hm_get (rg_txn (add_to_txn client c b r)) client' =
     (if client' = client
      then Some ((case hm_get (rg_txn r) client of Some q \<Rightarrow> q | None \<Rightarrow> []) @ [(c, b)])
      else hm_get (rg_txn r) client')"
  by (simp add: add_to_txn_def)

text \<open>Whether \<open>client\<close> watches \<open>k\<close>, and whether the watch is dirty.\<close>

definition watches :: "registry \<Rightarrow> u64 \<Rightarrow> string \<Rightarrow> bool option" where
  "watches r client k = Option.bind (hm_get (rg_watch r) k) (\<lambda>w. hm_get w client)"

definition watch_inv :: "registry \<Rightarrow> bool" where
  "watch_inv r \<longleftrightarrow> hm_inv (rg_watch r)"

lemma map_of_mark: "map_of (map (\<lambda>(c, _). (c, True)) w) client = map_option (\<lambda>_. True) (map_of w client)"
  by (induction w) auto

lemma watches_set_dirty:
  "watches (set_dirty c r) client k =
     (if dirty_key c = Some k then map_option (\<lambda>_. True) (watches r client k) else watches r client k)"
  by (auto simp: watches_def set_dirty_def map_of_mark split: option.splits)

lemma watches_watch_key:
  "watches (watch_key client k r) client' k' =
     (if client' = client \<and> k' = k \<and> watches r client k = None then Some False else watches r client' k')"
  by (auto simp: watches_def watch_key_def hm_get_or_insert split: option.splits)

lemma map_of_values: "map_of (map (\<lambda>(k, w). (k, f w)) m) k = map_option f (map_of m k)"
  by (induction m) auto

lemma watches_unwatch_all:
  "watches (unwatch_all client r) client' k = (if client' = client then None else watches r client' k)"
proof -
  have "hm_get (rg_watch (unwatch_all client r)) k = map_option (hm_remove client) (hm_get (rg_watch r) k)"
    by (simp add: unwatch_all_def map_of_values)
  then show ?thesis by (cases "hm_get (rg_watch r) k") (auto simp: watches_def)
qed

lemma is_any_dirty_iff:
  assumes "watch_inv r"
  shows "is_any_dirty client r \<longleftrightarrow> (\<exists>k. watches r client k = Some True)"
proof -
  have "(k, w) \<in> set (rg_watch r) \<longleftrightarrow> hm_get (rg_watch r) k = Some w" for k w
    using assms by (simp add: watch_inv_def hm_get_Some_in)
  then show ?thesis
    by (fastforce simp: is_any_dirty_def list_ex_iff watches_def bind_eq_Some_conv)
qed

lemma watch_inv_ops [inv_intros]:
  "watch_inv r \<Longrightarrow> watch_inv (set_dirty c r)" "watch_inv r \<Longrightarrow> watch_inv (watch_key client k r)"
  "watch_inv r \<Longrightarrow> watch_inv (unwatch_all client r)"
  by (auto simp: watch_inv_def set_dirty_def watch_key_def unwatch_all_def hm_inv_def comp_def
      case_prod_unfold distinct_update split: option.splits)

end
