(* ===== verification/AppState.thy ===== *)
theory AppState
  imports Exceptions Containers
begin

text \<open>
  \<open>src/src/app_state.rs\<close>: the configuration read from the command line and the replication
  statistics of this server and of its master. \<open>args\<close> is the whole argument vector; both
  loops start at index 1 and advance by two, and \<open>args[i+1]\<close> panics past the end.
\<close>

section \<open>Configuration\<close>

datatype append_fsync = Always | EverySec

fun fsync_str :: "append_fsync \<Rightarrow> string" where
  "fsync_str Always = ''always''"
| "fsync_str EverySec = ''everysec''"

definition fsync_of :: "string \<Rightarrow> append_fsync cres" where
  "fsync_of s =
     (if s = ''always'' then Ok Always else if s = ''everysec'' then Ok EverySec
      else Err (InvalidArgument ''Invalid arg''))"

record configs =
  cf_path :: "string option"
  cf_dbfilename :: "string option"
  cf_appendonly :: bool
  cf_appenddirname :: string
  cf_appendfilename :: string
  cf_appendfsync :: append_fsync

definition configs_new :: configs where
  "configs_new = \<lparr>cf_path = Some ''/app'', cf_dbfilename = None, cf_appendonly = False,
     cf_appenddirname = ''appendonlydir'', cf_appendfilename = ''appendonly.aof'',
     cf_appendfsync = EverySec\<rparr>"

definition get_attr :: "string \<Rightarrow> configs \<Rightarrow> string cres" where
  "get_attr key c =
     (if key = ''dir'' then Ok (case cf_path c of Some s \<Rightarrow> s | None \<Rightarrow> ''none'')
      else if key = ''dbfilename'' then Ok (case cf_dbfilename c of Some s \<Rightarrow> s | None \<Rightarrow> '''')
      else if key = ''appendonly'' then Ok (if cf_appendonly c then ''yes'' else ''no'')
      else if key = ''appenddirname'' then Ok (cf_appenddirname c)
      else if key = ''appendfilename'' then Ok (cf_appendfilename c)
      else if key = ''appendfsync'' then Ok (fsync_str (cf_appendfsync c))
      else Err (UnsupportedCmd ''Unsupported''))"

definition yes_no_to_bool :: "string \<Rightarrow> bool option" where
  "yes_no_to_bool s = (if s = ''yes'' then Some True else if s = ''no'' then Some False else None)"

definition config_flag :: "string \<Rightarrow> string \<Rightarrow> configs \<Rightarrow> configs option" where
  "config_flag k v c =
     (if k = ''--dir'' then Some (c\<lparr>cf_path := Some v\<rparr>)
      else if k = ''--dbfilename'' then Some (c\<lparr>cf_dbfilename := Some v\<rparr>)
      else if k = ''--appendonly'' then map_option (\<lambda>b. c\<lparr>cf_appendonly := b\<rparr>) (yes_no_to_bool v)
      else if k = ''--appenddirname'' then Some (c\<lparr>cf_appenddirname := v\<rparr>)
      else if k = ''--appendfilename'' then Some (c\<lparr>cf_appendfilename := v\<rparr>)
      else if k = ''--appendfsync''
      then (case fsync_of v of Ok f \<Rightarrow> Some (c\<lparr>cf_appendfsync := f\<rparr>) | _ \<Rightarrow> None)
      else Some c)"

definition config_keys :: "string list" where
  "config_keys = [''--dir'', ''--dbfilename'', ''--appendonly'', ''--appenddirname'',
     ''--appendfilename'', ''--appendfsync'']"

text \<open>
  A flag the loop does not know is skipped with the argument behind it, so a last argument
  without a value panics only when it is a known flag. \<open>None\<close> is the panic.
\<close>

fun parse_config :: "string list \<Rightarrow> configs \<Rightarrow> configs option" where
  "parse_config [] c = Some c"
| "parse_config [k] c = (if k \<in> set config_keys then None else Some c)"
| "parse_config (k # v # args) c =
     (case config_flag k v c of Some c' \<Rightarrow> parse_config args c' | None \<Rightarrow> None)"

definition configs_of_args :: "string list \<Rightarrow> configs option" where
  "configs_of_args args = parse_config (tl args) configs_new"

section \<open>Replication statistics\<close>

record repl_stats =
  rs_host :: "string option"
  rs_port :: "nat option"
  rs_id :: string
  rs_offset :: int

definition repl_stats_new :: "string option \<Rightarrow> nat option \<Rightarrow> repl_stats" where
  "repl_stats_new h p = \<lparr>rs_host = h, rs_port = p, rs_id = ''?'', rs_offset = - 1\<rparr>"

definition parse_replicaof :: "string option \<Rightarrow> repl_stats option option" where
  "parse_replicaof s =
     (case s of
        None \<Rightarrow> Some None
      | Some v \<Rightarrow>
          (case split_on (CHR '' '') v of
             h # p # _ \<Rightarrow>
               (case parse_u16 p of
                  Ok port \<Rightarrow> Some (Some (repl_stats_new (Some h) (Some port)))
                | _ \<Rightarrow> None)
           | _ \<Rightarrow> None))"

text \<open>The offset is an \<open>AtomicI64\<close>: \<open>fetch_add\<close> wraps around.\<close>

definition start_bytes_count :: "repl_stats \<Rightarrow> repl_stats" where
  "start_bytes_count r = (if rs_offset r = - 1 then r\<lparr>rs_offset := 0\<rparr> else r)"

definition add_bytes_count :: "int \<Rightarrow> repl_stats \<Rightarrow> repl_stats" where
  "add_bytes_count n r = (if - 1 < rs_offset r then r\<lparr>rs_offset := wrap_i64 (rs_offset r + n)\<rparr> else r)"

record app_states =
  host_stats :: "repl_stats option"
  master_stats :: "repl_stats option"

record app_args =
  aa_host :: "string option"
  aa_port :: "nat option"
  aa_replicaof :: "string option"

definition app_flag :: "string \<Rightarrow> string \<Rightarrow> app_args \<Rightarrow> app_args option" where
  "app_flag k v a =
     (let k = to_ascii_lower k in
      if k = ''--host'' then Some (a\<lparr>aa_host := Some v\<rparr>)
      else if k = ''--port'' \<or> k = ''-p''
      then (case parse_u16 v of Ok p \<Rightarrow> Some (a\<lparr>aa_port := Some p\<rparr>) | _ \<Rightarrow> None)
      else if k = ''--replicaof'' then Some (a\<lparr>aa_replicaof := Some v\<rparr>)
      else Some a)"

fun app_loop :: "string list \<Rightarrow> app_args \<Rightarrow> app_args option" where
  "app_loop [] a = Some a"
| "app_loop [k] a =
     (if to_ascii_lower k \<in> {''--host'', ''--port'', ''-p'', ''--replicaof''} then None else Some a)"
| "app_loop (k # v # args) a = (case app_flag k v a of Some a' \<Rightarrow> app_loop args a' | None \<Rightarrow> None)"

definition app_init :: "string list \<Rightarrow> app_states option" where
  "app_init args =
     (case app_loop (tl args) \<lparr>aa_host = None, aa_port = None, aa_replicaof = None\<rparr> of
        None \<Rightarrow> None
      | Some a \<Rightarrow>
          (let h = repl_stats_new (Some (case aa_host a of Some h \<Rightarrow> h | None \<Rightarrow> ''127.0.0.1''))
                     (Some (case aa_port a of Some p \<Rightarrow> p | None \<Rightarrow> 6379))
           in map_option
                (\<lambda>m. \<lparr>host_stats = Some (start_bytes_count h), master_stats = m\<rparr>)
                (parse_replicaof (aa_replicaof a))))"

definition is_slave_server :: "app_states \<Rightarrow> bool" where
  "is_slave_server a \<longleftrightarrow> master_stats a \<noteq> None"

definition host_add_bytes_count :: "int \<Rightarrow> app_states \<Rightarrow> app_states" where
  "host_add_bytes_count n a = a\<lparr>host_stats := map_option (add_bytes_count n) (host_stats a)\<rparr>"

section \<open>Facts\<close>

text \<open>The host statistics exist after start-up, and the offset only ever counts up from 0.\<close>

definition states_inv :: "app_states \<Rightarrow> bool" where
  "states_inv a \<longleftrightarrow>
     (case host_stats a of
        Some h \<Rightarrow> rs_host h \<noteq> None \<and> rs_port h \<noteq> None \<and> i64_range (rs_offset h)
      | None \<Rightarrow> False) \<and>
     (\<forall>m. master_stats a = Some m \<longrightarrow> rs_host m \<noteq> None \<and> rs_port m \<noteq> None)"

lemma app_init_inv: "app_init args = Some a \<Longrightarrow> states_inv a"
  by (auto simp: app_init_def states_inv_def start_bytes_count_def repl_stats_new_def i64_range_def
      parse_replicaof_def split: option.splits list.splits result.splits)

lemma app_init_offset: "app_init args = Some a \<Longrightarrow> map_option rs_offset (host_stats a) = Some 0"
  by (auto simp: app_init_def start_bytes_count_def repl_stats_new_def split: option.splits)

lemma host_add_inv [inv_intros]: "states_inv a \<Longrightarrow> states_inv (host_add_bytes_count n a)"
  by (cases "host_stats a")
    (auto simp: states_inv_def host_add_bytes_count_def add_bytes_count_def wrap_i64_range)

lemma add_bytes_sum:
  assumes "- 1 < rs_offset r" and "0 \<le> n" and "0 \<le> m" and "rs_offset r + n + m < 2 ^ 63"
  shows "add_bytes_count m (add_bytes_count n r) = add_bytes_count (n + m) r"
  using assms by (simp add: add_bytes_count_def wrap_i64_id i64_range_def)

lemma parse_config_unknown:
  "k \<notin> set config_keys \<Longrightarrow> parse_config (k # v # args) c = parse_config args c"
  by (simp add: config_flag_def config_keys_def)

end
