(* ===== verification/Auth.thy ===== *)
theory Auth
  imports Exceptions Containers
begin

text \<open>
  \<open>src/src/auth.rs\<close>: credentials and the users the connected clients act as. The hash of a
  password (\<open>hex::encode(Sha256::digest(..))\<close>, two external crates) is the parameter
  \<open>H\<close>; nothing is assumed of it unless a lemma says so.
\<close>

datatype auth_flag = NoPassFlag

fun flag_str :: "auth_flag \<Rightarrow> string" where
  "flag_str NoPassFlag = ''nopass''"

record credential =
  cr_username :: string
  cr_passwords :: "string hashset"
  cr_flags :: "auth_flag hashset"

definition credential_new :: credential where
  "credential_new = \<lparr>cr_username = ''default'', cr_passwords = [], cr_flags = hs_insert NoPassFlag []\<rparr>"

definition set_password :: "(string \<Rightarrow> string) \<Rightarrow> string \<Rightarrow> credential \<Rightarrow> credential" where
  "set_password H p c =
     c\<lparr>cr_passwords := hs_insert (H p) (cr_passwords c), cr_flags := hs_remove NoPassFlag (cr_flags c)\<rparr>"

definition check_password :: "(string \<Rightarrow> string) \<Rightarrow> string \<Rightarrow> credential \<Rightarrow> bool" where
  "check_password H p c \<longleftrightarrow> H p \<in> set (cr_passwords c)"

text \<open>\<open>HashSet::insert\<close> returns whether the value was new.\<close>

definition add_flag :: "auth_flag \<Rightarrow> credential \<Rightarrow> credential \<times> bool" where
  "add_flag f c = (c\<lparr>cr_flags := hs_insert f (cr_flags c)\<rparr>, f \<notin> set (cr_flags c))"

definition has_nopass :: "credential \<Rightarrow> bool" where
  "has_nopass c \<longleftrightarrow> NoPassFlag \<in> set (cr_flags c)"

record auth =
  au_credentials :: "(string, credential) hashmap"
  au_clients :: "(u64, string) hashmap"

definition auth_new :: auth where
  "auth_new = \<lparr>au_credentials = hm_insert ''default'' credential_new [], au_clients = []\<rparr>"

definition wrongpass :: custom_error where
  "wrongpass = WrongUsernamePassword ''WRONGPASS invalid username-password pair or user is disabled.''"

definition authenticate ::
  "(string \<Rightarrow> string) \<Rightarrow> u64 \<Rightarrow> string option \<Rightarrow> string option \<Rightarrow> auth \<Rightarrow> auth \<times> unit cres" where
  "authenticate H client username password a =
     (case (username, password) of
        (Some u, Some p) \<Rightarrow>
          (case hm_get (au_credentials a) u of
             Some c \<Rightarrow>
               if check_password H p c
               then (a\<lparr>au_clients := hm_insert client u (au_clients a)\<rparr>, Ok ())
               else (a, Err wrongpass)
           | None \<Rightarrow> (a, Err wrongpass))
      | (None, None) \<Rightarrow>
          (case hm_get (au_credentials a) ''default'' of
             Some c \<Rightarrow>
               if has_nopass c
               then (a\<lparr>au_clients := hm_insert client ''default'' (au_clients a)\<rparr>, Ok ())
               else (a, Ok ())
           | None \<Rightarrow> (a, Err (InternalError ''No default user'')))
      | _ \<Rightarrow> (a, Err wrongpass))"

definition remove_auth :: "u64 \<Rightarrow> auth \<Rightarrow> auth" where
  "remove_auth client a = a\<lparr>au_clients := hm_remove client (au_clients a)\<rparr>"

definition get_username :: "u64 \<Rightarrow> auth \<Rightarrow> string cres" where
  "get_username client a =
     ok_or (hm_get (au_clients a) client) (WrongUsernamePassword ''Client not registered'')"

definition check_auth :: "u64 \<Rightarrow> auth \<Rightarrow> bool" where
  "check_auth client a \<longleftrightarrow> hm_contains (au_clients a) client"

section \<open>Facts\<close>

text \<open>
  Every client acts as a user that has a credential, the default user always exists, and a user
  with a password has no \<open>nopass\<close> flag unless it was set again.
\<close>

definition auth_inv :: "auth \<Rightarrow> bool" where
  "auth_inv a \<longleftrightarrow> hm_inv (au_credentials a) \<and> hm_inv (au_clients a) \<and>
     hm_get (au_credentials a) ''default'' \<noteq> None \<and>
     (\<forall>client u. hm_get (au_clients a) client = Some u \<longrightarrow> hm_get (au_credentials a) u \<noteq> None)"

lemma auth_inv_new [inv_intros]: "auth_inv auth_new"
  by (simp add: auth_inv_def auth_new_def hm_inv_def)

lemma auth_inv_authenticate [inv_intros]: "auth_inv a \<Longrightarrow> auth_inv (fst (authenticate H client u p a))"
  by (auto simp: authenticate_def auth_inv_def split: option.splits)

lemma auth_inv_remove [inv_intros]: "auth_inv a \<Longrightarrow> auth_inv (remove_auth client a)"
  by (simp add: auth_inv_def remove_auth_def)

lemma auth_inv_credential [inv_intros]:
  "auth_inv a \<Longrightarrow> auth_inv (a\<lparr>au_credentials := hm_insert u c (au_credentials a)\<rparr>)"
  by (auto simp: auth_inv_def)

lemma authenticate_iff:
  "snd (authenticate H client (Some u) (Some p) a) = Ok () \<longleftrightarrow>
   (\<exists>c. hm_get (au_credentials a) u = Some c \<and> H p \<in> set (cr_passwords c))"
  by (auto simp: authenticate_def check_password_def split: option.splits)

lemma authenticate_failed_unchanged:
  "snd (authenticate H client u p a) \<noteq> Ok () \<Longrightarrow> fst (authenticate H client u p a) = a"
  by (auto simp: authenticate_def split: option.splits if_splits)

lemma authenticate_other:
  "client' \<noteq> client \<Longrightarrow> check_auth client' (fst (authenticate H client u p a)) = check_auth client' a"
  by (auto simp: authenticate_def check_auth_def hm_contains_def split: option.splits)

text \<open>A connecting client is let in exactly while the default user needs no password.\<close>

lemma connect_check_auth:
  assumes "auth_inv a" and "\<not> check_auth client a"
  shows "snd (authenticate H client None None a) = Ok ()"
    and "check_auth client (fst (authenticate H client None None a)) \<longleftrightarrow>
         (\<exists>c. hm_get (au_credentials a) ''default'' = Some c \<and> has_nopass c)"
  using assms by (auto simp: authenticate_def auth_inv_def check_auth_def hm_contains_def split: option.splits)

lemma set_password_nopass: "\<not> has_nopass (set_password H p c)"
  by (simp add: has_nopass_def set_password_def)

lemma set_password_check: "check_password H q (set_password H p c) \<longleftrightarrow> H q = H p \<or> check_password H q c"
  by (auto simp: check_password_def set_password_def)

end
