(* ===== verification/Replication.thy ===== *)
theory Replication
  imports Containers
begin

text \<open>
  \<open>ClientTable\<close> of \<open>src/src/replication.rs\<close>: which connection is the master of this
  server and which are its replicas.
\<close>

record client_table =
  ct_master :: "u64 option"
  ct_slaves :: "u64 hashset option"

definition client_table_new :: client_table where
  "client_table_new = \<lparr>ct_master = None, ct_slaves = None\<rparr>"

definition ct_remove_client :: "u64 \<Rightarrow> client_table \<Rightarrow> client_table" where
  "ct_remove_client client t =
     t\<lparr>ct_master := (if ct_master t = Some client then None else ct_master t),
       ct_slaves := map_option (hs_remove client) (ct_slaves t)\<rparr>"

definition is_master :: "u64 \<Rightarrow> client_table \<Rightarrow> bool" where
  "is_master client t \<longleftrightarrow> ct_master t = Some client"

definition is_slave :: "u64 \<Rightarrow> client_table \<Rightarrow> bool" where
  "is_slave client t \<longleftrightarrow> (case ct_slaves t of Some s \<Rightarrow> client \<in> set s | None \<Rightarrow> False)"

definition set_master :: "u64 \<Rightarrow> client_table \<Rightarrow> client_table" where
  "set_master client t = t\<lparr>ct_master := Some client\<rparr>"

definition set_slave :: "u64 \<Rightarrow> client_table \<Rightarrow> client_table" where
  "set_slave client t =
     t\<lparr>ct_slaves := Some (hs_insert client (case ct_slaves t of Some s \<Rightarrow> s | None \<Rightarrow> []))\<rparr>"

definition remove_slave :: "u64 \<Rightarrow> client_table \<Rightarrow> client_table" where
  "remove_slave client t = t\<lparr>ct_slaves := map_option (hs_remove client) (ct_slaves t)\<rparr>"

text \<open>\<open>list_slave\<close>: the replicas in the order the set yields them.\<close>

definition list_slave :: "client_table \<Rightarrow> u64 list" where
  "list_slave t = (case ct_slaves t of Some s \<Rightarrow> s | None \<Rightarrow> [])"

definition table_inv :: "client_table \<Rightarrow> bool" where
  "table_inv t \<longleftrightarrow> distinct (list_slave t)"

lemma is_slave_list: "is_slave client t \<longleftrightarrow> client \<in> set (list_slave t)"
  by (auto simp: is_slave_def list_slave_def split: option.splits)

lemma table_inv_new [inv_intros]: "table_inv client_table_new"
  by (simp add: table_inv_def list_slave_def client_table_new_def)

lemma table_inv_ops [inv_intros]:
  "table_inv t \<Longrightarrow> table_inv (ct_remove_client c t)" "table_inv t \<Longrightarrow> table_inv (set_master c t)"
  "table_inv t \<Longrightarrow> table_inv (set_slave c t)" "table_inv t \<Longrightarrow> table_inv (remove_slave c t)"
  by (auto simp: table_inv_def list_slave_def ct_remove_client_def set_master_def set_slave_def
      remove_slave_def split: option.splits)

lemma set_list_slave:
  "set (list_slave (set_slave c t)) = insert c (set (list_slave t))"
  "set (list_slave (ct_remove_client c t)) = set (list_slave t) - {c}"
  by (auto simp: list_slave_def set_slave_def ct_remove_client_def split: option.splits)

end
