(* ===== verification/Aof.thy ===== *)
theory Aof
  imports Exceptions
begin

text \<open>
  The append-only file of \<open>src/src/aof.rs\<close>, as far as the command handler uses it: the
  buffered writer. \<open>aw_file\<close> is what has reached the file, \<open>aw_pending\<close> what sits in the
  8 KiB buffer of \<open>BufWriter\<close>. A write to the file is taken to succeed and to be whole.
  Replay and the choice of the files are in theory \<open>AofReplay\<close>.
\<close>

record aof_writer =
  aw_file :: bytes
  aw_pending :: bytes

record aof =
  ao_manifest :: "string option"
  ao_path :: "string option"
  ao_writer :: "aof_writer option"

definition aof_new :: aof where
  "aof_new = \<lparr>ao_manifest = None, ao_path = None, ao_writer = None\<rparr>"

definition bw_flush :: "aof_writer \<Rightarrow> aof_writer" where
  "bw_flush w = w\<lparr>aw_file := aw_file w @ aw_pending w, aw_pending := []\<rparr>"

definition bw_write :: "bytes \<Rightarrow> aof_writer \<Rightarrow> aof_writer" where
  "bw_write b w =
     (let w1 = (if 8192 < length (aw_pending w) + length b then bw_flush w else w) in
      if 8192 \<le> length b then w1\<lparr>aw_file := aw_file w1 @ b\<rparr>
      else w1\<lparr>aw_pending := aw_pending w1 @ b\<rparr>)"

definition aof_error :: custom_error where
  "aof_error = InternalError ''Error writing AOF file''"

definition aof_write :: "bytes \<Rightarrow> aof \<Rightarrow> aof \<times> unit cres" where
  "aof_write line a =
     (case ao_writer a of
        None \<Rightarrow> (a, Err aof_error)
      | Some w \<Rightarrow> (a\<lparr>ao_writer := Some (bw_write line w)\<rparr>, Ok ()))"

definition aof_flush :: "aof \<Rightarrow> aof \<times> unit cres" where
  "aof_flush a =
     (case ao_writer a of
        None \<Rightarrow> (a, Err aof_error)
      | Some w \<Rightarrow> (a\<lparr>ao_writer := Some (bw_flush w)\<rparr>, Ok ()))"

text \<open>Everything written so far, in order.\<close>

definition aof_log :: "aof \<Rightarrow> bytes" where
  "aof_log a = (case ao_writer a of Some w \<Rightarrow> aw_file w @ aw_pending w | None \<Rightarrow> [])"

definition aof_ok :: "aof \<Rightarrow> bool" where
  "aof_ok a \<longleftrightarrow> (\<forall>w. ao_writer a = Some w \<longrightarrow> length (aw_pending w) \<le> 8192)"

lemma bw_write_log: "aw_file (bw_write b w) @ aw_pending (bw_write b w) = aw_file w @ aw_pending w @ b"
  by (cases "aw_pending w") (auto simp: bw_write_def bw_flush_def Let_def)

lemma aof_log_write:
  "ao_writer a \<noteq> None \<Longrightarrow> aof_log (fst (aof_write b a)) = aof_log a @ b"
  by (auto simp: aof_log_def aof_write_def bw_write_log)

lemma aof_ok_write [inv_intros]: "aof_ok a \<Longrightarrow> aof_ok (fst (aof_write b a))"
  by (auto simp: aof_ok_def aof_write_def bw_write_def bw_flush_def Let_def split: option.splits)

lemma aof_flush_file:
  "ao_writer a = Some w \<Longrightarrow> ao_writer (fst (aof_flush a)) = Some \<lparr>aw_file = aof_log a, aw_pending = []\<rparr>"
  by (simp add: aof_flush_def bw_flush_def aof_log_def)

end
