(* ===== verification/HandlerState.thy ===== *)
theory HandlerState
  imports RegistryCorrect AppState Auth Replication Aof
begin

text \<open>
  The state the command handlers of \<open>src/src/commands/cmd_handler.rs\<close> run on: the fields of
  \<open>CmdHandler\<close>, then the statics and thread-locals they reach (\<open>ClientTable\<close>, \<open>Auth\<close>,
  \<open>AppStates\<close>, \<open>Configs\<close>), the descriptors registered with epoll, and the clock. The
  clock is an arbitrary sequence of readings; \<open>now()\<close> takes the next one.

  A handler returns the new state and its \<open>Result<Option<RespType>, CustomError>\<close>; the state
  is kept on an error, and meaningless after a \<open>Panic\<close>, which ends the server.
\<close>

record cmd_handler =
  h_queue :: "(u64 \<times> bytes) list"
  h_data :: store
  h_reg :: registry
  h_flag_list :: bool
  h_flag_stream :: bool
  h_subs :: "u64 hashset"
  h_chans :: "(string, u64 hashset) hashmap"
  h_aof :: "aof option"
  h_table :: client_table
  h_auth :: auth
  h_states :: app_states
  h_configs :: configs
  h_epoll :: "u64 hashset"
  h_clock :: "nat \<Rightarrow> u64"
  h_reads :: nat

type_synonym reply = "resp_type option cres"

text \<open>What the handlers take from external crates and the platform's libm.\<close>

record externals =
  x_hash :: "string \<Rightarrow> string"
  x_base64 :: "string \<Rightarrow> bytes option"
  x_libm :: libm

definition handler_new :: "app_states \<Rightarrow> configs \<Rightarrow> (nat \<Rightarrow> u64) \<Rightarrow> aof option \<Rightarrow> cmd_handler" where
  "handler_new st cf clk a =
     \<lparr>h_queue = [], h_data = [], h_reg = registry_new, h_flag_list = False, h_flag_stream = False,
      h_subs = [], h_chans = [], h_aof = a, h_table = client_table_new, h_auth = auth_new,
      h_states = st, h_configs = cf, h_epoll = [], h_clock = clk, h_reads = 0\<rparr>"

text \<open>A server that is its own master, without an append-only file.\<close>

definition fresh_master :: "(nat \<Rightarrow> u64) \<Rightarrow> cmd_handler" where
  "fresh_master clk =
     handler_new
       \<lparr>host_stats = Some (start_bytes_count (repl_stats_new (Some ''127.0.0.1'') (Some 6379))),
        master_stats = None\<rparr> configs_new clk None"

definition tick :: "cmd_handler \<Rightarrow> u64 \<times> cmd_handler" where
  "tick h = (h_clock h (h_reads h), h\<lparr>h_reads := Suc (h_reads h)\<rparr>)"

section \<open>Small steps\<close>

definition push :: "u64 \<Rightarrow> bytes \<Rightarrow> cmd_handler \<Rightarrow> cmd_handler" where
  "push client b h = h\<lparr>h_queue := h_queue h @ [(client, b)]\<rparr>"

definition put :: "string \<Rightarrow> store_item \<Rightarrow> cmd_handler \<Rightarrow> cmd_handler" where
  "put k i h = h\<lparr>h_data := hm_insert k i (h_data h)\<rparr>"

definition put_value :: "string \<Rightarrow> store_item \<Rightarrow> store_value \<Rightarrow> cmd_handler \<Rightarrow> cmd_handler" where
  "put_value k i v h = put k (i\<lparr>item_value := v\<rparr>) h"

definition look :: "string \<Rightarrow> cmd_handler \<Rightarrow> store_item option" where
  "look k h = hm_get (h_data h) k"

text \<open>\<open>entry(key).or_insert(item)\<close>, and the item the entry then holds.\<close>

definition or_insert :: "string \<Rightarrow> store_value \<Rightarrow> cmd_handler \<Rightarrow> cmd_handler \<times> store_item" where
  "or_insert k v h =
     (case look k h of
        Some i \<Rightarrow> (h, i)
      | None \<Rightarrow> (put k (item v None) h, item v None))"

definition on_reg :: "(registry \<Rightarrow> registry) \<Rightarrow> cmd_handler \<Rightarrow> cmd_handler" where
  "on_reg f h = h\<lparr>h_reg := f (h_reg h)\<rparr>"

definition insert_request :: "u64 \<Rightarrow> u64 \<Rightarrow> request_entry \<Rightarrow> cmd_handler \<Rightarrow> cmd_handler" where
  "insert_request ts deadline e h =
     (case tick h of (now, h) \<Rightarrow> on_reg (reg_insert now ts deadline e) h)"

definition remove_request :: "u64 \<Rightarrow> cmd_handler \<Rightarrow> request_entry option \<times> cmd_handler" where
  "remove_request ts h =
     (case tick h of (now, h) \<Rightarrow>
       (case reg_remove now ts (h_reg h) of (e, r) \<Rightarrow> (e, h\<lparr>h_reg := r\<rparr>)))"

text \<open>
  \<open>add_interest\<close> and \<open>remove_interest\<close> with their errors ignored: on the invalid descriptor
  nothing happens. \<open>epoll_fd.unwrap()\<close> panics inside a transaction.
\<close>

definition add_interest :: "bool \<Rightarrow> u64 \<Rightarrow> cmd_handler \<Rightarrow> cmd_handler" where
  "add_interest ok fd h = (if ok then h\<lparr>h_epoll := hs_insert fd (h_epoll h)\<rparr> else h)"

definition remove_interest :: "bool \<Rightarrow> u64 \<Rightarrow> cmd_handler \<Rightarrow> cmd_handler" where
  "remove_interest ok fd h = (if ok then h\<lparr>h_epoll := hs_remove fd (h_epoll h)\<rparr> else h)"

definition extract_deadline :: "cmd_arg option \<Rightarrow> cmd_handler \<Rightarrow> cmd_handler \<times> u64 option cres" where
  "extract_deadline opt h =
     (case opt of
        None \<Rightarrow> (h, Ok None)
      | Some arg \<Rightarrow>
          (case tick h of (now, h) \<Rightarrow>
            (h, (case arg of
                   ArgEX x \<Rightarrow> rbind (unwrap x) (\<lambda>x. Ok (Some (now div 1000 + x)))
                 | ArgPX x \<Rightarrow> rbind (unwrap x) (\<lambda>x. Ok (Some (now + x)))
                 | _ \<Rightarrow> Ok None))))"

definition get_deadline :: "u64 option \<Rightarrow> cmd_handler \<Rightarrow> (u64 \<times> u64) \<times> cmd_handler" where
  "get_deadline timeout h =
     (case tick h of (now, h) \<Rightarrow>
       ((now, (case timeout of Some t \<Rightarrow> now + t | None \<Rightarrow> 0)), h))"

section \<open>Replies\<close>

definition reply :: "resp_type \<Rightarrow> reply" where
  "reply r = Ok (Some r)"

definition response_ok :: resp_type where
  "response_ok = SimpleStr (Some ''OK'')"

definition int_reply :: "int \<Rightarrow> resp_type" where
  "int_reply i = Integer (Some i)"

text \<open>
  An array that starts with \<open>value: None\<close> and is filled with \<open>add_item\<close>: without items it
  stays the null array. The length is the one it was created with.
\<close>

definition built :: "nat \<Rightarrow> resp_type list \<Rightarrow> resp_type" where
  "built n xs = fold (\<lambda>x r. add_item r x) xs (Array n None)"

definition empty_arr :: resp_type where
  "empty_arr = Array 0 (Some [])"

definition unsupported :: "string \<Rightarrow> custom_error" where
  "unsupported k = UnsupportedCmd (''Unsupported command '' @ k)"

definition wrong_type :: custom_error where
  "wrong_type = UnprocessableError ''Wrong type''"

definition crlf :: string where
  "crlf = [CHR 0x0D, CHR 0x0A]"

lemma fold_add_item: "fold (\<lambda>x r. add_item r x) xs (Array n (Some ys)) = Array n (Some (ys @ xs))"
  by (induction xs arbitrary: ys) auto

lemma built_eq: "built n xs = Array n (if xs = [] then None else Some xs)"
  by (cases xs) (simp_all add: built_def fold_add_item)

lemma built_arr: "xs \<noteq> [] \<Longrightarrow> built (length xs) xs = arr xs"
  by (simp add: built_eq arr_def)

section \<open>Frames\<close>

lemma look_put [simp]: "look k' (put k i h) = (if k' = k then Some i else look k' h)"
  by (simp add: look_def put_def)

lemma look_put_value [simp]:
  "look k' (put_value k i v h) = (if k' = k then Some (i\<lparr>item_value := v\<rparr>) else look k' h)"
  by (simp add: put_value_def)

lemma tick_simps [simp]: "h_data (snd (tick h)) = h_data h" "look k (snd (tick h)) = look k h"
  "h_reg (snd (tick h)) = h_reg h" "h_queue (snd (tick h)) = h_queue h"
  by (simp_all add: tick_def look_def)

lemma look_or_insert:
  "look k' (fst (or_insert k v h)) =
     (if k' = k then Some (case look k h of Some i \<Rightarrow> i | None \<Rightarrow> item v None) else look k' h)"
  "snd (or_insert k v h) = (case look k h of Some i \<Rightarrow> i | None \<Rightarrow> item v None)"
  by (auto simp: or_insert_def split: option.splits)

end
