(* ===== verification/StringCmds.thy ===== *)
theory StringCmds
  imports HandlerState
begin

text \<open>
  The commands on string values, and those that only look at the key space: PING, ECHO, SET,
  GET, INCR, TYPE and KEYS of \<open>src/src/commands/cmd_handler.rs\<close>.
\<close>

definition cmd_ping :: "bool \<Rightarrow> reply" where
  "cmd_ping is_subscriber =
     (if \<not> is_subscriber then reply (SimpleStr (Some ''PONG''))
      else reply (built 2 [BulkStr 4 (Some (to_ascii_lower ''PONG'')), BulkStr 0 (Some '''')]))"

definition cmd_echo :: "string \<Rightarrow> reply" where
  "cmd_echo s = reply (bulk s)"

definition cmd_set :: "string \<Rightarrow> string \<Rightarrow> cmd_arg option \<Rightarrow> cmd_handler \<Rightarrow> cmd_handler \<times> reply" where
  "cmd_set key v opt h =
     (case extract_deadline opt h of
        (h, Ok e) \<Rightarrow> (put key (item (VStr v) e) h, reply response_ok)
      | (h, Err e) \<Rightarrow> (h, Err e)
      | (h, Panic) \<Rightarrow> (h, Panic))"

text \<open>An expired key stays in the map. The clock is read only for a key that can expire.\<close>

definition cmd_get :: "string \<Rightarrow> cmd_handler \<Rightarrow> cmd_handler \<times> reply" where
  "cmd_get key h =
     (case look key h of
        None \<Rightarrow> (h, reply nil_bulk)
      | Some i \<Rightarrow>
          (case item_value i of
             VStr s \<Rightarrow>
               (case expired_at i of
                  None \<Rightarrow> (h, reply (bulk s))
                | Some x \<Rightarrow>
                    (case tick h of (now, h) \<Rightarrow> (h, reply (if x < now then nil_bulk else bulk s))))
           | VBitmap b \<Rightarrow> (h, reply (bulk_bytes (bitmap_chars b)))
           | _ \<Rightarrow> (h, Err (unsupported key))))"

definition incr_error :: custom_error where
  "incr_error = UnprocessableError ''ERR value is not an integer or out of range''"

definition cmd_incr :: "string \<Rightarrow> cmd_handler \<Rightarrow> cmd_handler \<times> reply" where
  "cmd_incr key h =
     (case or_insert key (VStr ''0'') h of
        (h, i) \<Rightarrow>
          (case item_value i of
             VStr s \<Rightarrow>
               (case parse_i64 s of
                  Ok x \<Rightarrow>
                    (if x < 2 ^ 63 - 1
                     then (put_value key i (VStr (show_int (x + 1))) h, reply (int_reply (x + 1)))
                     else (h, Err (UnprocessableError ''Integer overflow'')))
                | _ \<Rightarrow> (h, Err incr_error))
           | _ \<Rightarrow> (h, Err incr_error)))"

definition cmd_type :: "string \<Rightarrow> cmd_handler \<Rightarrow> reply" where
  "cmd_type key h =
     reply (SimpleStr (Some (case look key h of Some i \<Rightarrow> get_type (item_value i) | None \<Rightarrow> ''none'')))"

definition cmd_keys :: "string \<Rightarrow> cmd_handler \<Rightarrow> reply" where
  "cmd_keys a h =
     (if a = ''*'' then reply (built (length (h_data h)) (map bulk (hm_keys (h_data h))))
      else Err (InvalidArgument ''Invalid arg for KEYS''))"

section \<open>What they do\<close>

lemma cmd_set_plain: "cmd_set k v None h = (put k (item (VStr v) None) h, reply response_ok)"
  by (simp add: cmd_set_def extract_deadline_def)

lemma cmd_set_px:
  "cmd_set k v (Some (ArgPX (Some t))) h =
     (case tick h of (now, h1) \<Rightarrow> (put k (item (VStr v) (Some (now + t))) h1, reply response_ok))"
  by (simp add: cmd_set_def extract_deadline_def split: prod.splits)

lemma cmd_set_ex:
  "cmd_set k v (Some (ArgEX (Some t))) h =
     (case tick h of (now, h1) \<Rightarrow> (put k (item (VStr v) (Some (now div 1000 + t))) h1, reply response_ok))"
  by (simp add: cmd_set_def extract_deadline_def split: prod.splits)

lemma cmd_get_str:
  "look k h = Some (item (VStr s) None) \<Longrightarrow> cmd_get k h = (h, reply (bulk s))"
  by (simp add: cmd_get_def)

lemma cmd_get_expiring:
  "look k h = Some (item (VStr s) (Some x)) \<Longrightarrow>
   snd (cmd_get k h) = reply (if x < fst (tick h) then nil_bulk else bulk s)"
  by (simp add: cmd_get_def split: prod.splits)

text \<open>A string stored by SET with PX is read back exactly until its deadline.\<close>

lemma set_px_get:
  fixes h :: cmd_handler
  defines "now \<equiv> h_clock h (h_reads h)" and "now' \<equiv> h_clock h (Suc (h_reads h))"
  shows "snd (cmd_get k (fst (cmd_set k v (Some (ArgPX (Some t))) h))) =
     reply (if now + t < now' then nil_bulk else bulk v)"
  by (simp add: cmd_set_px cmd_get_def tick_def put_def look_def now_def now'_def)

lemma set_ex_get:
  fixes h :: cmd_handler
  defines "now \<equiv> h_clock h (h_reads h)" and "now' \<equiv> h_clock h (Suc (h_reads h))"
  shows "snd (cmd_get k (fst (cmd_set k v (Some (ArgEX (Some t))) h))) =
     reply (if now div 1000 + t < now' then nil_bulk else bulk v)"
  by (simp add: cmd_set_ex cmd_get_def tick_def put_def look_def now_def now'_def)

lemma cmd_get_look: "look k' (fst (cmd_get k h)) = look k' h"
  by (auto simp: cmd_get_def tick_def look_def split: option.splits store_value.splits)

lemma cmd_incr_next:
  assumes "look k h = Some i" "item_value i = VStr (show_int x)" "i64_range x" "x < 2 ^ 63 - 1"
  shows "cmd_incr k h = (put_value k i (VStr (show_int (x + 1))) h, reply (int_reply (x + 1)))"
  using assms by (simp add: cmd_incr_def or_insert_def parse_i64_show_int)

lemma cmd_incr_fresh:
  assumes "look k h = None"
  shows "snd (cmd_incr k h) = reply (int_reply 1)"
    and "look k (fst (cmd_incr k h)) = Some (item (VStr ''1'') None)"
proof -
  have p: "parse_i64 ''0'' = Ok 0" and s: "show_int 1 = ''1''"
    by code_simp+
  show "snd (cmd_incr k h) = reply (int_reply 1)"
    "look k (fst (cmd_incr k h)) = Some (item (VStr ''1'') None)"
    using assms by (simp_all add: cmd_incr_def or_insert_def p s put_value_def item_def)
qed

text \<open>\<open>n\<close> increments in a row count up by one each.\<close>

fun incr_times :: "nat \<Rightarrow> string \<Rightarrow> cmd_handler \<Rightarrow> cmd_handler" where
  "incr_times 0 k h = h"
| "incr_times (Suc n) k h = incr_times n k (fst (cmd_incr k h))"

lemma incr_times_value:
  assumes "look k h = Some (item (VStr (show_int x)) e)" "i64_range x" "x + int n < 2 ^ 63"
  shows "look k (incr_times n k h) = Some (item (VStr (show_int (x + int n))) e)"
  using assms
proof (induction n arbitrary: x h)
  case (Suc n)
  have "cmd_incr k h = (put_value k (item (VStr (show_int x)) e) (VStr (show_int (x + 1))) h,
      reply (int_reply (x + 1)))"
    using Suc.prems by (intro cmd_incr_next) auto
  then have "look k (fst (cmd_incr k h)) = Some (item (VStr (show_int (x + 1))) e)"
    by (simp add: item_def)
  moreover have "i64_range (x + 1)" "x + 1 + int n < 2 ^ 63"
    using Suc.prems by (auto simp: i64_range_def)
  ultimately have "look k (incr_times n k (fst (cmd_incr k h))) =
      Some (item (VStr (show_int (x + 1 + int n))) e)"
    by (rule Suc.IH)
  then show ?case by (simp add: algebra_simps)
qed simp

text \<open>A value that is no integer, or the largest one, is refused and kept.\<close>

lemma cmd_incr_err_keeps:
  assumes "snd (cmd_incr k h) = Err e"
  shows "look k' (fst (cmd_incr k h)) = look k' h"
proof -
  have p: "parse_i64 ''0'' = Ok 0" by code_simp
  show ?thesis
    using assms p
    by (auto simp: cmd_incr_def or_insert_def reply_def
        split: option.splits store_value.splits result.splits if_splits)
qed

lemma cmd_keys_all:
  "h_data h \<noteq> [] \<Longrightarrow> cmd_keys ''*'' h = reply (arr (map bulk (hm_keys (h_data h))))"
  by (simp add: cmd_keys_def built_eq arr_def hm_keys_def)

end
