(* ===== verification/ListCmds.thy ===== *)
theory ListCmds
  imports StringCmds
begin

text \<open>
  The commands on lists: RPUSH, LPUSH, LRANGE, LLEN, LPOP and the blocking BLPOP, with the
  task BLPOP leaves for later.
\<close>

definition cmd_rpush :: "string \<Rightarrow> string list \<Rightarrow> cmd_handler \<Rightarrow> cmd_handler \<times> reply" where
  "cmd_rpush key vs h =
     (case or_insert key (VList []) h of
        (h, i) \<Rightarrow>
          (case item_value i of
             VList xs \<Rightarrow> (put_value key i (VList (xs @ vs)) h, reply (int_reply (int (length (xs @ vs)))))
           | _ \<Rightarrow> (h, Err (unsupported key))))"

definition cmd_lpush :: "string \<Rightarrow> string list \<Rightarrow> cmd_handler \<Rightarrow> cmd_handler \<times> reply" where
  "cmd_lpush key vs h =
     (case or_insert key (VList []) h of
        (h, i) \<Rightarrow>
          (case item_value i of
             VList xs \<Rightarrow>
               (let ys = fold (\<lambda>v l. v # l) vs xs in
                (put_value key i (VList ys) h, reply (int_reply (int (length ys)))))
           | _ \<Rightarrow> (h, Err (unsupported key))))"

text \<open>
  The index arithmetic of LRANGE in \<open>i64\<close> and \<open>usize\<close>: \<open>list.len() - 1\<close> of an empty
  list is the largest \<open>usize\<close>, and so is \<open>-1 as usize\<close>.
\<close>

definition lrange_window :: "int \<Rightarrow> int \<Rightarrow> nat \<Rightarrow> nat \<times> nat" where
  "lrange_window start stop n =
     (let start_abs = (if start < 0 then max (int n + start) 0 else start);
          stop_abs = (if stop < 0 then max (int n + stop) 0 else stop);
          max_index = as_usize (min stop_abs (int n - 1));
          min_index = as_usize (min start_abs (int n - 1))
      in (min_index, if max_index < min_index then 0 else max_index - min min_index max_index + 1))"

definition lrange_reply :: "int \<Rightarrow> int \<Rightarrow> string list \<Rightarrow> resp_type" where
  "lrange_reply start stop xs =
     (if stop < start \<and> 0 < start \<and> 0 < stop then empty_arr
      else if 0 \<le> start \<and> (if xs = [] then 2 ^ 64 - 1 else length xs - 1) < as_usize start then empty_arr
      else
        (case lrange_window start stop (length xs) of
           (min_index, output_len) \<Rightarrow>
             if output_len = 0 then empty_arr
             else fold (\<lambda>s r. add_item r (bulk s)) (take output_len (drop min_index xs))
                    (Array output_len (Some []))))"

definition cmd_lrange :: "string \<Rightarrow> int \<Rightarrow> int \<Rightarrow> cmd_handler \<Rightarrow> reply" where
  "cmd_lrange key start stop h =
     (case look key h of
        None \<Rightarrow> reply empty_arr
      | Some i \<Rightarrow>
          (case item_value i of
             VList xs \<Rightarrow> reply (lrange_reply start stop xs)
           | _ \<Rightarrow> Err (unsupported key)))"

definition cmd_llen :: "string \<Rightarrow> cmd_handler \<Rightarrow> reply" where
  "cmd_llen key h =
     (case look key h of
        None \<Rightarrow> reply (int_reply 0)
      | Some i \<Rightarrow>
          (case item_value i of
             VList xs \<Rightarrow> reply (int_reply (int (length xs)))
           | _ \<Rightarrow> Err (unsupported key)))"

definition cmd_lpop :: "string \<Rightarrow> nat option \<Rightarrow> cmd_handler \<Rightarrow> cmd_handler \<times> reply" where
  "cmd_lpop key len h =
     (case look key h of
        None \<Rightarrow> (h, reply nil_bulk)
      | Some i \<Rightarrow>
          (case item_value i of
             VList xs \<Rightarrow>
               (case len of
                  Some x \<Rightarrow>
                    (let n = min x (length xs) in
                     (put_value key i (VList (drop n xs)) h, reply (built n (map bulk (take n xs)))))
                | None \<Rightarrow>
                    (case xs of
                       s # xs' \<Rightarrow> (put_value key i (VList xs') h, reply (bulk s))
                     | [] \<Rightarrow> (h, reply nil_bulk)))
           | _ \<Rightarrow> (h, Err (unsupported key))))"

section \<open>BLPOP\<close>

definition blpop_item :: "string \<Rightarrow> string \<Rightarrow> resp_type" where
  "blpop_item key s = built 2 [bulk key, bulk s]"

text \<open>The task of a served request, and the one of a request whose time is up.\<close>

definition blpop_backlog_task :: "string \<Rightarrow> u64 \<Rightarrow> u64 \<Rightarrow> cmd_handler \<Rightarrow> cmd_handler" where
  "blpop_backlog_task key client ts h =
     (case look key h of
        None \<Rightarrow> h
      | Some i \<Rightarrow>
          (case item_value i of
             VList (s # xs) \<Rightarrow>
               snd (remove_request ts (push client (ser (blpop_item key s)) (put_value key i (VList xs) h)))
           | _ \<Rightarrow> h))"

definition null_deadline_task :: "u64 \<Rightarrow> u64 \<Rightarrow> cmd_handler \<Rightarrow> cmd_handler" where
  "null_deadline_task client ts h = snd (remove_request ts (push client (ser null_arr) h))"

definition cmd_blpop :: "string \<Rightarrow> u64 option \<Rightarrow> u64 \<Rightarrow> cmd_handler \<Rightarrow> cmd_handler \<times> reply" where
  "cmd_blpop key timeout client h =
     (case get_deadline timeout h of
        ((ts, deadline), h) \<Rightarrow>
          (let wait = insert_request ts deadline (ListReq key deadline client ts) h in
           (case look key h of
              Some i \<Rightarrow>
                (case item_value i of
                   VList xs \<Rightarrow>
                     (if is_backlog_list_empty key (h_reg h) \<and> xs \<noteq> []
                      then (put_value key i (VList (tl xs)) h, reply (blpop_item key (hd xs)))
                      else (wait, Ok None))
                 | _ \<Rightarrow> (h, Err (unsupported key)))
            | None \<Rightarrow> (wait, Ok None))))"

section \<open>What they do\<close>

lemma fold_push_front: "fold (\<lambda>v l. v # l) vs xs = rev vs @ xs"
  by (induction vs arbitrary: xs) auto

text \<open>The list stored at a key: absent and empty are the same to a client.\<close>

definition list_at :: "string \<Rightarrow> cmd_handler \<Rightarrow> string list option" where
  "list_at k h =
     (case look k h of
        None \<Rightarrow> Some []
      | Some i \<Rightarrow> (case item_value i of VList xs \<Rightarrow> Some xs | _ \<Rightarrow> None))"

lemma list_at_put_value [simp]:
  "list_at k (put_value k' i v h) =
     (if k = k' then (case v of VList xs \<Rightarrow> Some xs | _ \<Rightarrow> None) else list_at k h)"
  by (simp add: list_at_def)

lemma list_at_push [simp]: "list_at k (push c b h) = list_at k h"
  by (simp add: list_at_def look_def push_def)

lemma look_push [simp]: "look k (push c b h) = look k h"
  by (simp add: look_def push_def)

lemma rpush_list_at:
  "list_at k h = Some xs \<Longrightarrow>
   list_at k (fst (cmd_rpush k vs h)) = Some (xs @ vs) \<and>
   snd (cmd_rpush k vs h) = reply (int_reply (int (length xs + length vs)))"
  by (auto simp: list_at_def cmd_rpush_def or_insert_def put_value_def
      split: option.splits store_value.splits)

lemma lpush_list_at:
  "list_at k h = Some xs \<Longrightarrow>
   list_at k (fst (cmd_lpush k vs h)) = Some (rev vs @ xs) \<and>
   snd (cmd_lpush k vs h) = reply (int_reply (int (length vs + length xs)))"
  by (auto simp: list_at_def cmd_lpush_def or_insert_def put_value_def fold_push_front Let_def
      split: option.splits store_value.splits)

lemma push_wrong_type:
  "list_at k h = None \<Longrightarrow> cmd_rpush k vs h = (h, Err (unsupported k))"
  "list_at k h = None \<Longrightarrow> cmd_lpush k vs h = (h, Err (unsupported k))"
  by (auto simp: list_at_def cmd_rpush_def cmd_lpush_def or_insert_def
      split: option.splits store_value.splits)

lemma push_other_key:
  "k' \<noteq> k \<Longrightarrow> look k' (fst (cmd_rpush k vs h)) = look k' h"
  "k' \<noteq> k \<Longrightarrow> look k' (fst (cmd_lpush k vs h)) = look k' h"
  "k' \<noteq> k \<Longrightarrow> look k' (fst (cmd_lpop k n h)) = look k' h"
  by (auto simp: cmd_rpush_def cmd_lpush_def cmd_lpop_def or_insert_def Let_def
      split: option.splits store_value.splits list.splits)

lemma lpop_one:
  "list_at k h = Some xs \<Longrightarrow>
   list_at k (fst (cmd_lpop k None h)) = Some (tl xs) \<and>
   snd (cmd_lpop k None h) = reply (case xs of [] \<Rightarrow> nil_bulk | x # _ \<Rightarrow> bulk x)"
  by (auto simp: list_at_def cmd_lpop_def put_value_def split: option.splits store_value.splits list.splits)

lemma lpop_many:
  "look k h = Some i \<Longrightarrow> item_value i = VList xs \<Longrightarrow> 0 < n \<Longrightarrow> xs \<noteq> [] \<Longrightarrow>
   list_at k (fst (cmd_lpop k (Some n) h)) = Some (drop n xs) \<and>
   snd (cmd_lpop k (Some n) h) = reply (arr (map bulk (take n xs)))"
  by (cases n) (auto simp: list_at_def cmd_lpop_def put_value_def built_eq arr_def Let_def
      take_min_length drop_min_length neq_Nil_conv min.commute)

lemma llen_list_at: "list_at k h = Some xs \<Longrightarrow> cmd_llen k h = reply (int_reply (int (length xs)))"
  by (auto simp: list_at_def cmd_llen_def split: option.splits store_value.splits)

section \<open>LRANGE is the clamped slice\<close>

text \<open>Negative indices count from the end and stop at the front.\<close>

definition clamp :: "nat \<Rightarrow> int \<Rightarrow> nat" where
  "clamp n i = nat (if i < 0 then max (int n + i) 0 else i)"

definition clamped :: "int \<Rightarrow> int \<Rightarrow> 'a list \<Rightarrow> 'a list" where
  "clamped start stop xs = drop (clamp (length xs) start) (take (Suc (clamp (length xs) stop)) xs)"

lemma fold_add_bulk:
  "fold (\<lambda>s r. add_item r (bulk s)) ss (Array n (Some ys)) = Array n (Some (ys @ map bulk ss))"
  by (induction ss arbitrary: ys) auto

lemma as_usize_nat: "0 \<le> i \<Longrightarrow> i < 2 ^ 64 \<Longrightarrow> as_usize i = nat i"
  by (simp add: as_usize_def)

lemma as_usize_int: "n < 2 ^ 64 \<Longrightarrow> as_usize (int n) = n"
  by (simp add: as_usize_nat)

lemma lrange_window_clamp:
  assumes "clamp n start < n" "n < 2 ^ 63"
  shows "lrange_window start stop n = (clamp n start, min (Suc (clamp n stop)) n - clamp n start)"
proof -
  define a where "a = (if start < 0 then max (int n + start) 0 else start)"
  define b where "b = (if stop < 0 then max (int n + stop) 0 else stop)"
  define s where "s = clamp n start"
  define e where "e = clamp n stop"
  have sn: "s < n" using assms(1) by (simp add: s_def)
  have ab: "s = nat a" "e = nat b" "0 \<le> b" by (auto simp: s_def e_def clamp_def a_def b_def)
  have a0: "0 \<le> a \<or> s = 0" by (auto simp: ab(1))
  have big: "n < 2 ^ 64" by (rule less_trans [OF assms(2)]) simp
  have "0 \<le> start \<or> 0 \<le> a" by (simp add: a_def)
  then have "0 \<le> a" by (auto simp: a_def)
  then have "min a (int n - 1) = int s" using ab(1) sn by linarith
  then have mi: "as_usize (min a (int n - 1)) = s"
    using as_usize_int [of s] less_trans [OF sn big] by metis
  have "min b (int n - 1) = int (min e (n - 1))" using ab(2,3) sn by linarith
  moreover have "min e (n - 1) < 2 ^ 64" using big by linarith
  ultimately have ma: "as_usize (min b (int n - 1)) = min e (n - 1)"
    using as_usize_int [of "min e (n - 1)"] by simp
  have "(if min e (n - 1) < s then 0 else min e (n - 1) - min s (min e (n - 1)) + 1) = min (Suc e) n - s"
  proof -
    obtain m where m: "n = Suc m" using sn by (cases n) auto
    then have sm: "s \<le> m" using sn by simp
    define q where "q = min e m"
    have "min (Suc e) n = Suc q" "min e (n - 1) = q" by (simp_all add: m q_def)
    moreover have "min s q = s" if "\<not> q < s" using that by simp
    ultimately show ?thesis by (cases "q < s") auto
  qed
  then show ?thesis
    unfolding lrange_window_def Let_def a_def [symmetric] b_def [symmetric] mi ma
      s_def [symmetric] e_def [symmetric]
    by simp
qed

lemma clamped_window:
  "clamped start stop xs = take (min (Suc (clamp (length xs) stop)) (length xs) - clamp (length xs) start)
     (drop (clamp (length xs) start) xs)"
  by (simp add: clamped_def drop_take [symmetric] take_min_length)

lemma length_clamped:
  "length (clamped start stop xs) = min (Suc (clamp (length xs) stop)) (length xs) - clamp (length xs) start"
  by (simp add: clamped_def min.commute)

lemma lrange_slice:
  assumes "xs \<noteq> []" "length xs < 2 ^ 63" "i64_range start"
  shows "lrange_reply start stop xs = arr (map bulk (clamped start stop xs))"
proof -
  have us: "0 \<le> start \<Longrightarrow> as_usize start = clamp (length xs) start"
    using assms(3) as_usize_nat [of start] by (simp add: i64_range_def clamp_def)
  consider (crossed) "stop < start \<and> 0 < start \<and> 0 < stop"
    | (past) "\<not> (stop < start \<and> 0 < start \<and> 0 < stop)" "0 \<le> start" "length xs - 1 < as_usize start"
    | (inside) "\<not> (stop < start \<and> 0 < start \<and> 0 < stop)" "\<not> (0 \<le> start \<and> length xs - 1 < as_usize start)"
    by blast
  then show ?thesis
  proof cases
    case crossed
    then have "Suc (clamp (length xs) stop) \<le> clamp (length xs) start"
      by (simp add: clamp_def) linarith
    then have "clamped start stop xs = []" by (simp add: clamped_def)
    with crossed show ?thesis by (simp add: lrange_reply_def empty_arr_def arr_def)
  next
    case past
    then have "clamped start stop xs = []" using us by (simp add: clamped_def)
    with past assms(1) show ?thesis unfolding lrange_reply_def by (simp add: empty_arr_def arr_def)
  next
    case inside
    have "clamp (length xs) start < length xs"
    proof (cases "0 \<le> start")
      case True
      with inside(2) us assms(1) show ?thesis by (cases xs) auto
    next
      case False
      moreover have "0 < length xs" using assms(1) by simp
      ultimately show ?thesis by (simp add: clamp_def nat_less_iff)
    qed
    then have "lrange_window start stop (length xs) =
        (clamp (length xs) start, length (clamped start stop xs))"
      using assms(2) by (simp only: lrange_window_clamp length_clamped)
    moreover have "take (length (clamped start stop xs)) (drop (clamp (length xs) start) xs) = clamped start stop xs"
      by (simp only: length_clamped clamped_window [symmetric])
    ultimately show ?thesis
      using inside assms(1) unfolding lrange_reply_def
      by (simp add: fold_add_bulk arr_def empty_arr_def)
  qed
qed

lemma cmd_lrange_slice:
  assumes "list_at k h = Some xs" "xs \<noteq> []" "length xs < 2 ^ 63" "i64_range start"
  shows "cmd_lrange k start stop h = reply (arr (map bulk (clamped start stop xs)))"
  using assms lrange_slice [OF assms(2-4)]
  by (auto simp: list_at_def cmd_lrange_def split: option.splits store_value.splits)

text \<open>On a list emptied by LPOP the reply announces one element and has none.\<close>

lemma lrange_emptied: "0 \<le> stop \<Longrightarrow> lrange_reply 0 stop [] = Array 1 (Some [])"
  by (simp add: lrange_reply_def lrange_window_def as_usize_def Let_def)

section \<open>BLPOP waits\<close>

text \<open>
  The branch that serves at once asks for an existing and empty queue of waiting clients. A
  queue that becomes empty is removed, so the branch is never taken.
\<close>

lemma cmd_blpop_waits:
  assumes "list_at k h = Some xs" "\<not> is_backlog_list_empty k (h_reg h)"
  shows "snd (cmd_blpop k t c h) = Ok None" and "list_at k (fst (cmd_blpop k t c h)) = Some xs"
  using assms
  by (auto simp: cmd_blpop_def get_deadline_def list_at_def look_def insert_request_def on_reg_def tick_def
      split: option.splits store_value.splits)

lemma blpop_task_serves:
  assumes "list_at k h = Some (s # xs)"
  shows "list_at k (blpop_backlog_task k c ts h) = Some xs"
    and "h_queue (blpop_backlog_task k c ts h) = h_queue h @ [(c, ser (arr [bulk k, bulk s]))]"
  using assms
  by (auto simp: list_at_def blpop_backlog_task_def remove_request_def look_def tick_def push_def
      put_value_def put_def blpop_item_def built_eq arr_def numeral_2_eq_2
      split: option.splits store_value.splits prod.splits list.splits)

end
