(* ===== verification/StreamCmds.thy ===== *)
theory StreamCmds
  imports ListCmds
begin

text \<open>
  The commands on streams: XADD, XRANGE and the possibly blocking XREAD, with the task XREAD
  leaves for later.
\<close>

definition xadd_last_error :: custom_error where
  "xadd_last_error = InvalidArgument
     ''ERR The ID specified in XADD is equal or smaller than the target stream top item''"

definition xadd_zero_error :: custom_error where
  "xadd_zero_error = InvalidArgument ''ERR The ID specified in XADD must be greater than 0-0''"

definition xadd_format_error :: custom_error where
  "xadd_format_error = InvalidArgument ''ERR Invalid stream id format''"

text \<open>
  The id of a new entry from the id the client gave. \<open>i_last + 1\<close> wraps around. The clock
  is read for \<open>*\<close> only.
\<close>

definition xadd_id :: "u64 option \<times> u64 option \<Rightarrow> u64 \<Rightarrow> stream \<Rightarrow> stream_id cres" where
  "xadd_id i now b =
     (case i of
        (Some t, Some s) \<Rightarrow>
          (if t = 0 \<and> s = 0 then Err xadd_zero_error
           else (case bt_last b of
               Some ((t_last, i_last), _) \<Rightarrow>
                 if t_last < t \<or> t = t_last \<and> i_last < s then Ok (t, s) else Err xadd_last_error
             | None \<Rightarrow> Ok (t, s)))
      | (Some t, None) \<Rightarrow>
          (case bt_last b of
             Some ((t_last, i_last), _) \<Rightarrow>
               if t = t_last then Ok (t, i_last + 1)
               else if t_last < t then Ok (t, 0)
               else Err xadd_format_error
           | None \<Rightarrow> Ok (if t = 0 then (t, 1) else (t, 0)))
      | (None, None) \<Rightarrow> Ok (now, 0)
      | (None, Some _) \<Rightarrow> Err xadd_format_error)"

definition xadd_clock :: "u64 option \<times> u64 option \<Rightarrow> cmd_handler \<Rightarrow> u64 \<times> cmd_handler" where
  "xadd_clock i h = (if i = (None, None) then tick h else (0, h))"

definition show_stream_id :: "stream_id \<Rightarrow> string" where
  "show_stream_id i = show_u64 (fst i) @ ''-'' @ show_u64 (snd i)"

definition cmd_xadd ::
  "string \<Rightarrow> u64 option \<times> u64 option \<Rightarrow> string list \<Rightarrow> cmd_handler \<Rightarrow> cmd_handler \<times> reply" where
  "cmd_xadd key i vs h =
     (case or_insert key (VStream []) h of
        (h, it) \<Rightarrow>
          (case item_value it of
             VStream b \<Rightarrow>
               (case xadd_clock i h of
                  (now, h) \<Rightarrow>
                    (case xadd_id i now b of
                       Ok sid \<Rightarrow>
                         (put_value key it (VStream (bt_insert sid vs b)) h,
                          reply (bulk (show_stream_id sid)))
                     | Err e \<Rightarrow> (h, Err e)
                     | Panic \<Rightarrow> (h, Panic)))
           | _ \<Rightarrow> (h, Err (unsupported key))))"

definition filled :: "resp_type list \<Rightarrow> resp_type" where
  "filled xs = fold (\<lambda>x r. add_item r x) xs (Array (length xs) (Some []))"

definition get_resp_stream_entity :: "(stream_id \<times> string list) list \<Rightarrow> resp_type list" where
  "get_resp_stream_entity kvs =
     map (\<lambda>(k, v). fold (\<lambda>x r. add_item r x) [bulk (show_stream_id k), filled (map bulk v)] (Array 2 (Some []))) kvs"

definition cmd_xrange :: "string \<Rightarrow> stream_id \<Rightarrow> stream_id \<Rightarrow> cmd_handler \<Rightarrow> reply" where
  "cmd_xrange key start end_id h =
     (case look key h of
        None \<Rightarrow> reply empty_arr
      | Some it \<Rightarrow>
          (case item_value it of
             VStream b \<Rightarrow>
               rbind (bt_range start end_id b) (\<lambda>kvs. reply (filled (get_resp_stream_entity kvs)))
           | _ \<Rightarrow> Err (unsupported key)))"

section \<open>XREAD\<close>

definition stream_entry :: "stream_id \<times> string list \<Rightarrow> resp_type" where
  "stream_entry kv =
     (case kv of (k, v) \<Rightarrow> built 2 [bulk (show_stream_id k), built (length v) (map bulk v)])"

definition extract_stream_entries :: "string \<Rightarrow> u64 \<Rightarrow> stream_id \<Rightarrow> cmd_handler \<Rightarrow> resp_type option" where
  "extract_stream_entries key count after h =
     (case look key h of
        None \<Rightarrow> None
      | Some it \<Rightarrow>
          (let entries = (case item_value it of
               VStream b \<Rightarrow> take (unat count) (bt_range_after after b) | _ \<Rightarrow> [])
           in if entries = [] then None else Some (filled (map stream_entry entries))))"

definition is_stream_avail :: "string \<Rightarrow> stream_id \<Rightarrow> cmd_handler \<Rightarrow> bool" where
  "is_stream_avail key after h =
     (case look key h of
        None \<Rightarrow> False
      | Some it \<Rightarrow> (case item_value it of VStream b \<Rightarrow> bt_range_after after b \<noteq> [] | _ \<Rightarrow> False))"

text \<open>\<open>$\<close> stands for the last id of the stream at the time of the call.\<close>

definition resolve_last :: "cmd_handler \<Rightarrow> string \<times> u64 \<times> u64 \<Rightarrow> string \<times> u64 \<times> u64" where
  "resolve_last h s =
     (case s of (key, i) \<Rightarrow>
        if i = (- 1, - 1)
        then (key,
          (case look key h of
             Some it \<Rightarrow>
               (case item_value it of
                  VStream b \<Rightarrow> (case bt_last b of Some (k, _) \<Rightarrow> k | None \<Rightarrow> (0, 0))
                | _ \<Rightarrow> (0, 0))
           | None \<Rightarrow> (0, 0)))
        else s)"

definition stream_typed :: "cmd_handler \<Rightarrow> string \<Rightarrow> bool" where
  "stream_typed h key =
     (case look key h of
        None \<Rightarrow> True
      | Some it \<Rightarrow> (case item_value it of VStream _ \<Rightarrow> True | _ \<Rightarrow> False))"

definition xread_found ::
  "u64 option \<Rightarrow> (string \<times> u64 \<times> u64) list \<Rightarrow> cmd_handler \<Rightarrow> (string \<times> resp_type) list" where
  "xread_found count streams h =
     List.map_filter (\<lambda>(key, i).
       map_option (\<lambda>r. (key, r)) (extract_stream_entries key (case count of Some c \<Rightarrow> c | None \<Rightarrow> - 1) i h)) streams"

definition xread_arr :: "(string \<times> resp_type) list \<Rightarrow> resp_type" where
  "xread_arr found = built (length found) (map (\<lambda>(key, r). built 2 [bulk key, r]) found)"

definition xread_backlog_task ::
  "u64 option \<Rightarrow> (string \<times> u64 \<times> u64) list \<Rightarrow> u64 \<Rightarrow> u64 \<Rightarrow> cmd_handler \<Rightarrow> cmd_handler" where
  "xread_backlog_task count streams client ts h =
     (let found = xread_found count streams h in
      if found = [] then push client (ser null_arr) h
      else snd (remove_request ts (push client (ser (xread_arr found)) h)))"

definition cmd_xread ::
  "u64 option \<Rightarrow> u64 option \<Rightarrow> (string \<times> u64 \<times> u64) list \<Rightarrow> u64 \<Rightarrow> cmd_handler \<Rightarrow> cmd_handler \<times> reply" where
  "cmd_xread count block streams client h =
     (case filter (\<lambda>(key, _). \<not> stream_typed h key) streams of
        (key, _) # _ \<Rightarrow> (h, Err (unsupported key))
      | [] \<Rightarrow>
          (let streams = map (resolve_last h) streams; found = xread_found count streams h in
           if found = [] then
             (case block of
                Some t \<Rightarrow>
                  (case get_deadline (if t = 0 then None else Some t) h of
                     ((ts, deadline), h) \<Rightarrow>
                       (insert_request ts deadline (StreamReq streams deadline client ts count) h, Ok None))
              | None \<Rightarrow> (h, reply empty_arr))
           else (h, reply (xread_arr found))))"

section \<open>Ids grow\<close>

text \<open>
  An accepted explicit id, and a generated sequence number that does not wrap, lie after every
  id of the stream; the entry is appended.
\<close>

lemma bt_last_None_iff: "bt_last b = None \<longleftrightarrow> b = []"
  by (simp add: bt_last_def)

lemma u64_less_inc: "w \<noteq> - 1 \<Longrightarrow> w < w + 1" for w :: u64
  using unatSuc [of w] by (simp add: word_less_nat_alt add.commute eq_neg_iff_add_eq_0)

lemma xadd_id_last:
  assumes "xadd_id i now b = Ok sid" and "i \<noteq> (None, None)" and "bt_last b = Some (l, v)"
    and "snd i = None \<longrightarrow> snd l \<noteq> - 1"
  shows "l < sid"
proof -
  obtain tl il where l: "l = (tl, il)" by (cases l)
  obtain t where "fst i = Some t"
    using assms(1,2) by (cases i; cases "fst i"; cases "snd i") (auto simp: xadd_id_def)
  then obtain sq where i: "i = (Some t, sq)" by (cases i) auto
  show ?thesis
  proof (cases sq)
    case None
    moreover have "il < il + 1" if "t = tl"
      using assms(4) by (simp add: i None l u64_less_inc)
    ultimately show ?thesis
      using assms(1,3) by (auto simp: xadd_id_def i l less_prod_def split: if_splits)
  next
    case (Some q)
    with assms(1,3) show ?thesis
      by (auto simp: xadd_id_def i l less_prod_def split: if_splits)
  qed
qed

lemma xadd_id_explicit: "xadd_id (Some t, Some q) now b = Ok sid \<Longrightarrow> sid = (t, q)"
  by (auto simp: xadd_id_def split: option.splits if_splits)

text \<open>The stream at a key: absent and empty are the same to a client.\<close>

definition stream_at :: "string \<Rightarrow> cmd_handler \<Rightarrow> stream option" where
  "stream_at k h =
     (case look k h of
        None \<Rightarrow> Some []
      | Some i \<Rightarrow> (case item_value i of VStream b \<Rightarrow> Some b | _ \<Rightarrow> None))"

lemma look_xadd_clock [simp]: "look k (snd (xadd_clock i h)) = look k h"
  by (simp add: xadd_clock_def)

lemma cmd_xadd_cases:
  assumes "stream_at k h = Some b" and "cmd_xadd k i vs h = (h', r)"
  obtains (added) sid where "xadd_id i (fst (xadd_clock i h)) b = Ok sid"
      "stream_at k h' = Some (bt_insert sid vs b)" "r = reply (bulk (show_stream_id sid))"
    | (refused) e where "xadd_id i (fst (xadd_clock i h)) b = Err e" "stream_at k h' = Some b" "r = Err e"
proof -
  obtain h1 it where oi: "or_insert k (VStream []) h = (h1, it)" by fastforce
  have it: "item_value it = VStream b" and lk: "look k h1 = Some it"
    using assms(1) oi by (auto simp: stream_at_def or_insert_def split: option.splits store_value.splits)
  have clk: "fst (xadd_clock i h1) = fst (xadd_clock i h)"
    using oi by (auto simp: or_insert_def xadd_clock_def tick_def put_def split: option.splits)
  obtain now h2 where c: "xadd_clock i h1 = (now, h2)" by fastforce
  then have l2: "look k h2 = Some it" using lk look_xadd_clock [of k i h1] by simp
  show ?thesis
  proof (cases "xadd_id i now b")
    case (Ok sid)
    with assms(2) oi it c clk that(1) show ?thesis
      by (auto simp: cmd_xadd_def stream_at_def)
  next
    case (Err e)
    with assms(2) oi it c clk l2 that(2) show ?thesis
      by (auto simp: cmd_xadd_def stream_at_def)
  next
    case Panic
    then show ?thesis by (auto simp: xadd_id_def split: option.splits if_splits prod.splits)
  qed
qed

lemma cmd_xadd_appends:
  assumes "stream_at k h = Some b" and "bt_inv b" and "snd (cmd_xadd k i vs h) = reply r"
    and "i \<noteq> (None, None)" and "\<And>l v. bt_last b = Some (l, v) \<Longrightarrow> snd i = None \<longrightarrow> snd l \<noteq> - 1"
  shows "\<exists>sid. stream_at k (fst (cmd_xadd k i vs h)) = Some (b @ [(sid, vs)]) \<and>
    (\<forall>k' \<in> bt_keys b. k' < sid) \<and> r = bulk (show_stream_id sid)"
proof -
  obtain h' r' where x: "cmd_xadd k i vs h = (h', r')" by fastforce
  from assms(1) x show ?thesis
  proof (cases rule: cmd_xadd_cases)
    case (added sid)
    have "\<forall>k' \<in> bt_keys b. k' < sid"
    proof (cases "bt_last b")
      case None
      then show ?thesis by (simp add: bt_last_None_iff)
    next
      case (Some kv)
      obtain l v where kv: "kv = (l, v)" by (cases kv)
      have "l < sid"
        using xadd_id_last [OF added(1) assms(4)] Some assms(5) by (simp add: kv)
      with bt_last_max [OF assms(2), of l v] Some show ?thesis
        unfolding bt_keys_def kv by (blast intro: le_less_trans)
    qed
    moreover from this have "bt_insert sid vs b = b @ [(sid, vs)]"
      by (intro bt_insert_append) (auto simp: bt_keys_def)
    ultimately show ?thesis using added x assms(3) by (auto simp: reply_def)
  qed (use x assms(3) in \<open>auto simp: reply_def\<close>)
qed

text \<open>The wrap-around: after the last sequence number of a timestamp comes the first.\<close>

lemma xadd_id_wraps:
  "bt_last b = Some ((t, - 1), v) \<Longrightarrow> xadd_id (Some t, None) now b = Ok (t, 0)"
  by (simp add: xadd_id_def)

text \<open>The id of XADD * is the clock alone: an entry of the same millisecond is replaced.\<close>

lemma xadd_star_overwrites:
  assumes "stream_at k h = Some b" and "h_clock h (h_reads h) = t"
  shows "stream_at k (fst (cmd_xadd k (None, None) vs h)) = Some (bt_insert (t, 0) vs b)"
proof -
  obtain h' r where x: "cmd_xadd k (None, None) vs h = (h', r)" by fastforce
  from assms(1) x show ?thesis
    by (cases rule: cmd_xadd_cases) (use x assms(2) in \<open>auto simp: xadd_id_def xadd_clock_def tick_def\<close>)
qed

section \<open>Reading\<close>

lemma filled_eq: "filled xs = arr xs"
  by (simp add: filled_def fold_add_item arr_def)

lemma cmd_xrange_entries:
  assumes "look k h = Some it" and "item_value it = VStream b" and "lo \<le> hi"
  shows "cmd_xrange k lo hi h =
    reply (arr (map (\<lambda>(i, v). arr [bulk (show_stream_id i), arr (map bulk v)])
      (filter (\<lambda>(i, _). lo \<le> i \<and> i \<le> hi) b)))"
  using assms
  by (auto simp: cmd_xrange_def bt_range_def get_resp_stream_entity_def filled_eq arr_def comp_def
      not_less case_prod_beta numeral_2_eq_2)

lemma cmd_xrange_panics:
  "look k h = Some it \<Longrightarrow> item_value it = VStream b \<Longrightarrow> b \<noteq> [] \<Longrightarrow> hi < lo \<Longrightarrow> cmd_xrange k lo hi h = Panic"
  by (simp add: cmd_xrange_def bt_range_def)

lemma bt_range_after_empty: "bt_range_after i b = [] \<longleftrightarrow> (\<forall>j \<in> bt_keys b. \<not> i < j)"
  by (simp add: bt_range_after_def filter_empty_conv bt_keys_def case_prod_beta)

lemma is_stream_avail_iff:
  "is_stream_avail k i h \<longleftrightarrow>
   (\<exists>it b. look k h = Some it \<and> item_value it = VStream b \<and> (\<exists>j \<in> bt_keys b. i < j))"
  by (auto simp: is_stream_avail_def bt_range_after_empty split: option.splits store_value.splits)

lemma extract_avail:
  "extract_stream_entries k c i h = None \<longleftrightarrow> \<not> is_stream_avail k i h \<or> c = 0"
  by (auto simp: extract_stream_entries_def is_stream_avail_def Let_def unat_eq_zero
      split: option.splits store_value.splits)

lemma map_filter_empty: "List.map_filter f xs = [] \<longleftrightarrow> (\<forall>x \<in> set xs. f x = None)"
  by (induction xs) (auto simp: List.map_filter_simps split: option.splits)

lemma xread_found_iff:
  "xread_found count streams h = [] \<longleftrightarrow>
   count = Some 0 \<or> (\<forall>s \<in> set streams. \<not> is_stream_avail (fst s) (snd s) h)"
proof -
  define c :: u64 where "c = (case count of Some c \<Rightarrow> c | None \<Rightarrow> - 1)"
  have c: "c = 0 \<longleftrightarrow> count = Some 0" by (cases count) (simp_all add: c_def)
  show ?thesis
    unfolding xread_found_def map_filter_empty c_def [symmetric]
    by (auto simp: extract_avail case_prod_beta c)
qed

text \<open>XREAD answers at once exactly when one of its streams has a later entry.\<close>

lemma cmd_xread_answers:
  assumes "\<forall>(k, _) \<in> set streams. stream_typed h k"
  shows "(\<exists>r. snd (cmd_xread count (Some t) streams client h) = reply r) \<longleftrightarrow>
    count \<noteq> Some 0 \<and> (\<exists>s \<in> set streams. is_stream_avail (fst (resolve_last h s)) (snd (resolve_last h s)) h)"
proof -
  have "filter (\<lambda>(key, _). \<not> stream_typed h key) streams = []"
    using assms by (auto simp: filter_empty_conv)
  then have "(\<exists>r. snd (cmd_xread count (Some t) streams client h) = reply r) \<longleftrightarrow>
      xread_found count (map (resolve_last h) streams) h \<noteq> []"
    by (auto simp: cmd_xread_def Let_def reply_def split: prod.splits)
  then show ?thesis by (auto simp: xread_found_iff)
qed

end
