(* ===== verification/ZSetCmds.thy ===== *)
theory ZSetCmds
  imports StringCmds
begin

text \<open>
  The commands on sorted sets and, on top of them, the geographic commands: ZADD, ZRANK,
  ZRANGE, ZCARD, ZSCORE, ZREM, GEOADD, GEOPOS, GEODIST and GEOSEARCH. A score of a location is
  its geohash as an \<open>f64\<close>.
\<close>

definition cmd_zadd :: "string \<Rightarrow> f64 \<Rightarrow> string \<Rightarrow> cmd_handler \<Rightarrow> cmd_handler \<times> reply" where
  "cmd_zadd key score member h =
     (case or_insert key (VZSet zs_new) h of
        (h, it) \<Rightarrow>
          (case item_value it of
             VZSet z \<Rightarrow>
               (case zs_add score member z of
                  Ok (z', n) \<Rightarrow> (put_value key it (VZSet z') h, reply (int_reply n))
                | Err e \<Rightarrow> (h, Err e)
                | Panic \<Rightarrow> (h, Panic))
           | _ \<Rightarrow> (h, Err wrong_type)))"

text \<open>The read-only commands share their shape: an absent key, a sorted set, another type.\<close>

definition on_zset :: "string \<Rightarrow> reply \<Rightarrow> (sorted_set \<Rightarrow> reply) \<Rightarrow> reply \<Rightarrow> cmd_handler \<Rightarrow> reply" where
  "on_zset key absent f other h =
     (case look key h of
        None \<Rightarrow> absent
      | Some it \<Rightarrow> (case item_value it of VZSet z \<Rightarrow> f z | _ \<Rightarrow> other))"

definition cmd_zrank :: "string \<Rightarrow> string \<Rightarrow> cmd_handler \<Rightarrow> reply" where
  "cmd_zrank key member =
     on_zset key (reply nil_bulk)
       (\<lambda>z. rbind (zs_rank member z)
          (\<lambda>r. reply (case r of Some n \<Rightarrow> int_reply n | None \<Rightarrow> nil_bulk)))
       (Err wrong_type)"

definition cmd_zrange :: "string \<Rightarrow> int \<Rightarrow> int \<Rightarrow> cmd_handler \<Rightarrow> reply" where
  "cmd_zrange key start end_idx =
     on_zset key (reply empty_arr)
       (\<lambda>z. let ms = zs_get_members start end_idx z in
          if ms = [] then reply empty_arr else reply (built (length ms) (map bulk ms)))
       (Err wrong_type)"

definition cmd_zcard :: "string \<Rightarrow> cmd_handler \<Rightarrow> reply" where
  "cmd_zcard key =
     on_zset key (reply (int_reply 0)) (\<lambda>z. reply (int_reply (int (zs_len z)))) (Err wrong_type)"

definition cmd_zscore :: "string \<Rightarrow> string \<Rightarrow> cmd_handler \<Rightarrow> reply" where
  "cmd_zscore key member =
     on_zset key (reply empty_arr)
       (\<lambda>z. reply (case zs_score member z of Some s \<Rightarrow> bulk (show_f64 s) | None \<Rightarrow> nil_bulk))
       (Err wrong_type)"

definition cmd_zrem :: "string \<Rightarrow> string \<Rightarrow> cmd_handler \<Rightarrow> cmd_handler \<times> reply" where
  "cmd_zrem key member h =
     (case look key h of
        None \<Rightarrow> (h, reply (int_reply 0))
      | Some it \<Rightarrow>
          (case item_value it of
             VZSet z \<Rightarrow>
               (case zs_remove member z of
                  Ok (z', n) \<Rightarrow> (put_value key it (VZSet z') h, reply (int_reply n))
                | Err e \<Rightarrow> (h, Err e)
                | Panic \<Rightarrow> (h, Panic))
           | _ \<Rightarrow> (h, Err wrong_type)))"

section \<open>Locations\<close>

text \<open>The key is created before the coordinates are looked at.\<close>

definition geo_score :: "string \<Rightarrow> string \<Rightarrow> f64 cres" where
  "geo_score long lat =
     rbind (of_parse_float (parse_f64 long)) (\<lambda>x.
     rbind (of_parse_float (parse_f64 lat)) (\<lambda>y.
     rbind (geo_encode x y) (\<lambda>s. Ok (f_of_nat (unat s)))))"

definition cmd_geoadd ::
  "string \<Rightarrow> string \<Rightarrow> string \<Rightarrow> string \<Rightarrow> cmd_handler \<Rightarrow> cmd_handler \<times> reply" where
  "cmd_geoadd key long lat member h =
     (case or_insert key (VZSet zs_new) h of
        (h, it) \<Rightarrow>
          (case geo_score long lat of
             Ok score \<Rightarrow>
               (case item_value it of
                  VZSet z \<Rightarrow>
                    (case zs_add score member z of
                       Ok (z', n) \<Rightarrow> (put_value key it (VZSet z') h, reply (int_reply n))
                     | Err e \<Rightarrow> (h, Err e)
                     | Panic \<Rightarrow> (h, Panic))
                | _ \<Rightarrow> (h, Err wrong_type))
           | Err e \<Rightarrow> (h, Err e)
           | Panic \<Rightarrow> (h, Panic)))"

definition geo_of_score :: "f64 \<Rightarrow> f64 \<times> f64" where
  "geo_of_score s = geo_decode (f_to_u64 s)"

definition geopos_entry :: "f64 option \<Rightarrow> resp_type" where
  "geopos_entry sc =
     (case sc of
        Some s \<Rightarrow> (case geo_of_score s of
            (long, lat) \<Rightarrow> built 2 [bulk (show_f64 long), bulk (show_f64 lat)])
      | None \<Rightarrow> null_arr)"

definition cmd_geopos :: "string \<Rightarrow> string list \<Rightarrow> cmd_handler \<Rightarrow> reply" where
  "cmd_geopos key members =
     on_zset key (reply (built (length members) (map (\<lambda>_. null_arr) members)))
       (\<lambda>z. reply (built (length members) (map (\<lambda>m. geopos_entry (zs_score m z)) members)))
       (Err wrong_type)"

text \<open>The first unknown member ends the loop; fewer than two locations are an error.\<close>

definition cmd_geodist :: "externals \<Rightarrow> string \<Rightarrow> string list \<Rightarrow> cmd_handler \<Rightarrow> reply" where
  "cmd_geodist X key members =
     on_zset key (reply nil_bulk)
       (\<lambda>z. rbind
          (geo_distance (x_libm X)
            (take_until_err
              (\<lambda>m. rbind (ok_or (zs_score m z) (UnprocessableError ''Location not exists''))
                 (\<lambda>s. Ok (geo_of_score s))) members))
          (\<lambda>d. reply (bulk (show_f64 d))))
       (Err wrong_type)"

definition geo_dist_members ::
  "externals \<Rightarrow> f64 \<times> f64 \<Rightarrow> (string \<times> f64) list \<Rightarrow> (f64 \<times> string) list cres" where
  "geo_dist_members X p ms =
     try_map (\<lambda>(m, s). rbind (geo_distance (x_libm X) [p, geo_of_score s]) (\<lambda>d. Ok (d, m))) ms"

definition cmd_geosearch :: "externals \<Rightarrow> string \<Rightarrow> cmd_arg \<Rightarrow> cmd_arg \<Rightarrow> cmd_handler \<Rightarrow> reply" where
  "cmd_geosearch X key from_arg by_arg =
     on_zset key (reply null_arr)
       (\<lambda>z.
         (case from_arg of
            FromLonLat long0 lat0 \<Rightarrow>
              (case by_arg of
                 ByRadius r \<Rightarrow>
                   rbind (geo_dist_members X (long0, lat0) (zs_members z)) (\<lambda>dm.
                     let ms = map snd (filter (\<lambda>(d, _). f_le d r) dm) in
                     if ms \<noteq> [] then reply (built (length ms) (map bulk ms)) else reply empty_arr)
               | _ \<Rightarrow> Err (UnsupportedCmdStructure ''Must be radius''))
          | _ \<Rightarrow> Err (UnsupportedCmdStructure ''Must be FROMLONLAT'')))
       (Ok None)"

section \<open>What they do\<close>

definition zset_at :: "string \<Rightarrow> cmd_handler \<Rightarrow> sorted_set option" where
  "zset_at k h =
     (case look k h of
        None \<Rightarrow> Some zs_new
      | Some i \<Rightarrow> (case item_value i of VZSet z \<Rightarrow> Some z | _ \<Rightarrow> None))"

lemma zadd_zset_at:
  assumes "zset_at k h = Some z" and "zs_add s m z = Ok (z', n)"
  shows "zset_at k (fst (cmd_zadd k s m h)) = Some z'" and "snd (cmd_zadd k s m h) = reply (int_reply n)"
  using assms
  by (auto simp: zset_at_def cmd_zadd_def or_insert_def split: option.splits store_value.splits)

lemma zscore_zset_at:
  assumes "look k h \<noteq> None" and "zset_at k h = Some z"
  shows "cmd_zscore k m h = reply (case zs_score m z of Some s \<Rightarrow> bulk (show_f64 s) | None \<Rightarrow> nil_bulk)"
  using assms by (auto simp: zset_at_def cmd_zscore_def on_zset_def split: option.splits store_value.splits)

text \<open>ZSCORE after ZADD, for the added member and for the others.\<close>

lemma zadd_then_zscore:
  assumes "zset_at k h = Some z" and "zs_inv z" and "snd (cmd_zadd k s m h) = reply r"
  shows "cmd_zscore k m' (fst (cmd_zadd k s m h)) =
    reply (case (if m' = m then Some s else zs_score m' z) of Some s \<Rightarrow> bulk (show_f64 s) | None \<Rightarrow> nil_bulk)"
proof -
  obtain z' n where z': "zs_add s m z = Ok (z', n)"
  proof (cases "zs_add s m z")
    case (Ok x)
    then show ?thesis using that by (cases x) simp
  qed (use assms(1,3) in \<open>auto simp: zset_at_def cmd_zadd_def or_insert_def reply_def
      split: option.splits store_value.splits\<close>)
  note at = zadd_zset_at [OF assms(1) z']
  have "look k (fst (cmd_zadd k s m h)) \<noteq> None"
    using assms(1) z'
    by (auto simp: zset_at_def cmd_zadd_def or_insert_def split: option.splits store_value.splits)
  from zscore_zset_at [OF this at(1)] zs_score_add [OF assms(2) z'] show ?thesis by simp
qed

text \<open>A failed GEOADD leaves an empty sorted set at a key that did not exist.\<close>

lemma geoadd_failed_creates:
  assumes "look k h = None" and "geo_score long lat = Err e"
  shows "snd (cmd_geoadd k long lat m h) = Err e"
    and "look k (fst (cmd_geoadd k long lat m h)) = Some (item (VZSet zs_new) None)"
  using assms by (simp_all add: cmd_geoadd_def or_insert_def)

text \<open>What GEOADD stores is the geohash itself: GEOPOS decodes exactly that number.\<close>

lemma geo_of_score_encode:
  assumes "unat (geo_cell long_min long_range x) < 2 ^ 26" "unat (geo_cell lat_min lat_range y) < 2 ^ 26"
    and "geo_encode x y = Ok s"
  shows "geo_of_score (f_of_nat (unat s)) = geo_decode s"
proof -
  have "s = interleave (geo_cell long_min long_range x) (geo_cell lat_min lat_range y)"
    using assms(3) by (auto simp: geo_encode_def split: if_splits)
  with score_survives_f64 [OF assms(1,2)] show ?thesis by (simp add: geo_of_score_def)
qed

end
