(* ===== verification/BitCmds.thy ===== *)
theory BitCmds
  imports StringCmds
begin

text \<open>
  The commands on bits: SETBIT, GETBIT, STRLEN, BITCOUNT and BITOP. A string is read as the
  bytes it consists of.
\<close>

definition unwrap_or_0 :: "u8 cres \<Rightarrow> u8" where
  "unwrap_or_0 r = (case r of Ok v \<Rightarrow> v | _ \<Rightarrow> 0)"

text \<open>The bitmap after SETBIT, extended when the offset lies behind its end.\<close>

definition setbit_map :: "nat \<Rightarrow> u8 \<Rightarrow> bitmap \<Rightarrow> bitmap cres" where
  "setbit_map offset b m =
     (if unwrap_or_0 (bits_get m offset) \<noteq> b
      then rbind (bit_value_of b) (\<lambda>v.
        (case bits_set m offset v of
           Ok m' \<Rightarrow> Ok m'
         | Err _ \<Rightarrow> bits_set (bitmap_extend offset m) offset v
         | Panic \<Rightarrow> Panic))
      else Ok m)"

definition cmd_setbit :: "string \<Rightarrow> nat \<Rightarrow> u8 \<Rightarrow> cmd_handler \<Rightarrow> cmd_handler \<times> reply" where
  "cmd_setbit key offset b h =
     (case or_insert key (VBitmap (bitmap_new (wrap_usize (offset + 1)))) h of
        (h, it) \<Rightarrow>
          (case item_value it of
             VBitmap m \<Rightarrow>
               (case setbit_map offset b m of
                  Ok m' \<Rightarrow>
                    (put_value key it (VBitmap m') h,
                     reply (int_reply (uint (unwrap_or_0 (bits_get m offset)))))
                | Err e \<Rightarrow> (h, Err e)
                | Panic \<Rightarrow> (h, Panic))
           | _ \<Rightarrow> (h, Err Dummy)))"

definition bits_of_value :: "store_value \<Rightarrow> bitmap cres" where
  "bits_of_value v =
     (case v of
        VBitmap m \<Rightarrow> Ok m
      | VStr s \<Rightarrow> Ok (as_bytes s)
      | _ \<Rightarrow> Err (UnprocessableError ''Wrong data type''))"

definition cmd_getbit :: "string \<Rightarrow> nat \<Rightarrow> cmd_handler \<Rightarrow> reply" where
  "cmd_getbit key offset h =
     (case look key h of
        None \<Rightarrow> reply (int_reply 0)
      | Some it \<Rightarrow>
          rbind (bits_of_value (item_value it))
            (\<lambda>m. reply (int_reply (uint (unwrap_or_0 (bits_get m offset))))))"

definition cmd_strlen :: "string \<Rightarrow> cmd_handler \<Rightarrow> reply" where
  "cmd_strlen key h =
     (case look key h of
        None \<Rightarrow> reply (int_reply 0)
      | Some it \<Rightarrow>
          (case item_value it of
             VBitmap m \<Rightarrow> reply (int_reply (int (length m)))
           | _ \<Rightarrow> Err (UnprocessableError ''Wrong data type'')))"

definition cmd_bitcount :: "string \<Rightarrow> bit_range option \<Rightarrow> cmd_handler \<Rightarrow> reply" where
  "cmd_bitcount key rng h =
     (case look key h of
        None \<Rightarrow> reply (int_reply 0)
      | Some it \<Rightarrow>
          rbind (bits_of_value (item_value it)) (\<lambda>m. reply (int_reply (int (bit_count m rng)))))"

definition bitop_operand :: "string \<Rightarrow> cmd_handler \<Rightarrow> bitmap cres" where
  "bitop_operand key h =
     (case look key h of None \<Rightarrow> Ok [] | Some it \<Rightarrow> bits_of_value (item_value it))"

definition bitop_store :: "string \<Rightarrow> bitmap \<Rightarrow> cmd_handler \<Rightarrow> cmd_handler" where
  "bitop_store dest m h =
     (if m = [] then h\<lparr>h_data := hm_remove dest (h_data h)\<rparr> else put dest (item (VBitmap m) None) h)"

definition bitop_run ::
  "(bitmap \<Rightarrow> bitmap \<Rightarrow> bitmap) \<Rightarrow> string \<Rightarrow> string \<Rightarrow> string \<Rightarrow> cmd_handler \<Rightarrow> cmd_handler \<times> reply" where
  "bitop_run f dest key1 key2 h =
     (case rbind (bitop_operand key1 h) (\<lambda>m1. rbind (bitop_operand key2 h) (\<lambda>m2. Ok (f m1 m2))) of
        Ok m \<Rightarrow> (bitop_store dest m h, reply (int_reply (int (length m))))
      | Err e \<Rightarrow> (h, Err e)
      | Panic \<Rightarrow> (h, Panic))"

definition cmd_bitop :: "cmd_arg \<Rightarrow> cmd_handler \<Rightarrow> cmd_handler \<times> reply" where
  "cmd_bitop a h =
     (case a of
        ArgAND dest key1 key2 \<Rightarrow> bitop_run bits_and dest key1 key2 h
      | ArgOR dest key1 key2 \<Rightarrow> bitop_run bits_or dest key1 key2 h
      | _ \<Rightarrow> (h, Err (InvalidArgument ''Invalid args for BITOP'')))"

section \<open>The key as a set of bits\<close>

definition bits_at :: "string \<Rightarrow> cmd_handler \<Rightarrow> nat set option" where
  "bits_at k h = (case bitop_operand k h of Ok m \<Rightarrow> Some (bits m) | _ \<Rightarrow> None)"

lemma unwrap_get: "unwrap_or_0 (bits_get m i) = (if i \<in> bits m then 1 else 0)"
  by (auto simp: unwrap_or_0_def bits_get_eq dest: bits_below)

lemma setbit_map_bits:
  assumes "i + 1 < 2 ^ 64" and "b = 0 \<or> b = 1"
  obtains m' where "setbit_map i b m = Ok m'" "bits m' = (if b = 1 then insert i (bits m) else bits m - {i})"
proof (cases "unwrap_or_0 (bits_get m i) = b")
  case True
  then show ?thesis
    using that [of m] assms(2) by (auto simp: setbit_map_def unwrap_get split: if_splits)
next
  case False
  define v where "v = (if b = 1 then One else Zero)"
  have v: "bit_value_of b = Ok v" using assms(2) by (auto simp: bit_value_of_def v_def)
  have B: "(case v of One \<Rightarrow> insert i S | Zero \<Rightarrow> S - {i}) = (if b = 1 then insert i S else S - {i})" for S
    by (simp add: v_def)
  show ?thesis
  proof (cases "i < bits_cap m")
    case True
    then obtain m' where "bits_set m i v = Ok m'" "bits m' = (case v of One \<Rightarrow> insert i (bits m) | Zero \<Rightarrow> bits m - {i})"
      using bits_set_eq [OF True] by metis
    with False v B show ?thesis by (intro that) (auto simp: setbit_map_def)
  next
    case out: False
    then have "bits_set m i v = Err OutOfIndex"
      by (simp add: bits_set_def bits_cap_def div8_less)
    moreover obtain m' where "bits_set (bitmap_extend i m) i v = Ok m'"
        "bits m' = (case v of One \<Rightarrow> insert i (bits (bitmap_extend i m)) | Zero \<Rightarrow> bits (bitmap_extend i m) - {i})"
      using bits_set_eq [OF cap_extend [OF assms(1)]] by metis
    ultimately show ?thesis using False v B by (intro that) (auto simp: setbit_map_def bits_extend)
  qed
qed

text \<open>SETBIT on an absent key or a bitmap.\<close>

lemma cmd_setbit_bits:
  assumes "look k h = None \<or> (\<exists>m e. look k h = Some (item (VBitmap m) e))"
    and "bits_at k h = Some S" and "i + 1 < 2 ^ 64" and "b = 0 \<or> b = 1"
  shows "bits_at k (fst (cmd_setbit k i b h)) = Some (if b = 1 then insert i S else S - {i})"
    and "snd (cmd_setbit k i b h) = reply (int_reply (if i \<in> S then 1 else 0))"
proof -
  obtain m e h1 where oi: "or_insert k (VBitmap (bitmap_new (wrap_usize (i + 1)))) h = (h1, item (VBitmap m) e)"
    and S: "bits m = S"
    using assms(1,2)
    by (auto simp: or_insert_def bits_at_def bitop_operand_def bits_of_value_def bits_new)
      (metis bits_new bits_replicate_0 replicate_0)+
  obtain m' where m': "setbit_map i b m = Ok m'" "bits m' = (if b = 1 then insert i S else S - {i})"
    using setbit_map_bits [OF assms(3,4), of m] S by metis
  show "bits_at k (fst (cmd_setbit k i b h)) = Some (if b = 1 then insert i S else S - {i})"
    "snd (cmd_setbit k i b h) = reply (int_reply (if i \<in> S then 1 else 0))"
    using oi m' S
    by (simp_all add: cmd_setbit_def bits_at_def bitop_operand_def bits_of_value_def unwrap_get)
qed

lemma cmd_getbit_bits:
  "bits_at k h = Some S \<Longrightarrow> cmd_getbit k i h = reply (int_reply (if i \<in> S then 1 else 0))"
  by (auto simp: bits_at_def cmd_getbit_def bitop_operand_def unwrap_get reply_def
      split: option.splits result.splits) (simp_all add: bits_def)

lemma cmd_bitcount_bits:
  "bits_at k h = Some S \<Longrightarrow> cmd_bitcount k None h = reply (int_reply (int (card S)))"
  by (auto simp: bits_at_def cmd_bitcount_def bitop_operand_def bit_count_all reply_def
      split: option.splits result.splits) (simp_all add: bits_def)

lemma bits_at_store: "bits_at d (bitop_store d m h) = Some (bits m)"
  by (simp add: bits_at_def bitop_operand_def bitop_store_def bits_of_value_def look_def bits_def put_def)

lemma cmd_bitop_bits:
  assumes "bits_at k1 h = Some S1" and "bits_at k2 h = Some S2"
  shows "bits_at d (fst (cmd_bitop (ArgAND d k1 k2) h)) = Some (S1 \<inter> S2)"
    and "bits_at d (fst (cmd_bitop (ArgOR d k1 k2) h)) = Some (S1 \<union> S2)"
  using assms
  by (auto simp: cmd_bitop_def bitop_run_def bits_at_def [of k1] bits_at_def [of k2] bits_at_store
      bits_and_eq bits_or_eq split: result.splits)

end
