(* ===== verification/KeyedCmds.thy ===== *)
theory KeyedCmds
  imports StreamCmds ZSetCmds BitCmds
begin

text \<open>
  The contract of the commands that work on one key: nothing but the stored values and the
  number of clock readings changes, no other key is touched, and the value stays well formed.
  Every such command of the model satisfies it.
\<close>

definition only_data :: "cmd_handler \<Rightarrow> cmd_handler \<Rightarrow> bool" where
  "only_data h h' \<longleftrightarrow> (\<exists>d n. h' = h\<lparr>h_data := d, h_reads := n\<rparr>)"

lemma only_data_refl [simp]: "only_data h h"
  unfolding only_data_def by (rule exI [of _ "h_data h"], rule exI [of _ "h_reads h"]) simp

lemma only_dataI: "only_data h (h\<lparr>h_data := d\<rparr>)" "only_data h (h\<lparr>h_data := d, h_reads := n\<rparr>)"
  "only_data h (h\<lparr>h_reads := n\<rparr>)" "only_data h (h\<lparr>h_reads := n, h_data := d\<rparr>)"
proof -
  show "only_data h (h\<lparr>h_data := d, h_reads := n\<rparr>)" unfolding only_data_def by blast
  have "h\<lparr>h_data := d\<rparr> = h\<lparr>h_data := d, h_reads := h_reads h\<rparr>" by simp
  then show "only_data h (h\<lparr>h_data := d\<rparr>)" unfolding only_data_def by blast
  have "h\<lparr>h_reads := n\<rparr> = h\<lparr>h_data := h_data h, h_reads := n\<rparr>" by simp
  then show "only_data h (h\<lparr>h_reads := n\<rparr>)" unfolding only_data_def by blast
  have "h\<lparr>h_reads := n, h_data := d\<rparr> = h\<lparr>h_data := d, h_reads := n\<rparr>" by simp
  then show "only_data h (h\<lparr>h_reads := n, h_data := d\<rparr>)" unfolding only_data_def by blast
qed

lemma only_data_trans:
  assumes "only_data h h'" and "only_data h' h''"
  shows "only_data h h''"
proof -
  obtain d n d' n' where "h' = h\<lparr>h_data := d, h_reads := n\<rparr>" "h'' = h'\<lparr>h_data := d', h_reads := n'\<rparr>"
    using assms unfolding only_data_def by blast
  then have "h'' = h\<lparr>h_data := d', h_reads := n'\<rparr>" by simp
  then show ?thesis unfolding only_data_def by blast
qed

lemma only_data_put [simp]: "only_data h (put k i h)" "only_data h (put_value k i v h)"
  by (simp_all add: put_value_def put_def only_dataI)

lemma only_data_tick [simp]: "only_data h (snd (tick h))" "only_data h (snd (xadd_clock i h))"
  by (simp_all add: tick_def xadd_clock_def only_dataI)

lemma only_data_or_insert: "or_insert k v h = (h', it) \<Longrightarrow> only_data h h'"
  by (auto simp: or_insert_def split: option.splits)

lemma only_dataD:
  assumes "only_data h h'"
  shows "h_reg h' = h_reg h" "h_queue h' = h_queue h" "h_subs h' = h_subs h" "h_chans h' = h_chans h"
    "h_aof h' = h_aof h" "h_table h' = h_table h" "h_auth h' = h_auth h" "h_states h' = h_states h"
    "h_configs h' = h_configs h" "h_epoll h' = h_epoll h" "h_flag_list h' = h_flag_list h"
    "h_flag_stream h' = h_flag_stream h" "h_clock h' = h_clock h"
  using assms by (auto simp: only_data_def)

section \<open>The contract\<close>

locale keyed_command =
  fixes key :: string and run :: "cmd_handler \<Rightarrow> cmd_handler \<times> reply"
  assumes data_only: "only_data h (fst (run h))"
    and other_keys: "k \<noteq> key \<Longrightarrow> look k (fst (run h)) = look k h"
    and well_formed: "store_inv (h_data h) \<Longrightarrow> store_inv (h_data (fst (run h)))"
begin

lemmas keeps = only_dataD [OF data_only]

text \<open>The same holds for any number of runs.\<close>

lemma iterate_frame:
  "only_data h (((\<lambda>h. fst (run h)) ^^ n) h) \<and> (k \<noteq> key \<longrightarrow> look k (((\<lambda>h. fst (run h)) ^^ n) h) = look k h)"
proof (induction n)
  case (Suc n)
  then show ?case using data_only other_keys by (auto intro: only_data_trans)
qed simp

lemma iterate_inv: "store_inv (h_data h) \<Longrightarrow> store_inv (h_data (((\<lambda>h. fst (run h)) ^^ n) h))"
  by (induction n) (simp_all add: well_formed)

text \<open>What a run does to the key can only be seen at the key.\<close>

lemma data_frame: "hm_get (h_data (fst (run h))) k \<noteq> hm_get (h_data h) k \<Longrightarrow> k = key"
  using other_keys by (auto simp: look_def)

end

lemma keyed_commandI:
  assumes "\<And>h. only_data h (fst (run h))"
    and "\<And>h k. k \<noteq> key \<Longrightarrow> look k (fst (run h)) = look k h"
    and "\<And>h. store_inv (h_data h) \<Longrightarrow> store_inv (h_data (fst (run h)))"
  shows "keyed_command key run"
  using assms by unfold_locales

section \<open>The commands that fulfil it\<close>

named_theorems data_steps \<open>what the single steps do to the stored values\<close>

lemma data_put [data_steps]: "h_data (put k i h) = hm_insert k i (h_data h)"
  "h_data (put_value k i v h) = hm_insert k (i\<lparr>item_value := v\<rparr>) (h_data h)"
  by (simp_all add: put_def put_value_def)

lemma data_clock [data_steps]: "h_data (snd (tick h)) = h_data h" "h_data (snd (xadd_clock i h)) = h_data h"
  by (simp_all add: tick_def xadd_clock_def)

lemma look_in_store: "store_inv (h_data h) \<Longrightarrow> look k h = Some it \<Longrightarrow> value_inv (item_value it)"
  by (simp add: look_def store_inv_get)

lemma or_insert_inv:
  assumes "or_insert k v h = (h', it)" and "store_inv (h_data h)" and "value_inv v"
  shows "store_inv (h_data h')" "value_inv (item_value it)" "look k h' = Some it"
    "k' \<noteq> k \<Longrightarrow> look k' h' = look k' h"
  using assms
  by (auto simp: or_insert_def data_steps store_inv_insert look_in_store split: option.splits)

lemma or_insert_look: "or_insert k v h = (h', it) \<Longrightarrow> k' \<noteq> k \<Longrightarrow> look k' h' = look k' h"
  by (auto simp: or_insert_def split: option.splits)

lemma put_value_inv:
  "store_inv (h_data h) \<Longrightarrow> value_inv v \<Longrightarrow> store_inv (h_data (put_value k i v h))"
  by (simp add: data_steps store_inv_insert)

interpretation set_cmd: keyed_command key "cmd_set key v opt" for key v opt
proof (rule keyed_commandI)
  fix h
  obtain h1 r where e: "extract_deadline opt h = (h1, r)" by fastforce
  then have "only_data h h1" "h_data h1 = h_data h"
    by (auto simp: extract_deadline_def tick_def only_dataI split: option.splits)
  with e show "only_data h (fst (cmd_set key v opt h))"
    by (auto simp: cmd_set_def split: result.splits intro: only_data_trans only_data_put)
  show "look k (fst (cmd_set key v opt h)) = look k h" if "k \<noteq> key" for k
    using e \<open>h_data h1 = h_data h\<close> that by (auto simp: cmd_set_def look_def put_def split: result.splits)
  show "store_inv (h_data (fst (cmd_set key v opt h)))" if "store_inv (h_data h)"
    using e \<open>h_data h1 = h_data h\<close> that
    by (auto simp: cmd_set_def data_steps store_inv_insert split: result.splits)
qed

text \<open>The commands that create a missing key first share one shape.\<close>

definition create_then ::
  "string \<Rightarrow> store_value \<Rightarrow> (store_item \<Rightarrow> cmd_handler \<Rightarrow> cmd_handler \<times> reply) \<Rightarrow> cmd_handler \<Rightarrow>
   cmd_handler \<times> reply" where
  "create_then key v f h = (case or_insert key v h of (h1, it) \<Rightarrow> f it h1)"

lemma keyed_create_then:
  assumes v: "value_inv v"
    and f: "\<And>it h. only_data h (fst (f it h))"
    and k: "\<And>it h k. k \<noteq> key \<Longrightarrow> look k (fst (f it h)) = look k h"
    and i: "\<And>it h. store_inv (h_data h) \<Longrightarrow> value_inv (item_value it) \<Longrightarrow> store_inv (h_data (fst (f it h)))"
  shows "keyed_command key (create_then key v f)"
proof (rule keyed_commandI)
  fix h
  obtain h1 it where oi: "or_insert key v h = (h1, it)" by fastforce
  show "only_data h (fst (create_then key v f h))"
    using oi only_data_trans [OF only_data_or_insert [OF oi] f] by (simp add: create_then_def)
  show "look k (fst (create_then key v f h)) = look k h" if "k \<noteq> key" for k
    using oi k [OF that] or_insert_look that by (simp add: create_then_def)
  show "store_inv (h_data (fst (create_then key v f h)))" if "store_inv (h_data h)"
    using oi or_insert_inv(1,2) [OF oi that v] i by (simp add: create_then_def)
qed

lemma create_shapes:
  "cmd_incr key = create_then key (VStr ''0'') (\<lambda>it h.
     case item_value it of
       VStr s \<Rightarrow>
         (case parse_i64 s of
            Ok x \<Rightarrow>
              (if x < 2 ^ 63 - 1
               then (put_value key it (VStr (show_int (x + 1))) h, reply (int_reply (x + 1)))
               else (h, Err (UnprocessableError ''Integer overflow'')))
          | _ \<Rightarrow> (h, Err incr_error))
     | _ \<Rightarrow> (h, Err incr_error))"
  "cmd_rpush key vs = create_then key (VList []) (\<lambda>it h.
     case item_value it of
       VList xs \<Rightarrow> (put_value key it (VList (xs @ vs)) h, reply (int_reply (int (length (xs @ vs)))))
     | _ \<Rightarrow> (h, Err (unsupported key)))"
  by (simp_all add: fun_eq_iff create_then_def cmd_incr_def cmd_rpush_def)

interpretation incr_cmd: keyed_command key "cmd_incr key" for key
  unfolding create_shapes
  by (rule keyed_create_then)
    (auto simp: put_value_inv split: store_value.splits result.splits)

interpretation rpush_cmd: keyed_command key "cmd_rpush key vs" for key vs
  unfolding create_shapes
  by (rule keyed_create_then) (auto simp: put_value_inv split: store_value.splits)

lemma cmd_lpush_shape:
  "cmd_lpush key vs = create_then key (VList []) (\<lambda>it h.
     case item_value it of
       VList xs \<Rightarrow>
         (let ys = fold (\<lambda>v l. v # l) vs xs in
          (put_value key it (VList ys) h, reply (int_reply (int (length ys)))))
     | _ \<Rightarrow> (h, Err (unsupported key)))"
  by (simp add: fun_eq_iff create_then_def cmd_lpush_def)

interpretation lpush_cmd: keyed_command key "cmd_lpush key vs" for key vs
  unfolding cmd_lpush_shape
  by (rule keyed_create_then) (auto simp: put_value_inv Let_def split: store_value.splits)

lemma keyed_existing:
  assumes "\<And>h. look key h = None \<Longrightarrow> fst (run h) = h"
    and "\<And>h it. look key h = Some it \<Longrightarrow>
      fst (run h) = h \<or>
      (\<exists>v. fst (run h) = put_value key it v h \<and> (value_inv (item_value it) \<longrightarrow> value_inv v))"
  shows "keyed_command key run"
proof (rule keyed_commandI)
  fix h
  show "only_data h (fst (run h))"
    using assms [of h] by (cases "look key h") (auto simp: only_data_put)
  show "look k (fst (run h)) = look k h" if "k \<noteq> key" for k
    using assms [of h] that by (cases "look key h") auto
  show "store_inv (h_data (fst (run h)))" if "store_inv (h_data h)"
    using assms [of h] that look_in_store [OF that] by (cases "look key h") (auto simp: put_value_inv)
qed

interpretation lpop_cmd: keyed_command key "cmd_lpop key n" for key n
proof (rule keyed_existing)
  fix h it assume "look key h = Some it"
  then show "fst (cmd_lpop key n h) = h \<or>
      (\<exists>v. fst (cmd_lpop key n h) = put_value key it v h \<and> (value_inv (item_value it) \<longrightarrow> value_inv v))"
    by (auto simp: cmd_lpop_def Let_def split: store_value.split option.split list.split)
qed (simp add: cmd_lpop_def)

interpretation zrem_cmd: keyed_command key "cmd_zrem key m" for key m
proof (rule keyed_existing)
  fix h it assume lk: "look key h = Some it"
  show "fst (cmd_zrem key m h) = h \<or>
      (\<exists>v. fst (cmd_zrem key m h) = put_value key it v h \<and> (value_inv (item_value it) \<longrightarrow> value_inv v))"
  proof (cases "\<exists>z z' n. item_value it = VZSet z \<and> zs_remove m z = Ok (z', n)")
    case True
    then obtain z z' n where z: "item_value it = VZSet z" "zs_remove m z = Ok (z', n)" by blast
    with lk have "fst (cmd_zrem key m h) = put_value key it (VZSet z') h" by (simp add: cmd_zrem_def)
    with z zs_inv_remove show ?thesis by (metis value_inv.simps(1))
  next
    case False
    with lk have "fst (cmd_zrem key m h) = h"
      by (auto simp: cmd_zrem_def split: store_value.split result.split)
    then show ?thesis ..
  qed
qed (simp add: cmd_zrem_def)

lemma zset_shapes:
  "cmd_zadd key score m = create_then key (VZSet zs_new) (\<lambda>it h.
     case item_value it of
       VZSet z \<Rightarrow>
         (case zs_add score m z of
            Ok (z', n) \<Rightarrow> (put_value key it (VZSet z') h, reply (int_reply n))
          | Err e \<Rightarrow> (h, Err e)
          | Panic \<Rightarrow> (h, Panic))
     | _ \<Rightarrow> (h, Err wrong_type))"
  "cmd_geoadd key long lat m = create_then key (VZSet zs_new) (\<lambda>it h.
     case geo_score long lat of
       Ok score \<Rightarrow>
         (case item_value it of
            VZSet z \<Rightarrow>
              (case zs_add score m z of
                 Ok (z', n) \<Rightarrow> (put_value key it (VZSet z') h, reply (int_reply n))
               | Err e \<Rightarrow> (h, Err e)
               | Panic \<Rightarrow> (h, Panic))
          | _ \<Rightarrow> (h, Err wrong_type))
     | Err e \<Rightarrow> (h, Err e)
     | Panic \<Rightarrow> (h, Panic))"
  by (simp_all add: fun_eq_iff create_then_def cmd_zadd_def cmd_geoadd_def)

interpretation zadd_cmd: keyed_command key "cmd_zadd key score m" for key score m
  unfolding zset_shapes
  by (rule keyed_create_then)
    (auto simp: put_value_inv zs_inv_new zs_inv_add split: store_value.splits result.splits)

interpretation geoadd_cmd: keyed_command key "cmd_geoadd key long lat m" for key long lat m
  unfolding zset_shapes
  by (rule keyed_create_then)
    (auto simp: put_value_inv zs_inv_new zs_inv_add split: store_value.splits result.splits)

lemma xadd_setbit_shapes:
  "cmd_xadd key i vs = create_then key (VStream []) (\<lambda>it h.
     case item_value it of
       VStream b \<Rightarrow>
         (case xadd_clock i h of
            (now, h) \<Rightarrow>
              (case xadd_id i now b of
                 Ok sid \<Rightarrow>
                   (put_value key it (VStream (bt_insert sid vs b)) h, reply (bulk (show_stream_id sid)))
               | Err e \<Rightarrow> (h, Err e)
               | Panic \<Rightarrow> (h, Panic)))
     | _ \<Rightarrow> (h, Err (unsupported key)))"
  "cmd_setbit key off b = create_then key (VBitmap (bitmap_new (wrap_usize (off + 1)))) (\<lambda>it h.
     case item_value it of
       VBitmap m \<Rightarrow>
         (case setbit_map off b m of
            Ok m' \<Rightarrow>
              (put_value key it (VBitmap m') h, reply (int_reply (uint (unwrap_or_0 (bits_get m off)))))
          | Err e \<Rightarrow> (h, Err e)
          | Panic \<Rightarrow> (h, Panic))
     | _ \<Rightarrow> (h, Err Dummy))"
  by (simp_all add: fun_eq_iff create_then_def cmd_xadd_def cmd_setbit_def)

interpretation xadd_cmd: keyed_command key "cmd_xadd key i vs" for key i vs
  unfolding xadd_setbit_shapes
  by (rule keyed_create_then)
    (auto simp: put_value_inv case_prod_beta data_steps store_inv_insert
      split: store_value.splits result.splits intro: only_data_trans [OF only_data_tick(2) only_data_put(2)])

interpretation setbit_cmd: keyed_command key "cmd_setbit key i b" for key i b
  unfolding xadd_setbit_shapes
  by (rule keyed_create_then) (auto simp: put_value_inv split: store_value.splits result.splits)

definition bitop_dest :: "cmd_arg \<Rightarrow> string" where
  "bitop_dest a = (case a of ArgAND d _ _ \<Rightarrow> d | ArgOR d _ _ \<Rightarrow> d | _ \<Rightarrow> [])"

lemma bitop_store_effect:
  "only_data h (bitop_store d m h)" "k \<noteq> d \<Longrightarrow> look k (bitop_store d m h) = look k h"
  "store_inv (h_data h) \<Longrightarrow> store_inv (h_data (bitop_store d m h))"
  by (simp_all add: bitop_store_def only_dataI data_steps store_inv_insert store_inv_remove)
    (simp add: look_def)

interpretation bitop_cmd: keyed_command "bitop_dest a" "cmd_bitop a" for a
  by (rule keyed_commandI)
    (auto simp: cmd_bitop_def bitop_run_def bitop_dest_def bitop_store_effect
      split: cmd_arg.splits result.splits)

text \<open>GET only reads, apart from the clock.\<close>

interpretation get_cmd: keyed_command key "cmd_get key" for key
proof (rule keyed_commandI)
  fix h
  have "fst (cmd_get key h) = h \<or> fst (cmd_get key h) = snd (tick h)"
    by (auto simp: cmd_get_def split: option.splits store_value.splits prod.splits)
  then show "only_data h (fst (cmd_get key h))" "\<And>k. k \<noteq> key \<Longrightarrow> look k (fst (cmd_get key h)) = look k h"
    "store_inv (h_data h) \<Longrightarrow> store_inv (h_data (fst (cmd_get key h)))"
    by (auto simp: data_steps)
qed

end
