(* ===== verification/KeySpace.thy ===== *)
theory KeySpace
  imports KeyedCmds
begin

text \<open>
  An abstract specification of the key space, in the terms a user of the server thinks in:
  strings, lists, sets of bits, maps from members to scores and from ids to entries, with no
  bytes, trees or association lists. \<open>spec_cmd\<close> is one command on it, and the locale
  \<open>refined_command\<close> is what makes a handler of \<open>src/src/commands/cmd_handler.rs\<close> an
  implementation of it.
\<close>

section \<open>Abstract values\<close>

datatype avalue =
    AStr string
  | AList "string list"
  | AZSet "string \<rightharpoonup> f64"
  | AStream "stream_id \<rightharpoonup> string list"
  | ABits nat "nat set"
  | AOther store_value

text \<open>A bitmap is its number of bytes and the offsets of its one bits.\<close>

fun abs_value :: "store_value \<Rightarrow> avalue" where
  "abs_value (VStr s) = AStr s"
| "abs_value (VList xs) = AList xs"
| "abs_value (VZSet z) = AZSet (hm_get (zs_members z))"
| "abs_value (VStream b) = AStream (bt_get b)"
| "abs_value (VBitmap m) = ABits (length m) (bits m)"
| "abs_value v = AOther v"

type_synonym aitem = "avalue \<times> u64 option"
type_synonym keyspace = "string \<rightharpoonup> aitem"

definition abs_item :: "store_item \<Rightarrow> aitem" where
  "abs_item i = (abs_value (item_value i), expired_at i)"

definition abs_data :: "cmd_handler \<Rightarrow> keyspace" where
  "abs_data h k = map_option abs_item (look k h)"

text \<open>What a command does to one key, and the value a command that creates the key starts from.\<close>

definition at_key :: "string \<Rightarrow> (aitem option \<Rightarrow> aitem option \<times> reply) \<Rightarrow> keyspace \<Rightarrow> keyspace \<times> reply" where
  "at_key k f K = (case f (K k) of (v, r) \<Rightarrow> (K(k := v), r))"

definition or_new :: "avalue \<Rightarrow> aitem option \<Rightarrow> aitem" where
  "or_new v i = (case i of Some x \<Rightarrow> x | None \<Rightarrow> (v, None))"

section \<open>Strings\<close>

definition spec_deadline :: "cmd_arg option \<Rightarrow> u64 \<Rightarrow> u64 option" where
  "spec_deadline opt now =
     (case opt of
        Some (ArgEX (Some x)) \<Rightarrow> Some (now div 1000 + x)
      | Some (ArgPX (Some x)) \<Rightarrow> Some (now + x)
      | _ \<Rightarrow> None)"

definition spec_set :: "string \<Rightarrow> cmd_arg option \<Rightarrow> u64 \<Rightarrow> aitem option \<Rightarrow> aitem option \<times> reply" where
  "spec_set v opt now i = (Some (AStr v, spec_deadline opt now), reply response_ok)"

definition bits_chars :: "nat \<Rightarrow> nat set \<Rightarrow> bytes" where
  "bits_chars n S =
     map (\<lambda>j. char_of (horner_sum of_bool 2 (map (\<lambda>i. 8 * j + (7 - i) \<in> S) [0..<8]) :: nat)) [0..<n]"

definition spec_get :: "string \<Rightarrow> u64 \<Rightarrow> aitem option \<Rightarrow> aitem option \<times> reply" where
  "spec_get k now i =
     (i, case i of
           None \<Rightarrow> reply nil_bulk
         | Some (AStr s, e) \<Rightarrow>
             reply (case e of Some x \<Rightarrow> if x < now then nil_bulk else bulk s | None \<Rightarrow> bulk s)
         | Some (ABits n S, _) \<Rightarrow> reply (bulk_bytes (bits_chars n S))
         | _ \<Rightarrow> Err (unsupported k))"

definition spec_incr :: "aitem option \<Rightarrow> aitem option \<times> reply" where
  "spec_incr i =
     (case or_new (AStr ''0'') i of
        (AStr s, e) \<Rightarrow>
          (case parse_i64 s of
             Ok x \<Rightarrow>
               (if x < 2 ^ 63 - 1 then (Some (AStr (show_int (x + 1)), e), reply (int_reply (x + 1)))
                else (Some (AStr s, e), Err (UnprocessableError ''Integer overflow'')))
           | _ \<Rightarrow> (Some (AStr s, e), Err incr_error))
      | j \<Rightarrow> (Some j, Err incr_error))"

definition spec_type :: "aitem option \<Rightarrow> aitem option \<times> reply" where
  "spec_type i =
     (i, reply (SimpleStr (Some (case i of
           None \<Rightarrow> ''none''
         | Some (AStr _, _) \<Rightarrow> ''string''
         | Some (AList _, _) \<Rightarrow> ''list''
         | Some (AZSet _, _) \<Rightarrow> ''zset''
         | Some (AStream _, _) \<Rightarrow> ''stream''
         | Some (ABits _ _, _) \<Rightarrow> ''bitmap''
         | Some (AOther v, _) \<Rightarrow> get_type v))))"

section \<open>Lists\<close>

definition spec_push :: "string \<Rightarrow> (string list \<Rightarrow> string list) \<Rightarrow> aitem option \<Rightarrow> aitem option \<times> reply" where
  "spec_push k f i =
     (case or_new (AList []) i of
        (AList xs, e) \<Rightarrow> (Some (AList (f xs), e), reply (int_reply (int (length (f xs)))))
      | j \<Rightarrow> (Some j, Err (unsupported k)))"

definition spec_lpop :: "string \<Rightarrow> nat option \<Rightarrow> aitem option \<Rightarrow> aitem option \<times> reply" where
  "spec_lpop k n i =
     (case i of
        None \<Rightarrow> (None, reply nil_bulk)
      | Some (AList xs, e) \<Rightarrow>
          (case n of
             Some x \<Rightarrow> (Some (AList (drop x xs), e), reply (built (min x (length xs)) (map bulk (take x xs))))
           | None \<Rightarrow> (Some (AList (tl xs), e), reply (if xs = [] then nil_bulk else bulk (hd xs))))
      | Some j \<Rightarrow> (Some j, Err (unsupported k)))"

definition spec_llen :: "string \<Rightarrow> aitem option \<Rightarrow> aitem option \<times> reply" where
  "spec_llen k i =
     (i, case i of
           None \<Rightarrow> reply (int_reply 0)
         | Some (AList xs, _) \<Rightarrow> reply (int_reply (int (length xs)))
         | _ \<Rightarrow> Err (unsupported k))"

section \<open>Streams\<close>

definition spec_id :: "u64 option \<times> u64 option \<Rightarrow> u64 \<Rightarrow> (stream_id \<rightharpoonup> string list) \<Rightarrow> stream_id cres" where
  "spec_id i now S =
     (case i of
        (Some t, Some s) \<Rightarrow>
          (if (t, s) = (0, 0) then Err xadd_zero_error
           else if \<forall>j \<in> dom S. j < (t, s) then Ok (t, s) else Err xadd_last_error)
      | (Some t, None) \<Rightarrow>
          (if dom S = {} then Ok (t, if t = 0 then 1 else 0)
           else case Max (dom S) of (t', s') \<Rightarrow>
             if t = t' then Ok (t, s' + 1) else if t' < t then Ok (t, 0) else Err xadd_format_error)
      | (None, None) \<Rightarrow> Ok (now, 0)
      | (None, Some _) \<Rightarrow> Err xadd_format_error)"

definition spec_xadd ::
  "string \<Rightarrow> u64 option \<times> u64 option \<Rightarrow> string list \<Rightarrow> u64 \<Rightarrow> aitem option \<Rightarrow> aitem option \<times> reply" where
  "spec_xadd k sid vs now i =
     (case or_new (AStream (\<lambda>_. None)) i of
        (AStream S, e) \<Rightarrow>
          (case spec_id sid now S of
             Ok j \<Rightarrow> (Some (AStream (S(j \<mapsto> vs)), e), reply (bulk (show_stream_id j)))
           | Err er \<Rightarrow> (Some (AStream S, e), Err er)
           | Panic \<Rightarrow> (Some (AStream S, e), Panic))
      | j \<Rightarrow> (Some j, Err (unsupported k)))"

definition spec_xrange :: "string \<Rightarrow> stream_id \<Rightarrow> stream_id \<Rightarrow> aitem option \<Rightarrow> aitem option \<times> reply" where
  "spec_xrange k lo hi i =
     (i, case i of
           None \<Rightarrow> reply empty_arr
         | Some (AStream S, _) \<Rightarrow>
             reply (arr (map (\<lambda>j. arr [bulk (show_stream_id j), arr (map bulk (the (S j)))])
               (sorted_list_of_set {j \<in> dom S. lo \<le> j \<and> j \<le> hi})))
         | _ \<Rightarrow> Err (unsupported k))"

section \<open>Sorted sets\<close>

definition spec_zput :: "f64 \<Rightarrow> string \<Rightarrow> aitem option \<Rightarrow> aitem option \<times> reply" where
  "spec_zput s m i =
     (case or_new (AZSet (\<lambda>_. None)) i of
        (AZSet Z, e) \<Rightarrow> (Some (AZSet (Z(m \<mapsto> s)), e), reply (int_reply (if m \<in> dom Z then 0 else 1)))
      | j \<Rightarrow> (Some j, Err wrong_type))"

definition spec_geoadd :: "string \<Rightarrow> string \<Rightarrow> string \<Rightarrow> aitem option \<Rightarrow> aitem option \<times> reply" where
  "spec_geoadd long lat m i =
     (case geo_score long lat of
        Ok s \<Rightarrow> spec_zput s m i
      | Err e \<Rightarrow> (Some (or_new (AZSet (\<lambda>_. None)) i), Err e)
      | Panic \<Rightarrow> (Some (or_new (AZSet (\<lambda>_. None)) i), Panic))"

definition spec_zrem :: "string \<Rightarrow> aitem option \<Rightarrow> aitem option \<times> reply" where
  "spec_zrem m i =
     (case i of
        None \<Rightarrow> (None, reply (int_reply 0))
      | Some (AZSet Z, e) \<Rightarrow> (Some (AZSet (Z(m := None)), e), reply (int_reply (if m \<in> dom Z then 1 else 0)))
      | Some j \<Rightarrow> (Some j, Err wrong_type))"

definition spec_zread :: "resp_type \<Rightarrow> ((string \<rightharpoonup> f64) \<Rightarrow> resp_type) \<Rightarrow> aitem option \<Rightarrow> aitem option \<times> reply" where
  "spec_zread absent f i =
     (i, case i of None \<Rightarrow> reply absent | Some (AZSet Z, _) \<Rightarrow> reply (f Z) | _ \<Rightarrow> Err wrong_type)"

section \<open>Bits\<close>

definition bits_error :: custom_error where
  "bits_error = UnprocessableError ''Wrong data type''"

definition a_bits :: "aitem option \<Rightarrow> (nat \<times> nat set) option" where
  "a_bits i =
     (case i of
        None \<Rightarrow> Some (0, {})
      | Some (ABits n S, _) \<Rightarrow> Some (n, S)
      | Some (AStr s, _) \<Rightarrow> Some (length s, bits (as_bytes s))
      | _ \<Rightarrow> None)"

definition range_set :: "nat \<Rightarrow> nat set \<Rightarrow> bit_range option \<Rightarrow> nat set" where
  "range_set n S rng =
     (case rng of
        None \<Rightarrow> S
      | Some r \<Rightarrow>
          let u = (case br_unit r of UByte \<Rightarrow> 8 | UBit \<Rightarrow> 1);
              len = int (8 * n) div u;
              s = (if br_start r < 0 then max 0 (len + br_start r) else br_start r);
              e = (if br_end r < 0 then max 0 (len + br_end r) else br_end r)
          in {i \<in> S. u * s \<le> int i \<and> int i < u * (e + 1)})"

definition spec_setbit :: "nat \<Rightarrow> u8 \<Rightarrow> aitem option \<Rightarrow> aitem option \<times> reply" where
  "spec_setbit j b i =
     (case or_new (ABits (j div 8 + 1) {}) i of
        (ABits n S, e) \<Rightarrow>
          (let old = (if j \<in> S then 1 else 0) in
           if b = old then (Some (ABits n S, e), reply (int_reply (uint old)))
           else if b = 0 \<or> b = 1 then
             (Some (ABits (max n (j div 8 + 1)) (if b = 1 then insert j S else S - {j}), e),
              reply (int_reply (uint old)))
           else (Some (ABits n S, e), Err (ParseError ''Input must be either 0 or 1'')))
      | w \<Rightarrow> (Some w, Err Dummy))"

definition spec_bits :: "(nat \<Rightarrow> nat set \<Rightarrow> int) \<Rightarrow> aitem option \<Rightarrow> aitem option \<times> reply" where
  "spec_bits f i = (i, case a_bits i of Some (n, S) \<Rightarrow> reply (int_reply (f n S)) | None \<Rightarrow> Err bits_error)"

definition spec_strlen :: "aitem option \<Rightarrow> aitem option \<times> reply" where
  "spec_strlen i =
     (i, case i of
           None \<Rightarrow> reply (int_reply 0)
         | Some (ABits n _, _) \<Rightarrow> reply (int_reply (int n))
         | _ \<Rightarrow> Err bits_error)"

definition spec_bitop ::
  "(nat set \<Rightarrow> nat set \<Rightarrow> nat set) \<Rightarrow> string \<Rightarrow> string \<Rightarrow> string \<Rightarrow> keyspace \<Rightarrow> keyspace \<times> reply" where
  "spec_bitop f d k1 k2 K =
     (case (a_bits (K k1), a_bits (K k2)) of
        (Some (n1, S1), Some (n2, S2)) \<Rightarrow>
          (let n = max n1 n2 in
           (K(d := (if n = 0 then None else Some (ABits n (f S1 S2), None))), reply (int_reply (int n))))
      | _ \<Rightarrow> (K, Err bits_error))"

section \<open>The specification of a command\<close>

definition spec_cmd :: "u64 \<Rightarrow> cmd \<Rightarrow> keyspace \<Rightarrow> keyspace \<times> reply" where
  "spec_cmd now c =
     (case c of
        CSET k v opt \<Rightarrow> at_key k (spec_set v opt now)
      | CGET k \<Rightarrow> at_key k (spec_get k now)
      | CINCR k \<Rightarrow> at_key k spec_incr
      | CTYPE k \<Rightarrow> at_key k spec_type
      | CRPUSH k vs \<Rightarrow> at_key k (spec_push k (\<lambda>xs. xs @ vs))
      | CLPUSH k vs \<Rightarrow> at_key k (spec_push k (\<lambda>xs. rev vs @ xs))
      | CLPOP k n \<Rightarrow> at_key k (spec_lpop k n)
      | CLLEN k \<Rightarrow> at_key k (spec_llen k)
      | CXADD k i vs \<Rightarrow> at_key k (spec_xadd k i vs now)
      | CXRANGE k lo hi \<Rightarrow> at_key k (spec_xrange k lo hi)
      | CZADD k s m \<Rightarrow> at_key k (spec_zput s m)
      | CGEOADD k x y m \<Rightarrow> at_key k (spec_geoadd x y m)
      | CZREM k m \<Rightarrow> at_key k (spec_zrem m)
      | CZCARD k \<Rightarrow> at_key k (spec_zread (int_reply 0) (\<lambda>Z. int_reply (int (card (dom Z)))))
      | CZSCORE k m \<Rightarrow>
          at_key k (spec_zread empty_arr (\<lambda>Z. case Z m of Some s \<Rightarrow> bulk (show_f64 s) | None \<Rightarrow> nil_bulk))
      | CSETBIT k j b \<Rightarrow> at_key k (spec_setbit j b)
      | CGETBIT k j \<Rightarrow> at_key k (spec_bits (\<lambda>n S. if j \<in> S then 1 else 0))
      | CBITCOUNT k r \<Rightarrow> at_key k (spec_bits (\<lambda>n S. int (card (range_set n S r))))
      | CSTRLEN k \<Rightarrow> at_key k spec_strlen
      | CBITOP (ArgAND d k1 k2) \<Rightarrow> spec_bitop (\<inter>) d k1 k2
      | CBITOP (ArgOR d k1 k2) \<Rightarrow> spec_bitop (\<union>) d k1 k2
      | _ \<Rightarrow> (\<lambda>K. (K, Ok None)))"

text \<open>The commands it speaks about. The last offset of \<open>usize\<close> has no successor.\<close>

definition specified :: "cmd \<Rightarrow> bool" where
  "specified c =
     (case c of
        CSET _ _ _ \<Rightarrow> True | CGET _ \<Rightarrow> True | CINCR _ \<Rightarrow> True | CTYPE _ \<Rightarrow> True
      | CRPUSH _ _ \<Rightarrow> True | CLPUSH _ _ \<Rightarrow> True | CLPOP _ _ \<Rightarrow> True | CLLEN _ \<Rightarrow> True
      | CXADD _ _ _ \<Rightarrow> True | CXRANGE _ _ _ \<Rightarrow> True
      | CZADD _ _ _ \<Rightarrow> True | CGEOADD _ _ _ _ \<Rightarrow> True | CZREM _ _ \<Rightarrow> True | CZCARD _ \<Rightarrow> True | CZSCORE _ _ \<Rightarrow> True
      | CSETBIT _ j _ \<Rightarrow> j + 1 < 2 ^ 64 | CGETBIT _ _ \<Rightarrow> True | CBITCOUNT _ _ \<Rightarrow> True | CSTRLEN _ \<Rightarrow> True
      | CBITOP (ArgAND _ _ _) \<Rightarrow> True | CBITOP (ArgOR _ _ _) \<Rightarrow> True
      | _ \<Rightarrow> False)"

end
