(* ===== verification/KeySpaceRefined.thy ===== *)
theory KeySpaceRefined
  imports KeySpace
begin

text \<open>The handlers of the data commands implement the specification of theory \<open>KeySpace\<close>.\<close>

section \<open>The contract\<close>

locale refined_command = keyed_command +
  fixes spec :: "u64 \<Rightarrow> keyspace \<Rightarrow> keyspace \<times> reply"
  assumes refines: "store_inv (h_data h) \<Longrightarrow> snd (run h) \<noteq> Panic \<Longrightarrow>
      spec (h_clock h (h_reads h)) (abs_data h) = (abs_data (fst (run h)), snd (run h))"

text \<open>For a command on one key it is enough to look at that key.\<close>

lemma refined_at_key:
  assumes "keyed_command key run"
    and "\<And>h. store_inv (h_data h) \<Longrightarrow> snd (run h) \<noteq> Panic \<Longrightarrow>
      f (h_clock h (h_reads h)) (map_option abs_item (look key h)) =
        (map_option abs_item (look key (fst (run h))), snd (run h))"
  shows "refined_command key run (\<lambda>now. at_key key (f now))"
proof -
  have "at_key key (f (h_clock h (h_reads h))) (abs_data h) = (abs_data (fst (run h)), snd (run h))"
    if "store_inv (h_data h)" and "snd (run h) \<noteq> Panic" for h
    using assms(2) [OF that] keyed_command.other_keys [OF assms(1)]
    by (auto simp: at_key_def abs_data_def fun_eq_iff)
  with assms(1) show ?thesis by (simp add: refined_command_def refined_command_axioms_def)
qed

text \<open>A command that only reads is a function of the handler.\<close>

lemma keyed_read: "keyed_command key (\<lambda>h. (h, f h))"
  by unfold_locales simp_all

lemma refined_read:
  assumes "\<And>h. store_inv (h_data h) \<Longrightarrow> f h \<noteq> Panic \<Longrightarrow>
      g (map_option abs_item (look key h)) = (map_option abs_item (look key h), f h)"
  shows "refined_command key (\<lambda>h. (h, f h)) (\<lambda>now. at_key key g)"
  by (rule refined_at_key [OF keyed_read]) (simp add: assms)

text \<open>A command that creates the key first: only the item it then works on matters.\<close>

lemma or_insert_abs:
  assumes "or_insert key v h = (h1, it)"
  shows "or_new (abs_value v) (map_option abs_item (look key h)) = abs_item it"
    and "look key h1 = Some it" and "h_clock h1 (h_reads h1) = h_clock h (h_reads h)"
proof -
  show "or_new (abs_value v) (map_option abs_item (look key h)) = abs_item it"
    using assms by (auto simp: or_insert_def or_new_def abs_item_def split: option.splits)
  show "look key h1 = Some it" using look_or_insert(1) [of key] look_or_insert(2) assms by (metis (full_types) fst_conv snd_conv)
  show "h_clock h1 (h_reads h1) = h_clock h (h_reads h)"
    using only_dataD(13) [OF only_data_or_insert [OF assms]] assms
    by (auto simp: or_insert_def put_def split: option.splits)
qed

lemma refined_create:
  assumes "keyed_command key (create_then key v act)"
    and "\<And>h it. value_inv (item_value it) \<Longrightarrow> look key h = Some it \<Longrightarrow> snd (act it h) \<noteq> Panic \<Longrightarrow>
      f (h_clock h (h_reads h)) (abs_item it) = (map_option abs_item (look key (fst (act it h))), snd (act it h))"
    and "value_inv v" and "\<And>now i. g now i = f now (or_new (abs_value v) i)"
  shows "refined_command key (create_then key v act) (\<lambda>now. at_key key (g now))"
proof (rule refined_at_key [OF assms(1)])
  fix h assume h: "store_inv (h_data h)" "snd (create_then key v act h) \<noteq> Panic"
  obtain h1 it where oi: "or_insert key v h = (h1, it)" by fastforce
  note a = or_insert_abs [OF oi] and i = or_insert_inv [OF oi h(1) assms(3)]
  have c: "create_then key v act h = act it h1" using oi by (simp add: create_then_def)
  from assms(2) [OF i(2) a(2)] h(2) show
    "g (h_clock h (h_reads h)) (map_option abs_item (look key h)) =
      (map_option abs_item (look key (fst (create_then key v act h))), snd (create_then key v act h))"
    unfolding c by (simp add: assms(4) a(1,3))
qed

lemmas abs_simps = abs_item_def reply_def

section \<open>Strings\<close>

lemma deadline_spec:
  "snd (extract_deadline opt h) \<noteq> Panic \<Longrightarrow>
   snd (extract_deadline opt h) = Ok (spec_deadline opt (h_clock h (h_reads h)))"
proof (cases opt)
  case (Some a)
  show "snd (extract_deadline opt h) \<noteq> Panic \<Longrightarrow> ?thesis"
  proof (cases a)
    case (ArgEX x)
    then show "snd (extract_deadline opt h) \<noteq> Panic \<Longrightarrow> ?thesis"
      by (cases x) (simp_all add: Some extract_deadline_def tick_def spec_deadline_def)
  next
    case (ArgPX x)
    then show "snd (extract_deadline opt h) \<noteq> Panic \<Longrightarrow> ?thesis"
      by (cases x) (simp_all add: Some extract_deadline_def tick_def spec_deadline_def)
  qed (simp_all add: Some extract_deadline_def tick_def spec_deadline_def)
qed (simp add: extract_deadline_def spec_deadline_def)

interpretation set_spec: refined_command key "cmd_set key v opt" "\<lambda>now. at_key key (spec_set v opt now)" for key v opt
proof (rule refined_at_key [OF set_cmd.keyed_command_axioms])
  fix h assume n: "snd (cmd_set key v opt h) \<noteq> Panic"
  obtain h1 r where e: "extract_deadline opt h = (h1, r)" by fastforce
  with n have "snd (extract_deadline opt h) \<noteq> Panic" by (auto simp: cmd_set_def)
  from deadline_spec [OF this] e show "spec_set v opt (h_clock h (h_reads h)) (map_option abs_item (look key h)) =
      (map_option abs_item (look key (fst (cmd_set key v opt h))), snd (cmd_set key v opt h))"
    by (simp add: cmd_set_def spec_set_def abs_simps)
qed

interpretation incr_spec: refined_command key "cmd_incr key" "\<lambda>now. at_key key spec_incr" for key
  unfolding create_shapes
  by (rule refined_create [OF incr_cmd.keyed_command_axioms [unfolded create_shapes], where
        f = "\<lambda>_ j. spec_incr (Some j)"])
    (auto simp: spec_incr_def or_new_def abs_simps split: store_value.splits result.splits option.splits)

interpretation type_spec: refined_command key "\<lambda>h. (h, cmd_type key h)" "\<lambda>now. at_key key spec_type" for key
proof (rule refined_read)
  fix h
  show "spec_type (map_option abs_item (look key h)) = (map_option abs_item (look key h), cmd_type key h)"
  proof (cases "look key h")
    case (Some it)
    then show ?thesis by (cases "item_value it") (simp_all add: spec_type_def cmd_type_def abs_simps)
  qed (simp add: spec_type_def cmd_type_def reply_def)
qed

section \<open>Lists\<close>

interpretation rpush_spec: refined_command key "cmd_rpush key vs"
  "\<lambda>now. at_key key (spec_push key (\<lambda>xs. xs @ vs))" for key vs
  unfolding create_shapes
  by (rule refined_create [OF rpush_cmd.keyed_command_axioms [unfolded create_shapes], where
        f = "\<lambda>_ j. spec_push key (\<lambda>xs. xs @ vs) (Some j)"])
    (auto simp: spec_push_def or_new_def abs_simps split: store_value.splits)

interpretation lpush_spec: refined_command key "cmd_lpush key vs"
  "\<lambda>now. at_key key (spec_push key (\<lambda>xs. rev vs @ xs))" for key vs
  unfolding cmd_lpush_shape
  by (rule refined_create [OF lpush_cmd.keyed_command_axioms [unfolded cmd_lpush_shape], where
        f = "\<lambda>_ j. spec_push key (\<lambda>xs. rev vs @ xs) (Some j)"])
    (auto simp: spec_push_def or_new_def fold_push_front abs_simps split: store_value.splits)

interpretation lpop_spec: refined_command key "cmd_lpop key n" "\<lambda>now. at_key key (spec_lpop key n)" for key n
  by (rule refined_at_key [OF lpop_cmd.keyed_command_axioms])
    (auto simp: spec_lpop_def cmd_lpop_def abs_simps Let_def min_def take_all drop_all
      split: option.splits store_value.splits list.splits)

interpretation llen_spec: refined_command key "\<lambda>h. (h, cmd_llen key h)" "\<lambda>now. at_key key (spec_llen key)" for key
  by (rule refined_read)
    (auto simp: spec_llen_def cmd_llen_def abs_simps split: option.split store_value.split)

section \<open>Reading strings and bitmaps\<close>

lemma byte_of_bits: "horner_sum of_bool 2 (map (bit b) [0..<8]) = unat b" for b :: u8
proof -
  have "map (bit b) [0..<8] = map (bit (unat b)) [0..<8]" by (simp add: bit_unsigned_iff)
  moreover have "take_bit 8 (unat b) = unat b"
    using unsigned_less [of b, where ?'a = nat] by (simp add: take_bit_nat_eq_self)
  ultimately show ?thesis by (simp only: horner_sum_bit_eq_take_bit)
qed

lemma bits_of_byte: "j < length m \<Longrightarrow> i < 8 \<Longrightarrow> 8 * j + (7 - i) \<in> bits m \<longleftrightarrow> bit (m ! j) i"
proof -
  assume "j < length m" "i < 8"
  then obtain r where r: "r = 7 - i" "r < 8" "7 - r = i" by simp
  from r(2) have "(8 * j + r) div 8 = j" "(8 * j + r) mod 8 = r" by simp_all
  with r(3) \<open>j < length m\<close> show ?thesis by (simp only: bits_def r(1) [symmetric]) simp
qed

lemma bits_chars_bits: "bits_chars (length m) (bits m) = bitmap_chars m"
proof (rule nth_equalityI)
  fix j assume "j < length (bits_chars (length m) (bits m))"
  then have j: "j < length m" by (simp add: bits_chars_def)
  then have "map (\<lambda>i. 8 * j + (7 - i) \<in> bits m) [0..<8] = map (bit (m ! j)) [0..<8]"
    by (intro map_cong refl bits_of_byte) simp_all
  then have "horner_sum of_bool 2 (map (\<lambda>i. 8 * j + (7 - i) \<in> bits m) [0..<8]) = unat (m ! j)"
    by (simp only: byte_of_bits)
  with j show "bits_chars (length m) (bits m) ! j = bitmap_chars m ! j"
    by (simp add: bits_chars_def bitmap_chars_def)
qed (simp add: bits_chars_def bitmap_chars_def)

interpretation get_spec: refined_command key "cmd_get key" "\<lambda>now. at_key key (spec_get key now)" for key
proof (rule refined_at_key [OF get_cmd.keyed_command_axioms])
  fix h
  show "spec_get key (h_clock h (h_reads h)) (map_option abs_item (look key h)) =
      (map_option abs_item (look key (fst (cmd_get key h))), snd (cmd_get key h))"
  proof (cases "look key h")
    case (Some it)
    then show ?thesis
      by (cases "item_value it")
        (simp_all add: spec_get_def cmd_get_look, simp_all add: cmd_get_def tick_def abs_simps bits_chars_bits split: option.split)
  qed (simp add: spec_get_def cmd_get_def)
qed

section \<open>Streams\<close>

lemma dom_bt_get: "dom (bt_get b) = bt_keys b"
  by (auto simp: bt_keys_get)

lemma bt_last_Max: "bt_inv b \<Longrightarrow> bt_last b = Some (l, v) \<Longrightarrow> Max (bt_keys b) = l"
proof -
  assume b: "bt_inv b" "bt_last b = Some (l, v)"
  then have "(l, v) \<in> set b" by (auto simp: bt_last_def split: if_splits) (metis last_in_set)
  then have "l \<in> bt_keys b" by (force simp: bt_keys_def)
  with bt_last_max [OF b] show ?thesis by (intro Max_eqI) (auto simp: bt_keys_def)
qed

lemma xadd_id_spec:
  assumes "bt_inv b"
  shows "spec_id i now (bt_get b) = xadd_id i now b"
proof (cases "bt_last b")
  case None
  then have "bt_get b = (\<lambda>_. None)" by (simp add: bt_last_None_iff)
  with None show ?thesis
    by (cases i; cases "fst i"; cases "snd i") (simp_all add: spec_id_def xadd_id_def)
next
  case (Some kv)
  obtain l v where kv: "kv = (l, v)" by (cases kv)
  have M: "Max (bt_keys b) = l" using bt_last_Max [OF assms] Some kv by simp
  have ne: "bt_keys b \<noteq> {}" using Some by (auto simp: bt_keys_empty bt_last_def)
  have all: "(\<forall>j \<in> bt_keys b. j < k) \<longleftrightarrow> l < k" for k
    using Max_less_iff [OF finite_bt_keys ne, of k] M by simp
  obtain tl il where l: "l = (tl, il)" by (cases l)
  have "l < (t, s) \<longleftrightarrow> tl < t \<or> t = tl \<and> il < s" for t s
    by (auto simp: l less_prod_def)
  with all have e: "(\<forall>j \<in> bt_keys b. j < (t, s)) \<longleftrightarrow> tl < t \<or> t = tl \<and> il < s" for t s by metis
  show ?thesis
    using ne by (cases i; cases "fst i"; cases "snd i")
      (simp_all add: spec_id_def xadd_id_def dom_bt_get e M Some kv l)
qed

lemma spec_id_clock: "i \<noteq> (None, None) \<Longrightarrow> spec_id i now S = spec_id i now' S"
  by (cases i; cases "fst i"; cases "snd i") (simp_all add: spec_id_def)

interpretation xadd_spec: refined_command key "cmd_xadd key i vs" "\<lambda>now. at_key key (spec_xadd key i vs now)"
  for key i vs
  unfolding xadd_setbit_shapes
proof (rule refined_create [OF xadd_cmd.keyed_command_axioms [unfolded xadd_setbit_shapes], where
        f = "\<lambda>now j. spec_xadd key i vs now (Some j)"])
  fix h it
  let ?act = "\<lambda>it h. case item_value it of
       VStream b \<Rightarrow>
         (case xadd_clock i h of
            (now, h) \<Rightarrow>
              (case xadd_id i now b of
                 Ok sid \<Rightarrow>
                   (put_value key it (VStream (bt_insert sid vs b)) h, reply (bulk (show_stream_id sid)))
               | Err e \<Rightarrow> (h, Err e)
               | Panic \<Rightarrow> (h, Panic)))
     | _ \<Rightarrow> (h, Err (unsupported key))"
  assume it: "value_inv (item_value it)" "look key h = Some it"
  obtain now h1 where c: "xadd_clock i h = (now, h1)" by fastforce
  then have h1: "look key h1 = Some it" using it(2) look_xadd_clock [of key i h] by simp
  have n: "spec_id i (h_clock h (h_reads h)) S = spec_id i now S" for S
    using c spec_id_clock [of i] by (cases "i = (None, None)") (simp_all add: xadd_clock_def tick_def)
  show "spec_xadd key i vs (h_clock h (h_reads h)) (Some (abs_item it)) =
      (map_option abs_item (look key (fst (?act it h))), snd (?act it h))"
  proof (cases "item_value it")
    case (VStream b)
    with it(1) have b: "bt_inv b" by simp
    have "bt_get (bt_insert j vs b) = (bt_get b)(j \<mapsto> vs)" for j
      using b by (auto simp: fun_eq_iff bt_get_insert)
    with VStream b c h1 n show ?thesis
      by (cases "xadd_id i now b") (simp_all add: spec_xadd_def or_new_def abs_simps xadd_id_spec)
  qed (use it(2) in \<open>simp_all add: spec_xadd_def or_new_def abs_simps\<close>)
qed (simp_all add: spec_xadd_def or_new_def fun_eq_iff split: option.split)

lemma sorted_range:
  assumes "bt_inv b"
  shows "map (\<lambda>j. f j (the (bt_get b j))) (sorted_list_of_set {j \<in> bt_keys b. P j}) =
    map (\<lambda>(j, v). f j v) (filter (\<lambda>(j, _). P j) b)"
proof -
  let ?b = "filter (\<lambda>(j, _). P j) b"
  have i: "bt_inv ?b" by (rule bt_inv_filter [OF assms])
  have "bt_keys ?b = {j \<in> bt_keys b. P j}" by (force simp: bt_keys_def)
  moreover have "sorted_list_of_set (bt_keys ?b) = map fst ?b"
    using strict_sorted_equal [of "sorted_list_of_set (bt_keys ?b)" "map fst ?b"] i
    by (simp add: bt_inv_def bt_keys_set)
  moreover have "map (\<lambda>j. f j (the (bt_get b j))) (map fst ?b) = map (\<lambda>(j, v). f j v) ?b"
    using bt_get_Some_in [OF assms] by auto
  ultimately show ?thesis by metis
qed

interpretation xrange_spec: refined_command key "\<lambda>h. (h, cmd_xrange key lo hi h)"
  "\<lambda>now. at_key key (spec_xrange key lo hi)" for key lo hi
proof (rule refined_read)
  fix h assume h: "store_inv (h_data h)" "cmd_xrange key lo hi h \<noteq> Panic"
  show "spec_xrange key lo hi (map_option abs_item (look key h)) =
      (map_option abs_item (look key h), cmd_xrange key lo hi h)"
  proof (cases "look key h")
    case (Some it)
    show ?thesis
    proof (cases "item_value it")
      case (VStream b)
      with look_in_store [OF h(1) Some] have b: "bt_inv b" by simp
      have le: "lo \<le> hi \<or> b = []" using h(2) cmd_xrange_panics [OF Some VStream, of hi lo] by (meson not_less)
      have "cmd_xrange key lo hi h = reply (arr (map (\<lambda>(i, v). arr [bulk (show_stream_id i), arr (map bulk v)])
          (filter (\<lambda>(i, _). lo \<le> i \<and> i \<le> hi) b)))"
      proof (cases "lo \<le> hi")
        case True
        then show ?thesis by (rule cmd_xrange_entries [OF Some VStream])
      next
        case False
        with le Some VStream show ?thesis
          by (simp add: cmd_xrange_def bt_range_def get_resp_stream_entity_def filled_eq)
      qed
      with Some VStream show ?thesis
        using sorted_range [OF b, of "\<lambda>i v. arr [bulk (show_stream_id i), arr (map bulk v)]" "\<lambda>i. lo \<le> i \<and> i \<le> hi"]
        by (simp add: spec_xrange_def abs_simps dom_bt_get)
    qed (use Some in \<open>simp_all add: spec_xrange_def cmd_xrange_def abs_simps\<close>)
  qed (simp add: spec_xrange_def cmd_xrange_def)
qed

section \<open>Sorted sets\<close>

lemma zs_add_spec:
  assumes "zs_inv z" and "zs_add s m z \<noteq> Panic"
  obtains z' where "zs_add s m z = Ok (z', if m \<in> dom (hm_get (zs_members z)) then 0 else 1)"
    "hm_get (zs_members z') = (hm_get (zs_members z))(m \<mapsto> s)"
proof -
  have "zs_add s m z \<noteq> Err e" for e
    by (simp add: zs_add_def Let_def sc_insert_def sc_remove_def)
  with assms(2) obtain z' n where z': "zs_add s m z = Ok (z', n)" by (cases "zs_add s m z") auto
  have "bt_inv (zs_scores z)" using assms(1) by (simp add: zs_inv_def)
  note a = zs_add_Ok [OF z' this]
  show thesis
    using z' a(1,4) by (intro that [of z']) (auto simp: hm_contains_def fun_eq_iff)
qed

lemma zput_spec:
  assumes "item_value it = VZSet z" and "zs_inv z" and "zs_add s m z \<noteq> Panic" and "look key h = Some it"
  shows "spec_zput s m (Some (abs_item it)) =
    (case zs_add s m z of
       Ok (z', n) \<Rightarrow> (map_option abs_item (look key (put_value key it (VZSet z') h)), reply (int_reply n))
     | Err e \<Rightarrow> (map_option abs_item (look key h), Err e)
     | Panic \<Rightarrow> (map_option abs_item (look key h), Panic))"
proof -
  obtain z' where "zs_add s m z = Ok (z', if m \<in> dom (hm_get (zs_members z)) then 0 else 1)"
    "hm_get (zs_members z') = (hm_get (zs_members z))(m \<mapsto> s)"
    using zs_add_spec [OF assms(2,3)] by blast
  with assms(1) show ?thesis by (simp add: spec_zput_def or_new_def abs_simps)
qed

interpretation zadd_spec: refined_command key "cmd_zadd key s m" "\<lambda>now. at_key key (spec_zput s m)" for key s m
  unfolding zset_shapes
proof (rule refined_create [OF zadd_cmd.keyed_command_axioms [unfolded zset_shapes], where
        f = "\<lambda>_ j. spec_zput s m (Some j)"])
  fix h it
  let ?act = "\<lambda>it h. case item_value it of
       VZSet z \<Rightarrow>
         (case zs_add s m z of
            Ok (z', n) \<Rightarrow> (put_value key it (VZSet z') h, reply (int_reply n))
          | Err e \<Rightarrow> (h, Err e)
          | Panic \<Rightarrow> (h, Panic))
     | _ \<Rightarrow> (h, Err wrong_type)"
  assume it: "value_inv (item_value it)" "look key h = Some it" "snd (?act it h) \<noteq> Panic"
  show "spec_zput s m (Some (abs_item it)) = (map_option abs_item (look key (fst (?act it h))), snd (?act it h))"
  proof (cases "item_value it")
    case (VZSet z)
    with it have "zs_inv z" "zs_add s m z \<noteq> Panic" by auto
    from zput_spec [OF VZSet this it(2)] show ?thesis
      by (cases "zs_add s m z") (simp_all add: VZSet case_prod_beta)
  qed (use it(2) in \<open>simp_all add: spec_zput_def or_new_def abs_simps\<close>)
next
  show "value_inv (VZSet zs_new)" by (simp add: zs_inv_new)
  show "spec_zput s m i = spec_zput s m (Some (or_new (abs_value (VZSet zs_new)) i))" for i
    by (simp add: zs_new_def spec_zput_def or_new_def split: option.split)
qed

interpretation geoadd_spec: refined_command key "cmd_geoadd key long lat m" "\<lambda>now. at_key key (spec_geoadd long lat m)"
  for key long lat m
  unfolding zset_shapes
proof (rule refined_create [OF geoadd_cmd.keyed_command_axioms [unfolded zset_shapes], where
        f = "\<lambda>_ j. spec_geoadd long lat m (Some j)"])
  fix h it
  let ?act = "\<lambda>it h. case geo_score long lat of
       Ok score \<Rightarrow>
         (case item_value it of
            VZSet z \<Rightarrow>
              (case zs_add score m z of
                 Ok (z', n) \<Rightarrow> (put_value key it (VZSet z') h, reply (int_reply n))
               | Err e \<Rightarrow> (h, Err e)
               | Panic \<Rightarrow> (h, Panic))
          | _ \<Rightarrow> (h, Err wrong_type))
     | Err e \<Rightarrow> (h, Err e)
     | Panic \<Rightarrow> (h, Panic)"
  assume it: "value_inv (item_value it)" "look key h = Some it" "snd (?act it h) \<noteq> Panic"
  show "spec_geoadd long lat m (Some (abs_item it)) =
      (map_option abs_item (look key (fst (?act it h))), snd (?act it h))"
  proof (cases "geo_score long lat")
    case (Ok s)
    show ?thesis
    proof (cases "item_value it")
      case (VZSet z)
      with Ok it have "zs_inv z" "zs_add s m z \<noteq> Panic" by auto
      from zput_spec [OF VZSet this it(2)] Ok show ?thesis
        by (cases "zs_add s m z") (simp_all add: VZSet spec_geoadd_def case_prod_beta)
    qed (use it(2) Ok in \<open>simp_all add: spec_geoadd_def spec_zput_def or_new_def abs_simps\<close>)
  qed (use it(2,3) in \<open>simp_all add: spec_geoadd_def or_new_def\<close>)
next
  show "value_inv (VZSet zs_new)" by (simp add: zs_inv_new)
  show "spec_geoadd long lat m i = spec_geoadd long lat m (Some (or_new (abs_value (VZSet zs_new)) i))" for i
    by (simp add: zs_new_def spec_geoadd_def spec_zput_def or_new_def split: option.split result.split)
qed

lemma zs_remove_spec:
  assumes "zs_inv z" and "zs_remove m z \<noteq> Panic"
  obtains z' where "zs_remove m z = Ok (z', if m \<in> dom (hm_get (zs_members z)) then 1 else 0)"
    "hm_get (zs_members z') = (hm_get (zs_members z))(m := None)"
proof (cases "hm_get (zs_members z) m")
  case None
  then have "hm_get (zs_members z) = (hm_get (zs_members z))(m := None)" by (simp add: fun_upd_idem)
  with None that [of z] show thesis by (simp add: zs_remove_absent domIff)
next
  case (Some s)
  have "zs_remove m z \<noteq> Err e" for e by (simp add: zs_remove_def Some sc_remove_def)
  with assms(2) obtain z' n where z': "zs_remove m z = Ok (z', n)" by (cases "zs_remove m z") auto
  from zs_remove_Ok(1,4) [OF z' assms(1) Some] z' Some that [of z'] show thesis
    by (simp add: fun_eq_iff domIff)
qed

interpretation zrem_spec: refined_command key "cmd_zrem key m" "\<lambda>now. at_key key (spec_zrem m)" for key m
proof (rule refined_at_key [OF zrem_cmd.keyed_command_axioms])
  fix h assume h: "store_inv (h_data h)" "snd (cmd_zrem key m h) \<noteq> Panic"
  show "spec_zrem m (map_option abs_item (look key h)) =
      (map_option abs_item (look key (fst (cmd_zrem key m h))), snd (cmd_zrem key m h))"
  proof (cases "look key h")
    case (Some it)
    show ?thesis
    proof (cases "item_value it")
      case (VZSet z)
      with look_in_store [OF h(1) Some] have z: "zs_inv z" by simp
      moreover have "zs_remove m z \<noteq> Panic" using h(2) Some VZSet by (auto simp: cmd_zrem_def)
      ultimately obtain z' where "zs_remove m z = Ok (z', if m \<in> dom (hm_get (zs_members z)) then 1 else 0)"
        "hm_get (zs_members z') = (hm_get (zs_members z))(m := None)"
        using zs_remove_spec by blast
      with Some VZSet show ?thesis by (simp add: spec_zrem_def cmd_zrem_def abs_simps)
    qed (use Some in \<open>simp_all add: spec_zrem_def cmd_zrem_def abs_simps\<close>)
  qed (simp add: spec_zrem_def cmd_zrem_def)
qed

text \<open>Reading a sorted set through its map of members.\<close>

lemma refined_zread:
  assumes "\<And>z. zs_inv z \<Longrightarrow> f z = reply (g (hm_get (zs_members z)))"
  shows "refined_command key (\<lambda>h. (h, on_zset key (reply absent) f (Err wrong_type) h))
    (\<lambda>now. at_key key (spec_zread absent g))"
proof (rule refined_read)
  fix h :: cmd_handler assume h: "store_inv (h_data h)"
  show "spec_zread absent g (map_option abs_item (look key h)) =
      (map_option abs_item (look key h), on_zset key (reply absent) f (Err wrong_type) h)"
  proof (cases "look key h")
    case (Some it)
    with look_in_store [OF h Some] assms show ?thesis
      by (cases "item_value it") (simp_all add: spec_zread_def on_zset_def abs_item_def)
  qed (simp add: spec_zread_def on_zset_def)
qed

lemma zs_len_card: "zs_inv z \<Longrightarrow> zs_len z = card (dom (hm_get (zs_members z)))"
  using distinct_card [of "map fst (zs_members z)"]
  by (simp add: zs_len_def zs_inv_def hm_inv_def dom_map_of_conv_image_fst)

interpretation zcard_spec: refined_command key "\<lambda>h. (h, cmd_zcard key h)"
  "\<lambda>now. at_key key (spec_zread (int_reply 0) (\<lambda>Z. int_reply (int (card (dom Z)))))" for key
  unfolding cmd_zcard_def by (rule refined_zread) (simp add: zs_len_card)

interpretation zscore_spec: refined_command key "\<lambda>h. (h, cmd_zscore key m h)"
  "\<lambda>now. at_key key (spec_zread empty_arr (\<lambda>Z. case Z m of Some s \<Rightarrow> bulk (show_f64 s) | None \<Rightarrow> nil_bulk))"
  for key m
  unfolding cmd_zscore_def by (rule refined_zread) (simp add: zs_score_def)

section \<open>Bits\<close>

lemma length_extend: "i + 1 < 2 ^ 64 \<Longrightarrow> length (bitmap_extend i m) = max (length m) (i div 8 + 1)"
  using div_add_self1 [of 8 i] by (auto simp: bitmap_extend_def wrap_usize_def max_def)

lemma setbit_map_spec:
  assumes "i + 1 < 2 ^ 64" and "b \<noteq> (if i \<in> bits m then 1 else 0)" and "b = 0 \<or> b = 1"
  obtains m' where "setbit_map i b m = Ok m'" "length m' = max (length m) (i div 8 + 1)"
    "bits m' = (if b = 1 then insert i (bits m) else bits m - {i})"
proof -
  define v where "v = (if b = 1 then One else Zero)"
  have v: "bit_value_of b = Ok v" using assms(3) by (auto simp: bit_value_of_def v_def)
  have old: "unwrap_or_0 (bits_get m i) \<noteq> b" using assms(2) by (auto simp: unwrap_get)
  have B: "(case v of One \<Rightarrow> insert i S | Zero \<Rightarrow> S - {i}) = (if b = 1 then insert i S else S - {i})" for S
    by (simp add: v_def)
  define m1 where "m1 = (if i < bits_cap m then m else bitmap_extend i m)"
  have m1: "i < bits_cap m1" "bits m1 = bits m" "length m1 = max (length m) (i div 8 + 1)"
    using cap_extend [OF assms(1)] length_extend [OF assms(1), of m]
    by (auto simp: m1_def bits_extend bits_cap_def max_def)
  obtain m' where m': "bits_set m1 i v = Ok m'" "length m' = length m1"
    "bits m' = (case v of One \<Rightarrow> insert i (bits m1) | Zero \<Rightarrow> bits m1 - {i})"
    using bits_set_eq [OF m1(1)] by metis
  have "setbit_map i b m = Ok m'"
  proof (cases "i < bits_cap m")
    case True
    with m'(1) old v show ?thesis by (simp add: setbit_map_def m1_def)
  next
    case False
    then have "bits_set m i v = Err OutOfIndex" by (simp add: bits_set_def bits_cap_def div8_less)
    with False m'(1) old v show ?thesis by (simp add: setbit_map_def m1_def)
  qed
  with m'(2,3) m1(2,3) B that show thesis by simp
qed

lemma setbit_refined:
  assumes "j + 1 < 2 ^ 64"
  shows "refined_command key (cmd_setbit key j b) (\<lambda>now. at_key key (spec_setbit j b))"
  unfolding xadd_setbit_shapes
proof (rule refined_create [OF setbit_cmd.keyed_command_axioms [unfolded xadd_setbit_shapes], where
        f = "\<lambda>_ i. spec_setbit j b (Some i)"])
  fix h it
  let ?act = "\<lambda>it h. case item_value it of
       VBitmap m \<Rightarrow>
         (case setbit_map j b m of
            Ok m' \<Rightarrow>
              (put_value key it (VBitmap m') h, reply (int_reply (uint (unwrap_or_0 (bits_get m j)))))
          | Err e \<Rightarrow> (h, Err e)
          | Panic \<Rightarrow> (h, Panic))
     | _ \<Rightarrow> (h, Err Dummy)"
  assume lk: "look key h = Some it"
  show "spec_setbit j b (Some (abs_item it)) = (map_option abs_item (look key (fst (?act it h))), snd (?act it h))"
  proof (cases "item_value it")
    case (VBitmap m)
    let ?old = "if j \<in> bits m then 1 else 0 :: u8"
    consider "b = ?old" | "b \<noteq> ?old" "b = 0 \<or> b = 1" | "b \<noteq> ?old" "b \<noteq> 0" "b \<noteq> 1" by blast
    then show ?thesis
    proof cases
      case 1
      then have "setbit_map j b m = Ok m" by (simp add: setbit_map_def unwrap_get)
      with 1 VBitmap lk show ?thesis
        by (simp add: spec_setbit_def or_new_def abs_simps unwrap_get)
    next
      case 2
      obtain m' where "setbit_map j b m = Ok m'" "length m' = max (length m) (j div 8 + 1)"
        "bits m' = (if b = 1 then insert j (bits m) else bits m - {j})"
        by (rule setbit_map_spec [OF assms 2])
      with 2 VBitmap show ?thesis by (simp add: spec_setbit_def or_new_def abs_simps unwrap_get Let_def)
    next
      case 3
      then have "setbit_map j b m = Err (ParseError ''Input must be either 0 or 1'')"
        by (auto simp: setbit_map_def unwrap_get bit_value_of_def)
      with 3 VBitmap lk show ?thesis by (simp add: spec_setbit_def or_new_def abs_simps Let_def)
    qed
  qed (use lk in \<open>simp_all add: spec_setbit_def or_new_def abs_simps\<close>)
next
  have "wrap_usize (j + 1) = j + 1" using assms by (simp add: wrap_usize_def)
  then have "abs_value (VBitmap (bitmap_new (wrap_usize (j + 1)))) = ABits (j div 8 + 1) {}"
    by (simp add: bits_new) (simp add: bitmap_new_def)
  then show "spec_setbit j b i =
      spec_setbit j b (Some (or_new (abs_value (VBitmap (bitmap_new (wrap_usize (j + 1))))) i))" for i
    by (simp add: spec_setbit_def or_new_def split: option.split)
qed simp

lemma operand_spec:
  "a_bits (map_option abs_item (look key h)) =
   (case bitop_operand key h of Ok m \<Rightarrow> Some (length m, bits m) | _ \<Rightarrow> None)"
  "bitop_operand key h \<noteq> Panic" "bitop_operand key h = Err e \<Longrightarrow> e = bits_error"
proof -
  show "a_bits (map_option abs_item (look key h)) =
      (case bitop_operand key h of Ok m \<Rightarrow> Some (length m, bits m) | _ \<Rightarrow> None)"
  proof (cases "look key h")
    case (Some it)
    then show ?thesis
      by (cases "item_value it") (simp_all add: a_bits_def bitop_operand_def bits_of_value_def abs_item_def as_bytes_def)
  qed (simp add: a_bits_def bitop_operand_def bits_def)
  show "bitop_operand key h \<noteq> Panic" "bitop_operand key h = Err e \<Longrightarrow> e = bits_error"
    by (auto simp: bitop_operand_def bits_of_value_def bits_error_def split: option.splits store_value.splits)
qed

lemma refined_bits:
  assumes "\<And>h. run h = rbind (bitop_operand key h) (\<lambda>m. reply (int_reply (f (length m) (bits m))))"
  shows "refined_command key (\<lambda>h. (h, run h)) (\<lambda>now. at_key key (spec_bits f))"
proof (rule refined_read)
  fix h
  show "spec_bits f (map_option abs_item (look key h)) = (map_option abs_item (look key h), run h)"
    using operand_spec [of key h]
    by (cases "bitop_operand key h") (simp_all add: spec_bits_def assms)
qed

interpretation getbit_spec: refined_command key "\<lambda>h. (h, cmd_getbit key j h)"
  "\<lambda>now. at_key key (spec_bits (\<lambda>n S. if j \<in> S then 1 else 0))" for key j
  by (rule refined_bits)
    (simp add: cmd_getbit_def bitop_operand_def unwrap_get if_distrib [of uint] bits_def cong: if_cong split: option.split)

lemma bit_count_spec: "bit_count m r = card (range_set (length m) (bits m) r)"
  by (cases r) (simp_all add: range_set_def bit_count_all bit_count_range range_bits_def bits_cap_def)

interpretation bitcount_spec: refined_command key "\<lambda>h. (h, cmd_bitcount key r h)"
  "\<lambda>now. at_key key (spec_bits (\<lambda>n S. int (card (range_set n S r))))" for key r
  by (rule refined_bits)
    (simp add: cmd_bitcount_def bitop_operand_def bit_count_spec range_set_def bits_def split: option.split)

interpretation strlen_spec: refined_command key "\<lambda>h. (h, cmd_strlen key h)" "\<lambda>now. at_key key spec_strlen" for key
proof (rule refined_read)
  fix h
  show "spec_strlen (map_option abs_item (look key h)) = (map_option abs_item (look key h), cmd_strlen key h)"
  proof (cases "look key h")
    case (Some it)
    then show ?thesis
      by (cases "item_value it") (simp_all add: spec_strlen_def cmd_strlen_def bits_error_def abs_simps)
  qed (simp add: spec_strlen_def cmd_strlen_def)
qed

lemma bitop_run_spec:
  assumes "\<And>m1 m2. length (f m1 m2) = max (length m1) (length m2)" and "\<And>m1 m2. bits (f m1 m2) = g (bits m1) (bits m2)"
  shows "spec_bitop g d k1 k2 (abs_data h) = (abs_data (fst (bitop_run f d k1 k2 h)), snd (bitop_run f d k1 k2 h))"
proof (cases "bitop_operand k1 h")
  case m1: (Ok m1)
  show ?thesis
  proof (cases "bitop_operand k2 h")
    case m2: (Ok m2)
    have "f m1 m2 = [] \<longleftrightarrow> max (length m1) (length m2) = 0" by (simp only: assms(1) [symmetric] length_0_conv)
    then show ?thesis
      using m1 m2 operand_spec(1) [of k1 h] operand_spec(1) [of k2 h]
      by (auto simp: spec_bitop_def bitop_run_def bitop_store_def abs_data_def assms fun_eq_iff abs_simps
          Let_def look_def put_def)
  qed (use m1 operand_spec [of k1 h] operand_spec [of k2 h] in
      \<open>simp_all add: spec_bitop_def bitop_run_def abs_data_def\<close>)
qed (use operand_spec [of k1 h] in \<open>simp_all add: spec_bitop_def bitop_run_def abs_data_def\<close>)

interpretation bitand_spec: refined_command d "cmd_bitop (ArgAND d k1 k2)" "\<lambda>now. spec_bitop (\<inter>) d k1 k2" for d k1 k2
proof -
  have "length (bits_and m1 m2) = max (length m1) (length m2)" for m1 m2
    by (simp add: bits_and_def length_bits_combine)
  from bitop_run_spec [OF this bits_and_eq] bitop_cmd.keyed_command_axioms [of "ArgAND d k1 k2"]
  show "refined_command d (cmd_bitop (ArgAND d k1 k2)) (\<lambda>now. spec_bitop (\<inter>) d k1 k2)"
    by (simp add: refined_command_def refined_command_axioms_def bitop_dest_def cmd_bitop_def)
qed

interpretation bitor_spec: refined_command d "cmd_bitop (ArgOR d k1 k2)" "\<lambda>now. spec_bitop (\<union>) d k1 k2" for d k1 k2
proof -
  have "length (bits_or m1 m2) = max (length m1) (length m2)" for m1 m2
    by (simp add: bits_or_def length_bits_combine)
  from bitop_run_spec [OF this bits_or_eq] bitop_cmd.keyed_command_axioms [of "ArgOR d k1 k2"]
  show "refined_command d (cmd_bitop (ArgOR d k1 k2)) (\<lambda>now. spec_bitop (\<union>) d k1 k2)"
    by (simp add: refined_command_def refined_command_axioms_def bitop_dest_def cmd_bitop_def)
qed

end
