(* ===== verification/PubSubCmds.thy ===== *)
theory PubSubCmds
  imports HandlerState
begin

text \<open>
  Publish and subscribe: SUBSCRIBE, UNSUBSCRIBE and PUBLISH. The source shares one \<open>Rc<u64>\<close>
  per subscriber between the set of subscribers and the channels and answers with its
  \<open>strong_count\<close>; here that count is the number of its holders, one for the set of
  subscribers and one for every channel that contains the client.
\<close>

definition channel_count :: "u64 \<Rightarrow> cmd_handler \<Rightarrow> nat" where
  "channel_count client h = length (filter (\<lambda>(_, s). client \<in> set s) (h_chans h))"

definition join_channel :: "u64 \<Rightarrow> string \<Rightarrow> cmd_handler \<Rightarrow> cmd_handler" where
  "join_channel client ch h =
     h\<lparr>h_chans := hm_insert ch
         (hs_insert client (case hm_get (h_chans h) ch of Some s \<Rightarrow> s | None \<Rightarrow> [])) (h_chans h)\<rparr>"

definition subscribe_response :: "string \<Rightarrow> nat \<Rightarrow> bytes" where
  "subscribe_response ch n = ser (built 3 [bulk ''subscribe'', bulk ch, int_reply (int n)])"

text \<open>
  A client that is a subscriber already is counted after it has joined the channel. For a new
  one the local \<open>Rc\<close> counts as well, and the count is taken before it joins.
\<close>

fun subscribe_more :: "u64 \<Rightarrow> string list \<Rightarrow> cmd_handler \<Rightarrow> bytes \<Rightarrow> cmd_handler \<times> bytes" where
  "subscribe_more client [] h out = (h, out)"
| "subscribe_more client (k # ks) h out =
     (let h1 = join_channel client k h
      in subscribe_more client ks h1 (out @ subscribe_response k (channel_count client h1)))"

fun subscribe_first :: "u64 \<Rightarrow> string list \<Rightarrow> cmd_handler \<Rightarrow> bytes \<Rightarrow> cmd_handler \<times> bytes" where
  "subscribe_first client [] h out = (h, out)"
| "subscribe_first client (k # ks) h out =
     subscribe_first client ks (join_channel client k h)
       (out @ subscribe_response k (1 + channel_count client h))"

definition cmd_subscribe :: "string list \<Rightarrow> u64 \<Rightarrow> cmd_handler \<Rightarrow> cmd_handler \<times> reply" where
  "cmd_subscribe keys client h =
     (case (if client \<in> set (h_subs h) then subscribe_more client keys h []
            else subscribe_first client keys (h\<lparr>h_subs := hs_insert client (h_subs h)\<rparr>) []) of
        (h', out) \<Rightarrow> (h', reply (RBytes (Some out))))"

definition cmd_publish :: "string \<Rightarrow> string \<Rightarrow> cmd_handler \<Rightarrow> cmd_handler \<times> reply" where
  "cmd_publish key message h =
     (case hm_get (h_chans h) key of
        Some s \<Rightarrow>
          (let msg = ser (built 3 [bulk ''message'', bulk key, bulk message])
           in (fold (\<lambda>i. push i msg) s h, reply (int_reply (int (length s)))))
      | None \<Rightarrow> (h, Ok None))"

definition unsubscribe_response :: "string \<Rightarrow> int \<Rightarrow> resp_type" where
  "unsubscribe_response ch n = built 3 [bulk ''unsubscribe'', bulk ch, int_reply n]"

text \<open>Leaving the last channel ends the subscription. A name that is no channel does not.\<close>

definition cmd_unsubscribe :: "string \<Rightarrow> u64 \<Rightarrow> cmd_handler \<Rightarrow> cmd_handler \<times> reply" where
  "cmd_unsubscribe key client h =
     (if client \<in> set (h_subs h)
      then (case hm_get (h_chans h) key of
          Some s \<Rightarrow>
            (let h1 = h\<lparr>h_chans := hm_insert key (hs_remove client s) (h_chans h)\<rparr>;
                 n = channel_count client h1
             in (if n = 0 then h1\<lparr>h_subs := hs_remove client (h_subs h1)\<rparr> else h1,
                 reply (unsubscribe_response key (int n))))
        | None \<Rightarrow> (h, reply (unsubscribe_response key (int (channel_count client h)))))
      else (h, Ok None))"

section \<open>Members\<close>

definition members :: "string \<Rightarrow> cmd_handler \<Rightarrow> u64 set" where
  "members ch h = (case hm_get (h_chans h) ch of Some s \<Rightarrow> set s | None \<Rightarrow> {})"

text \<open>Only subscribers are in channels, and no channel holds a client twice.\<close>

definition pubsub_inv :: "cmd_handler \<Rightarrow> bool" where
  "pubsub_inv h \<longleftrightarrow> hm_inv (h_chans h) \<and> distinct (h_subs h) \<and>
     (\<forall>ch s. hm_get (h_chans h) ch = Some s \<longrightarrow> distinct s \<and> set s \<subseteq> set (h_subs h))"

lemma members_join:
  "members ch' (join_channel client ch h) = (if ch' = ch then insert client (members ch h) else members ch' h)"
  by (simp add: members_def join_channel_def split: option.splits)

lemma join_fields [simp]:
  "h_subs (join_channel c ch h) = h_subs h" "h_data (join_channel c ch h) = h_data h"
  "h_queue (join_channel c ch h) = h_queue h" "h_reg (join_channel c ch h) = h_reg h"
  by (simp_all add: join_channel_def)

lemma pubsub_inv_join [inv_intros]:
  "pubsub_inv h \<Longrightarrow> client \<in> set (h_subs h) \<Longrightarrow> pubsub_inv (join_channel client ch h)"
  by (cases "hm_get (h_chans h) ch") (auto simp: pubsub_inv_def join_channel_def split: if_splits)

lemma subscribe_members:
  "members ch (fst (subscribe_more client ks h out)) =
     (if ch \<in> set ks then insert client (members ch h) else members ch h)"
  "members ch (fst (subscribe_first client ks h out)) =
     (if ch \<in> set ks then insert client (members ch h) else members ch h)"
  by (induction ks arbitrary: h out) (auto simp: members_join Let_def)

lemma subscribe_subs [simp]:
  "h_subs (fst (subscribe_more client ks h out)) = h_subs h"
  "h_subs (fst (subscribe_first client ks h out)) = h_subs h"
  by (induction ks arbitrary: h out) (auto simp: Let_def)

lemma pubsub_inv_subscribe_loops:
  "pubsub_inv h \<Longrightarrow> client \<in> set (h_subs h) \<Longrightarrow> pubsub_inv (fst (subscribe_more client ks h out))"
  "pubsub_inv h \<Longrightarrow> client \<in> set (h_subs h) \<Longrightarrow> pubsub_inv (fst (subscribe_first client ks h out))"
  by (induction ks arbitrary: h out) (simp_all add: Let_def pubsub_inv_join)

lemma pubsub_inv_new_subscriber:
  "pubsub_inv h \<Longrightarrow> pubsub_inv (h\<lparr>h_subs := hs_insert client (h_subs h)\<rparr>)"
  by (auto simp: pubsub_inv_def)

lemma pubsub_inv_subscribe [inv_intros]:
  "pubsub_inv h \<Longrightarrow> pubsub_inv (fst (cmd_subscribe keys client h))"
  by (auto simp: cmd_subscribe_def pubsub_inv_new_subscriber split: prod.splits if_splits
      dest!: arg_cong [of _ _ fst] intro!: pubsub_inv_subscribe_loops)

lemma cmd_subscribe_members:
  "members ch (fst (cmd_subscribe keys client h)) =
     (if ch \<in> set keys then insert client (members ch h) else members ch h)"
  "set (h_subs (fst (cmd_subscribe keys client h))) = insert client (set (h_subs h))"
proof -
  define h0 where "h0 = h\<lparr>h_subs := hs_insert client (h_subs h)\<rparr>"
  have m: "members ch h0 = members ch h" by (simp add: members_def h0_def)
  have "fst (cmd_subscribe keys client h) =
      (if client \<in> set (h_subs h) then fst (subscribe_more client keys h [])
       else fst (subscribe_first client keys h0 []))"
    by (simp add: cmd_subscribe_def h0_def split: prod.splits)
  then show "members ch (fst (cmd_subscribe keys client h)) =
     (if ch \<in> set keys then insert client (members ch h) else members ch h)"
    "set (h_subs (fst (cmd_subscribe keys client h))) = insert client (set (h_subs h))"
    by (auto simp: subscribe_members m) (simp_all add: h0_def)
qed

lemma push_many: "h_queue (fold (\<lambda>i. push i msg) s h) = h_queue h @ map (\<lambda>i. (i, msg)) s"
  by (induction s arbitrary: h) (auto simp: push_def)

text \<open>
  PUBLISH sends the message once to every member of the channel and to nobody else. A channel that
  nobody has ever joined is not known: nothing is sent, not even an answer.
\<close>

lemma cmd_publish_all:
  assumes "pubsub_inv h"
  shows "case hm_get (h_chans h) ch of
      None \<Rightarrow> cmd_publish ch m h = (h, Ok None)
    | Some q \<Rightarrow> set q = members ch h \<and> distinct q \<and>
        h_queue (fst (cmd_publish ch m h)) =
          h_queue h @ map (\<lambda>i. (i, ser (arr [bulk ''message'', bulk ch, bulk m]))) q \<and>
        snd (cmd_publish ch m h) = reply (int_reply (int (card (members ch h))))"
proof (cases "hm_get (h_chans h) ch")
  case (Some s)
  then have d: "distinct s" using assms(1) by (auto simp: pubsub_inv_def)
  have a: "built 3 [bulk ''message'', bulk ch, bulk m] = arr [bulk ''message'', bulk ch, bulk m]"
    by (simp add: built_eq arr_def)
  show ?thesis
    by (simp add: cmd_publish_def Some push_many a members_def d distinct_card)
qed (simp add: cmd_publish_def)

lemma card_channels:
  "hm_inv (h_chans h) \<Longrightarrow> channel_count client h = card {ch. client \<in> members ch h}"
proof -
  assume inv: "hm_inv (h_chans h)"
  have "set (map fst (filter (\<lambda>(_, s). client \<in> set s) (h_chans h))) = {ch. client \<in> members ch h}"
    using inv by (auto simp: members_def hm_get_Some_in image_iff split: option.splits)
  moreover have "distinct (map fst (filter (\<lambda>(_, s). client \<in> set s) (h_chans h)))"
    using inv by (simp add: hm_inv_def distinct_map_filter)
  ultimately show ?thesis
    by (metis channel_count_def distinct_card length_map)
qed

text \<open>UNSUBSCRIBE leaves the channel, and the mode when it was the last one.\<close>

lemma cmd_unsubscribe_members:
  assumes "client \<in> set (h_subs h)"
  shows "members ch' (fst (cmd_unsubscribe ch client h)) =
    (if ch' = ch then members ch h - {client} else members ch' h)"
  using assms by (auto simp: cmd_unsubscribe_def members_def Let_def split: option.splits)

lemma pubsub_inv_unsubscribe [inv_intros]:
  assumes "pubsub_inv h"
  shows "pubsub_inv (fst (cmd_unsubscribe ch client h))"
proof (cases "client \<in> set (h_subs h) \<and> hm_get (h_chans h) ch \<noteq> None")
  case True
  then obtain s where s: "hm_get (h_chans h) ch = Some s" by blast
  define h1 where "h1 = h\<lparr>h_chans := hm_insert ch (hs_remove client s) (h_chans h)\<rparr>"
  have h1: "pubsub_inv h1"
    using assms s by (auto simp: pubsub_inv_def h1_def)
  have "pubsub_inv (h1\<lparr>h_subs := hs_remove client (h_subs h1)\<rparr>)" if n: "channel_count client h1 = 0"
  proof -
    have "client \<notin> set s'" if "hm_get (h_chans h1) c = Some s'" for c s'
      using n map_of_SomeD [OF that] by (auto simp: channel_count_def filter_empty_conv)
    with h1 show ?thesis by (fastforce simp: pubsub_inv_def)
  qed
  with h1 s True show ?thesis by (simp add: cmd_unsubscribe_def Let_def h1_def [symmetric])
qed (use assms in \<open>auto simp: cmd_unsubscribe_def\<close>)

end
