(* ===== verification/AclCmds.thy ===== *)
theory AclCmds
  imports HandlerState
begin

text \<open>ACL WHOAMI, GETUSER and SETUSER, and AUTH. The hash of a password is \<open>x_hash\<close>.\<close>

definition cmd_acl_whoami :: "u64 \<Rightarrow> cmd_handler \<Rightarrow> reply" where
  "cmd_acl_whoami client h = rbind (get_username client (h_auth h)) (\<lambda>u. reply (bulk u))"

definition strings_or_empty :: "string list \<Rightarrow> resp_type" where
  "strings_or_empty xs = (if xs = [] then empty_arr else built (length xs) (map bulk xs))"

definition cmd_acl_getuser :: "u64 \<Rightarrow> string \<Rightarrow> cmd_handler \<Rightarrow> reply" where
  "cmd_acl_getuser client username h =
     rbind (get_username client (h_auth h)) (\<lambda>u.
       if u \<noteq> username then Err (WrongUsernamePassword ''Wrong username'')
       else (case hm_get (au_credentials (h_auth h)) username of
           None \<Rightarrow> Err (WrongUsernamePassword ''Wrong username'')
         | Some c \<Rightarrow>
             reply (built 4 [bulk ''flags'', strings_or_empty (map flag_str (cr_flags c)),
               bulk ''passwords'', strings_or_empty (cr_passwords c)])))"

text \<open>The loop over the rules stops, silently, at a flag that is set already.\<close>

fun apply_rules :: "(string \<Rightarrow> string) \<Rightarrow> acl_rule list \<Rightarrow> credential \<Rightarrow> credential" where
  "apply_rules H [] c = c"
| "apply_rules H (NoPass # rs) c =
     (case add_flag NoPassFlag c of (c', new) \<Rightarrow> if new then apply_rules H rs c' else c')"
| "apply_rules H (AddPassword p # rs) c = apply_rules H rs (set_password H p c)"

definition cmd_acl_setuser ::
  "externals \<Rightarrow> string \<Rightarrow> acl_rule list \<Rightarrow> cmd_handler \<Rightarrow> cmd_handler \<times> reply" where
  "cmd_acl_setuser X username rules h =
     (case hm_get (au_credentials (h_auth h)) username of
        None \<Rightarrow> (h, Err (WrongUsernamePassword ''Wrong username''))
      | Some c \<Rightarrow>
          (h\<lparr>h_auth := (h_auth h)\<lparr>au_credentials :=
               hm_insert username (apply_rules (x_hash X) rules c) (au_credentials (h_auth h))\<rparr>\<rparr>,
           reply response_ok))"

definition cmd_acl :: "externals \<Rightarrow> cmd_arg \<Rightarrow> u64 \<Rightarrow> cmd_handler \<Rightarrow> cmd_handler \<times> reply" where
  "cmd_acl X opt client h =
     (case opt of
        WhoAmI \<Rightarrow> (h, cmd_acl_whoami client h)
      | GetUser u \<Rightarrow> (h, cmd_acl_getuser client u h)
      | SetUser u rules \<Rightarrow> cmd_acl_setuser X u rules h
      | _ \<Rightarrow> (h, Err (UnsupportedCmd ''Unsupported'')))"

definition cmd_auth :: "externals \<Rightarrow> string \<Rightarrow> string \<Rightarrow> u64 \<Rightarrow> cmd_handler \<Rightarrow> cmd_handler \<times> reply" where
  "cmd_auth X username password client h =
     (case authenticate (x_hash X) client (Some username) (Some password) (h_auth h) of
        (a, r) \<Rightarrow>
          (h\<lparr>h_auth := a\<rparr>,
           (case r of
              Ok _ \<Rightarrow> reply response_ok
            | Err _ \<Rightarrow> Err wrongpass
            | Panic \<Rightarrow> Panic)))"

section \<open>What they do\<close>

lemma auth_inv_acl [inv_intros]: "auth_inv (h_auth h) \<Longrightarrow> auth_inv (h_auth (fst (cmd_acl X opt client h)))"
  by (auto simp: cmd_acl_def cmd_acl_setuser_def auth_inv_credential split: cmd_arg.splits option.splits)

lemma auth_inv_auth [inv_intros]: "auth_inv (h_auth h) \<Longrightarrow> auth_inv (h_auth (fst (cmd_auth X u p client h)))"
  using auth_inv_authenticate [of "h_auth h" "x_hash X" client "Some u" "Some p"]
  by (simp add: cmd_auth_def case_prod_beta)

text \<open>
  A password set by ACL SETUSER admits exactly the passwords with its hash, or one set before,
  and closes the door for new connections without a password.
\<close>

lemma setuser_then_auth:
  assumes "hm_get (au_credentials (h_auth h)) u = Some c"
  shows "snd (cmd_auth X u q client (fst (cmd_acl X (SetUser u [AddPassword p]) client' h))) = reply response_ok
    \<longleftrightarrow> x_hash X q = x_hash X p \<or> x_hash X q \<in> set (cr_passwords c)"
  using assms
  by (auto simp: cmd_auth_def cmd_acl_def cmd_acl_setuser_def authenticate_def check_password_def
      set_password_def reply_def split: if_splits)

lemma setuser_closes_default:
  assumes "auth_inv (h_auth h)" and "\<not> check_auth new (h_auth h)"
  shows "\<not> check_auth new (fst (authenticate H new None None
      (h_auth (fst (cmd_acl X (SetUser ''default'' [AddPassword p]) client h)))))"
proof -
  let ?h = "fst (cmd_acl X (SetUser ''default'' [AddPassword p]) client h)"
  obtain c where c: "hm_get (au_credentials (h_auth h)) ''default'' = Some c"
    using assms(1) by (auto simp: auth_inv_def)
  have "hm_get (au_credentials (h_auth ?h)) ''default'' = Some (set_password (x_hash X) p c)"
    and "au_clients (h_auth ?h) = au_clients (h_auth h)"
    using c by (simp_all add: cmd_acl_def cmd_acl_setuser_def)
  with assms(2) show ?thesis
    using connect_check_auth(2) [OF auth_inv_acl [OF assms(1)], of new X "SetUser ''default'' [AddPassword p]" client H]
      set_password_nopass
    by (auto simp: check_auth_def)
qed

end
