(* ===== verification/ReplCmds.thy ===== *)
theory ReplCmds
  imports HandlerState
begin

text \<open>
  The commands of replication and of the server itself: INFO, PSYNC, REPLCONF, WAIT and CONFIG.
\<close>

definition stats_of :: "cmd_handler \<Rightarrow> repl_stats cres" where
  "stats_of h = ok_or (host_stats (h_states h)) (InternalError ''Host stats not initiated at startup'')"

definition cmd_info :: "string \<Rightarrow> cmd_handler \<Rightarrow> reply" where
  "cmd_info key h =
     (if to_ascii_upper key = ''REPLICATION'' then
        (if is_slave_server (h_states h) then
           rbind (ok_or (master_stats (h_states h)) (InternalError ''Master stats not initiated at startup'')) (\<lambda>s.
           rbind (ok_or (rs_host s) (InternalError ''Master's host is not set'')) (\<lambda>host.
           rbind (ok_or (rs_port s) (InternalError ''Master's port is not set'')) (\<lambda>port.
             reply (bulk (''role:slave'' @ crlf @ ''master_host:'' @ host @ crlf @
               ''master_post:'' @ show_nat port)))))
         else
           rbind (stats_of h) (\<lambda>s.
             reply (bulk (''role:master'' @ crlf @ ''master_replid:xxx'' @ crlf @
               ''master_repl_offset:'' @ show_int (max (rs_offset s) 0)))))
      else Ok None)"

definition repl_id :: string where
  "repl_id = ''8371b4fb1155b71f4a04d3e1bc3e18c4a990aeeb''"

definition empty_rdb_b64 :: string where
  "empty_rdb_b64 = ''UkVESVMwMDEx+glyZWRpcy12ZXIFNy4yLjD6CnJlZGlzLWJpdHPAQPoFY3RpbWXCbQi8ZfoIdXNlZC1tZW3CsMQQAPoIYW9mLWJhc2XAAP/wbjv+wP9aog==''"

definition fullresync_line :: "repl_stats \<Rightarrow> string" where
  "fullresync_line s = ''FULLRESYNC '' @ repl_id @ '' '' @ show_int (max (rs_offset s) 0)"

definition cmd_psync :: "externals \<Rightarrow> string \<Rightarrow> int \<Rightarrow> u64 \<Rightarrow> cmd_handler \<Rightarrow> cmd_handler \<times> reply" where
  "cmd_psync X i offset client h =
     (if i = ''?'' \<and> offset = - 1 then
        (case rbind (stats_of h) (\<lambda>s. rbind (unwrap (x_base64 X empty_rdb_b64)) (\<lambda>rdb.
            Ok (ser (SimpleStr (Some (fullresync_line s))) @ ser (RDB (Some rdb))))) of
           Ok out \<Rightarrow> (h\<lparr>h_table := set_slave client (h_table h)\<rparr>, reply (RBytes (Some out)))
         | Err e \<Rightarrow> (h, Err e)
         | Panic \<Rightarrow> (h, Panic))
      else (h, Ok None))"

section \<open>WAIT and its acknowledgements\<close>

definition getack_msg :: bytes where
  "getack_msg = ser (built 3 [bulk ''REPLCONF'', bulk ''GETACK'', bulk ''*''])"

definition cmd_wait ::
  "u64 \<Rightarrow> u64 option \<Rightarrow> u64 \<Rightarrow> epoll_ref \<Rightarrow> cmd_handler \<Rightarrow> cmd_handler \<times> reply" where
  "cmd_wait count timeout client ep h =
     (if count = 0 then (h, reply (int_reply 0))
      else case stats_of h of
        Ok s \<Rightarrow>
          (if rs_offset s = 0
           then (h, reply (int_reply (int (length (list_slave (h_table h))))))
           else
             let slaves = list_slave (h_table h); h1 = fold (\<lambda>k. push k getack_msg) slaves h in
             (case get_deadline timeout h1 of
                ((ts, deadline), h2) \<Rightarrow>
                  (let h3 = insert_request ts deadline
                       (WaitReq client count 0 deadline (rs_offset s) slaves ts ep) h2
                   in case ep of
                        None \<Rightarrow> (h3, Panic)
                      | Some ok \<Rightarrow> (remove_interest ok client h3, Ok None))))
      | Err e \<Rightarrow> (h, Err e)
      | Panic \<Rightarrow> (h, Panic))"

text \<open>The task of a WAIT whose time is up. The registry has handed out the entry.\<close>

definition wait_deadline_task :: "u64 \<Rightarrow> u64 \<Rightarrow> u64 \<Rightarrow> epoll_ref \<Rightarrow> cmd_handler \<Rightarrow> cmd_handler cres" where
  "wait_deadline_task client actual ts ep h =
     (let h1 = snd (remove_request ts (push client (ser (int_reply (sint actual))) h))
      in case ep of None \<Rightarrow> Panic | Some ok \<Rightarrow> Ok (add_interest ok client h1))"

text \<open>
  One acknowledgement, for every client that waits for this replica: the clients this replica
  is done with, and the clients that have enough replicas.
\<close>

fun ack_loop :: "int \<Rightarrow> u64 list \<Rightarrow> cmd_handler \<Rightarrow> u64 list \<Rightarrow> u64 list \<Rightarrow>
    (cmd_handler \<times> u64 list \<times> u64 list) cres" where
  "ack_loop offset [] h sdone cdone = Ok (h, sdone, cdone)"
| "ack_loop offset (i # ids) h sdone cdone =
     (case hm_get (rg_wait (h_reg h)) i of
        None \<Rightarrow> Panic
      | Some ts \<Rightarrow>
          (case hm_get (rg_store (h_reg h)) ts of
             Some (WaitReq c required actual d off slaves t ep) \<Rightarrow>
               (let caught = off \<le> offset;
                    actual' = (if caught then actual + 1 else actual);
                    h1 = on_reg (\<lambda>r. r\<lparr>rg_store := hm_insert ts
                           (WaitReq c required actual' d off slaves t ep) (rg_store r)\<rparr>) h;
                    sdone' = (if caught then sdone @ [i] else sdone)
                in if required \<le> actual'
                   then ack_loop offset ids (push i (ser (int_reply (sint actual'))) h1) sdone' (cdone @ [i])
                   else ack_loop offset ids h1 sdone' cdone)
           | _ \<Rightarrow> ack_loop offset ids h sdone cdone))"

definition drop_acked :: "u64 \<Rightarrow> u64 list \<Rightarrow> registry \<Rightarrow> registry" where
  "drop_acked slave sdone r =
     (case hm_get (rg_ack r) slave of
        None \<Rightarrow> r
      | Some l \<Rightarrow>
          (let l' = filter (\<lambda>x. x \<notin> set sdone) l in
           r\<lparr>rg_ack := (if l' = [] then hm_remove slave (rg_ack r) else hm_insert slave l' (rg_ack r))\<rparr>))"

text \<open>\<open>epoll_fd.unwrap()\<close> panics when a client is done inside a transaction.\<close>

fun ack_finish :: "epoll_ref \<Rightarrow> u64 list \<Rightarrow> cmd_handler \<Rightarrow> u64 list \<Rightarrow> (cmd_handler \<times> u64 list) cres" where
  "ack_finish ep [] h tss = Ok (h, tss)"
| "ack_finish ep (i # ids) h tss =
     (case (hm_get (rg_wait (h_reg h)) i, ep) of
        (Some ts, Some ok) \<Rightarrow> ack_finish ep ids (add_interest ok i h) (tss @ [ts])
      | _ \<Rightarrow> Panic)"

definition replconf_ack :: "int \<Rightarrow> u64 \<Rightarrow> epoll_ref \<Rightarrow> cmd_handler \<Rightarrow> cmd_handler \<times> reply" where
  "replconf_ack offset slave ep h =
     (case rbind (ack_loop offset
           (case hm_get (rg_ack (h_reg h)) slave of Some ids \<Rightarrow> ids | None \<Rightarrow> []) h [] [])
         (\<lambda>(h1, sdone, cdone). ack_finish ep cdone (on_reg (drop_acked slave sdone) h1) []) of
        Ok (h2, tss) \<Rightarrow> (fold (\<lambda>t h. snd (remove_request t h)) tss h2, Ok None)
      | Err e \<Rightarrow> (h, Err e)
      | Panic \<Rightarrow> (h, Panic))"

definition cmd_replconf :: "cmd_arg \<Rightarrow> u64 \<Rightarrow> epoll_ref \<Rightarrow> cmd_handler \<Rightarrow> cmd_handler \<times> reply" where
  "cmd_replconf a client ep h =
     (case a of
        GetAck s \<Rightarrow>
          (h, if s = ''*''
              then rbind (stats_of h) (\<lambda>st.
                reply (built 3 [bulk ''REPLCONF'', bulk ''ACK'', bulk (show_int (max (rs_offset st) 0))]))
              else Ok None)
      | ListeningPort _ \<Rightarrow> (h, reply response_ok)
      | Capa _ \<Rightarrow> (h, reply response_ok)
      | ArgAck offset \<Rightarrow> replconf_ack offset client ep h
      | _ \<Rightarrow> (h, Ok None))"

definition cmd_config :: "cmd_arg \<Rightarrow> cmd_handler \<Rightarrow> reply" where
  "cmd_config a h =
     (case a of
        ArgGet key \<Rightarrow> rbind (get_attr key (h_configs h)) (\<lambda>v. reply (built 2 [bulk key, bulk v]))
      | _ \<Rightarrow> Err (UnsupportedCmdStructure ''Unsupported arg''))"

section \<open>What they do\<close>

text \<open>PSYNC makes the client a replica, and its answer starts with the current offset.\<close>

lemma cmd_psync_slave:
  assumes "host_stats (h_states h) = Some s" and "x_base64 X empty_rdb_b64 = Some rdb"
  shows "set (list_slave (h_table (fst (cmd_psync X ''?'' (- 1) client h)))) =
      insert client (set (list_slave (h_table h)))"
    and "snd (cmd_psync X ''?'' (- 1) client h) =
      reply (RBytes (Some (''+'' @ fullresync_line s @ crlf @ ''$'' @ show_nat (length rdb) @ crlf @ rdb)))"
  using assms by (simp_all add: cmd_psync_def stats_of_def set_list_slave delimiter_def crlf_def)

lemma fold_push_queue: "h_queue (fold (\<lambda>k. push k msg) ks h) = h_queue h @ map (\<lambda>k. (k, msg)) ks"
  by (induction ks arbitrary: h) (auto simp: push_def)

lemma fold_push_fields [simp]:
  "h_reg (fold (\<lambda>k. push k msg) ks h) = h_reg h" "h_reads (fold (\<lambda>k. push k msg) ks h) = h_reads h"
  "h_clock (fold (\<lambda>k. push k msg) ks h) = h_clock h" "h_epoll (fold (\<lambda>k. push k msg) ks h) = h_epoll h"
  "h_data (fold (\<lambda>k. push k msg) ks h) = h_data h"
  by (induction ks arbitrary: h) (auto simp: push_def)

text \<open>A blocking WAIT asks every replica, parks the client and stops listening to it.\<close>

lemma cmd_wait_blocks:
  assumes "count \<noteq> 0" and "host_stats (h_states h) = Some s" and "rs_offset s \<noteq> 0"
  shows "snd (cmd_wait count t client (Some ok) h) = Ok None"
    and "h_queue (fst (cmd_wait count t client (Some ok) h)) =
      h_queue h @ map (\<lambda>k. (k, getack_msg)) (list_slave (h_table h))"
    and "ok \<Longrightarrow> client \<notin> set (h_epoll (fst (cmd_wait count t client (Some ok) h)))"
    and "hm_get (rg_wait (h_reg (fst (cmd_wait count t client (Some ok) h)))) client = Some (h_clock h (h_reads h))"
  using assms
  by (auto simp: cmd_wait_def stats_of_def get_deadline_def tick_def insert_request_def on_reg_def
      remove_interest_def fold_push_queue reg_insert_def reg_enqueue_def Let_def reg_arm_def
      split: prod.splits if_splits)

lemma cmd_wait_in_txn_panics:
  assumes "count \<noteq> 0" and "host_stats (h_states h) = Some s" and "rs_offset s \<noteq> 0"
  shows "snd (cmd_wait count t client None h) = Panic"
  using assms by (simp add: cmd_wait_def stats_of_def Let_def split: prod.splits)

end
