(* ===== verification/TxnCmds.thy ===== *)
theory TxnCmds
  imports HandlerState
begin

text \<open>MULTI, DISCARD, WATCH and UNWATCH. EXEC runs commands and is in theory \<open>Handler\<close>.\<close>

definition cmd_multi :: "u64 \<Rightarrow> cmd_handler \<Rightarrow> cmd_handler \<times> reply" where
  "cmd_multi client h =
     (if \<not> is_transaction client (h_reg h)
      then (on_reg (\<lambda>r. r\<lparr>rg_txn := hm_insert client [] (rg_txn r)\<rparr>) h, reply response_ok)
      else (h, Err (UnsupportedCmdStructure ''ERR MULTI calls can not be nested'')))"

definition close_txn :: "u64 \<Rightarrow> cmd_handler \<Rightarrow> cmd_handler" where
  "close_txn client = on_reg (\<lambda>r. (unwatch_all client r)\<lparr>rg_txn := hm_remove client (rg_txn r)\<rparr>)"

definition cmd_discard :: "u64 \<Rightarrow> cmd_handler \<Rightarrow> cmd_handler \<times> reply" where
  "cmd_discard client h =
     (if is_transaction client (h_reg h) then (close_txn client h, reply response_ok)
      else (h, Err (UnsupportedCmdStructure ''ERR DISCARD without MULTI'')))"

definition cmd_watch :: "string list \<Rightarrow> u64 \<Rightarrow> cmd_handler \<Rightarrow> cmd_handler \<times> reply" where
  "cmd_watch keys client h = (on_reg (reg_watch keys client) h, reply response_ok)"

definition cmd_unwatch :: "u64 \<Rightarrow> cmd_handler \<Rightarrow> cmd_handler \<times> reply" where
  "cmd_unwatch client h = (on_reg (unwatch_all client) h, reply response_ok)"

section \<open>What they do\<close>

lemma close_txn_reg:
  "rg_txn (h_reg (close_txn client h)) = hm_remove client (rg_txn (h_reg h))"
  "watches (h_reg (close_txn client h)) c k = (if c = client then None else watches (h_reg h) c k)"
  by (simp_all add: close_txn_def on_reg_def watches_unwatch_all [symmetric])
    (simp add: watches_def)

lemma close_txn_frame [simp]:
  "h_data (close_txn client h) = h_data h" "h_queue (close_txn client h) = h_queue h"
  "rg_store (h_reg (close_txn client h)) = rg_store (h_reg h)"
  by (simp_all add: close_txn_def on_reg_def unwatch_all_def)

lemma close_txn_ends: "\<not> is_transaction client (h_reg (close_txn client h))"
  by (simp add: is_transaction_def hm_contains_def close_txn_reg)

lemma watches_reg_watch:
  "watches (reg_watch ks client r) c k =
     (if c = client \<and> k \<in> set ks \<and> watches r c k = None then Some False else watches r c k)"
  by (induction ks arbitrary: r) (auto simp: reg_watch_def watches_watch_key)

end
