(* ===== verification/Handler.thy ===== *)
theory Handler
  imports StreamCmds ZSetCmds BitCmds PubSubCmds AclCmds ReplCmds TxnCmds
begin

text \<open>
  The dispatcher of \<open>src/src/commands/cmd_handler.rs\<close>: \<open>_execute_cmd\<close>, \<open>handle\<close>,
  EXEC, and what the event loop calls between two rounds of commands (deadlines, blocked list
  and stream readers, the flush of the append-only file).

  EXEC runs commands, which the source does by recursion. Here the commands of a transaction
  run one level deeper, and \<open>execute\<close> carries the number of levels left. A transaction
  drains its queue before it runs, so an EXEC inside one finds nothing to run; and no EXEC is
  ever queued.
\<close>

datatype cmd_output = CoResp resp_type | CoBytes bytes | CoNone

type_synonym cmd_result = "(cmd_output, cmd_output) result"

definition extract_resp :: "cmd_output \<Rightarrow> resp_type option" where
  "extract_resp out = (case out of CoResp r \<Rightarrow> Some r | _ \<Rightarrow> None)"

definition extract_bytes :: "cmd_output \<Rightarrow> bytes option" where
  "extract_bytes out = (case out of CoBytes b \<Rightarrow> Some b | _ \<Rightarrow> None)"

definition is_subscriber :: "u64 \<Rightarrow> cmd_handler \<Rightarrow> bool" where
  "is_subscriber client h \<longleftrightarrow> client \<in> set (h_subs h)"

definition is_cmd_subscriber_allowed :: "cmd \<Rightarrow> bool" where
  "is_cmd_subscriber_allowed c =
     (case c of
        CSUBSCRIBE _ \<Rightarrow> True | CUNSUBSCRIBE _ \<Rightarrow> True | CPSUBSCRIBE \<Rightarrow> True
      | CPUNSUBSCRIBE \<Rightarrow> True | CPING \<Rightarrow> True | CQUIT \<Rightarrow> True | _ \<Rightarrow> False)"

definition subscriber_error :: "cmd \<Rightarrow> custom_error" where
  "subscriber_error c = UnsupportedCmd (''ERR Can't execute '' @ CHR 0x27 # to_ascii_lower (get_name c) @
     CHR 0x27 # '': only (P|S)SUBSCRIBE / (P|S)UNSUBSCRIBE / PING / QUIT / RESET are allowed in this context'')"

section \<open>Dispatch\<close>

definition dispatch ::
  "externals \<Rightarrow> (u64 \<Rightarrow> cmd_handler \<Rightarrow> cmd_handler \<times> reply) \<Rightarrow> cmd \<Rightarrow> u64 \<Rightarrow> epoll_ref \<Rightarrow>
   cmd_handler \<Rightarrow> cmd_handler \<times> reply" where
  "dispatch X exec c client ep h =
     (case c of
        CPING \<Rightarrow> (h, cmd_ping (is_subscriber client h))
      | CPONG \<Rightarrow> (h, Ok None)
      | COK \<Rightarrow> (h, Ok None)
      | CECHO s \<Rightarrow> (h, cmd_echo s)
      | CSET k v a \<Rightarrow> cmd_set k v a h
      | CGET k \<Rightarrow> cmd_get k h
      | CRPUSH k vs \<Rightarrow> cmd_rpush k vs h
      | CLRANGE k i j \<Rightarrow> (h, cmd_lrange k i j h)
      | CLPUSH k vs \<Rightarrow> cmd_lpush k vs h
      | CLLEN k \<Rightarrow> (h, cmd_llen k h)
      | CLPOP k n \<Rightarrow> cmd_lpop k n h
      | CBLPOP k t \<Rightarrow> cmd_blpop k t client h
      | CTYPE k \<Rightarrow> (h, cmd_type k h)
      | CXADD k i vs \<Rightarrow> cmd_xadd k i vs h
      | CXRANGE k i j \<Rightarrow> (h, cmd_xrange k i j h)
      | CXREAD n b ss \<Rightarrow> cmd_xread n b ss client h
      | CINCR k \<Rightarrow> cmd_incr k h
      | CMULTI \<Rightarrow> cmd_multi client h
      | CEXEC \<Rightarrow> exec client h
      | CDISCARD \<Rightarrow> cmd_discard client h
      | CWATCH ks \<Rightarrow> cmd_watch ks client h
      | CUNWATCH \<Rightarrow> cmd_unwatch client h
      | CINFO k \<Rightarrow> (h, cmd_info k h)
      | CPSYNC i n \<Rightarrow> cmd_psync X i n client h
      | CREPLCONF a \<Rightarrow> cmd_replconf a client ep h
      | CFULLRESYNC _ _ \<Rightarrow> (h, Ok None)
      | CRDB _ \<Rightarrow> (h, Ok None)
      | CWAIT n t \<Rightarrow> cmd_wait n t client ep h
      | CCONFIG a \<Rightarrow> (h, cmd_config a h)
      | CKEYS a \<Rightarrow> (h, cmd_keys a h)
      | CSUBSCRIBE ks \<Rightarrow> cmd_subscribe ks client h
      | CUNSUBSCRIBE k \<Rightarrow> cmd_unsubscribe k client h
      | CPSUBSCRIBE \<Rightarrow> (h, Ok None)
      | CPUNSUBSCRIBE \<Rightarrow> (h, Ok None)
      | CQUIT \<Rightarrow> (h, Ok None)
      | CPUBLISH k m \<Rightarrow> cmd_publish k m h
      | CZADD k s m \<Rightarrow> cmd_zadd k s m h
      | CZRANK k m \<Rightarrow> (h, cmd_zrank k m h)
      | CZRANGE k i j \<Rightarrow> (h, cmd_zrange k i j h)
      | CZCARD k \<Rightarrow> (h, cmd_zcard k h)
      | CZSCORE k m \<Rightarrow> (h, cmd_zscore k m h)
      | CZREM k m \<Rightarrow> cmd_zrem k m h
      | CGEOADD k x y m \<Rightarrow> cmd_geoadd k x y m h
      | CGEOPOS k ms \<Rightarrow> (h, cmd_geopos k ms h)
      | CGEODIST k ms \<Rightarrow> (h, cmd_geodist X k ms h)
      | CGEOSEARCH k a b \<Rightarrow> (h, cmd_geosearch X k a b h)
      | CACL a \<Rightarrow> cmd_acl X a client h
      | CAUTH u p \<Rightarrow> cmd_auth X u p client h
      | CSETBIT k i b \<Rightarrow> cmd_setbit k i b h
      | CGETBIT k i \<Rightarrow> (h, cmd_getbit k i h)
      | CSTRLEN k \<Rightarrow> (h, cmd_strlen k h)
      | CBITCOUNT k r \<Rightarrow> (h, cmd_bitcount k r h)
      | CBITOP a \<Rightarrow> cmd_bitop a h)"

section \<open>Around the dispatch\<close>

definition count_bytes :: "nat \<Rightarrow> cmd_handler \<Rightarrow> cmd_handler" where
  "count_bytes n h = h\<lparr>h_states := host_add_bytes_count (int n) (h_states h)\<rparr>"

text \<open>A write that succeeded goes to the append-only file, errors ignored, and to every replica.\<close>

definition broadcast :: "bytes \<Rightarrow> cmd_handler \<Rightarrow> cmd_handler" where
  "broadcast b h =
     (let h1 = h\<lparr>h_aof := map_option (\<lambda>a. fst (aof_write b a)) (h_aof h)\<rparr>
      in fold (\<lambda>i. push i b) (list_slave (h_table h1)) h1)"

definition to_output :: "bool \<Rightarrow> resp_type \<Rightarrow> cmd_output cres" where
  "to_output serialized r =
     (if serialized then rbind (serialize r) (\<lambda>b. Ok (CoBytes b)) else Ok (CoResp r))"

definition after_ok ::
  "cmd \<Rightarrow> bytes \<Rightarrow> bool \<Rightarrow> bool \<Rightarrow> resp_type \<Rightarrow> cmd_handler \<Rightarrow> cmd_handler \<times> cmd_result" where
  "after_ok c b from_master serialized r h =
     (let h1 = h\<lparr>h_flag_list := is_flag_list c, h_flag_stream := is_flag_stream c\<rparr>;
          h2 = (if to_be_broadcast c then broadcast b h1 else h1);
          h3 = (if from_master then count_bytes (length b) h2 else h2)
      in (h3,
          if \<not> from_master \<or> always_response c
          then (case to_output serialized r of Ok out \<Rightarrow> Ok out | _ \<Rightarrow> Panic)
          else Ok CoNone))"

definition after_err ::
  "bytes \<Rightarrow> bool \<Rightarrow> bool \<Rightarrow> custom_error \<Rightarrow> cmd_handler \<Rightarrow> cmd_handler \<times> cmd_result" where
  "after_err b from_master serialized e h =
     (if from_master then count_bytes (length b) h else h,
      if serialized then Err (CoBytes (into_error_bytes e)) else Err (CoResp (into_resp e)))"

definition before_cmd :: "cmd \<Rightarrow> bytes \<Rightarrow> bool \<Rightarrow> cmd_handler \<Rightarrow> cmd_handler" where
  "before_cmd c b from_master h =
     (let h1 = on_reg (set_dirty c) h
      in if to_be_broadcast c \<and> \<not> from_master then count_bytes (length b) h1 else h1)"

definition stats_missing :: "cmd \<Rightarrow> bool \<Rightarrow> cmd_handler \<Rightarrow> bool" where
  "stats_missing c from_master h \<longleftrightarrow>
     to_be_broadcast c \<and> \<not> from_master \<and> host_stats (h_states h) = None"

definition execute_with ::
  "externals \<Rightarrow> (u64 \<Rightarrow> cmd_handler \<Rightarrow> cmd_handler \<times> reply) \<Rightarrow> cmd \<Rightarrow> bytes \<Rightarrow> u64 \<Rightarrow> epoll_ref \<Rightarrow>
   bool \<Rightarrow> cmd_handler \<Rightarrow> cmd_handler \<times> cmd_result" where
  "execute_with X exec c b client ep serialized h =
     (let from_master = is_master client (h_table h) in
      if is_subscriber client h \<and> \<not> is_cmd_subscriber_allowed c
      then (h, Err (CoBytes (into_error_bytes (subscriber_error c))))
      else if stats_missing c from_master h then (h, Panic)
      else (case dispatch X exec c client ep (before_cmd c b from_master h) of
          (h1, Ok (Some r)) \<Rightarrow> after_ok c b from_master serialized r h1
        | (h1, Ok None) \<Rightarrow> (h1, Ok CoNone)
        | (h1, Err e) \<Rightarrow> after_err b from_master serialized e h1
        | (h1, Panic) \<Rightarrow> (h1, Panic)))"

section \<open>EXEC\<close>

text \<open>The replies of the queued commands; those that are no RESP value are left out.\<close>

fun run_queue ::
  "(cmd \<Rightarrow> bytes \<Rightarrow> cmd_handler \<Rightarrow> cmd_handler \<times> cmd_result) \<Rightarrow> (cmd \<times> bytes) list \<Rightarrow> cmd_handler \<Rightarrow>
   cmd_handler \<times> resp_type list cres" where
  "run_queue ex [] h = (h, Ok [])"
| "run_queue ex ((c, b) # q) h =
     (case ex c b h of
        (h1, Panic) \<Rightarrow> (h1, Panic)
      | (h1, Ok out) \<Rightarrow>
          (case run_queue ex q h1 of
             (h2, rs) \<Rightarrow> (h2, rbind rs (\<lambda>rs. Ok (case out of CoResp r \<Rightarrow> r # rs | _ \<Rightarrow> rs))))
      | (h1, Err out) \<Rightarrow>
          (case run_queue ex q h1 of
             (h2, rs) \<Rightarrow> (h2, rbind rs (\<lambda>rs. Ok (case out of CoResp r \<Rightarrow> r # rs | _ \<Rightarrow> rs)))))"

definition drain_txn :: "u64 \<Rightarrow> cmd_handler \<Rightarrow> cmd_handler" where
  "drain_txn client = on_reg (\<lambda>r. r\<lparr>rg_txn := hm_insert client [] (rg_txn r)\<rparr>)"

definition exec_with ::
  "(cmd \<Rightarrow> bytes \<Rightarrow> cmd_handler \<Rightarrow> cmd_handler \<times> cmd_result) \<Rightarrow> u64 \<Rightarrow> cmd_handler \<Rightarrow> cmd_handler \<times> reply" where
  "exec_with ex client h =
     (case hm_get (rg_txn (h_reg h)) client of
        None \<Rightarrow> (h, Err (UnsupportedCmdStructure ''ERR EXEC without MULTI''))
      | Some q \<Rightarrow>
          (if is_any_dirty client (h_reg h) then (close_txn client h, reply null_arr)
           else (case run_queue ex q (drain_txn client h) of
               (h1, Ok rs) \<Rightarrow>
                 (close_txn client h1,
                  reply (if rs \<noteq> [] then built (length rs) rs else empty_arr))
             | (h1, _) \<Rightarrow> (h1, Panic))))"

fun execute ::
  "nat \<Rightarrow> externals \<Rightarrow> cmd \<Rightarrow> bytes \<Rightarrow> u64 \<Rightarrow> epoll_ref \<Rightarrow> bool \<Rightarrow> cmd_handler \<Rightarrow> cmd_handler \<times> cmd_result" where
  "execute 0 X c b client ep serialized h =
     execute_with X (exec_with (\<lambda>_ _ h. (h, Panic))) c b client ep serialized h"
| "execute (Suc n) X c b client ep serialized h =
     execute_with X (\<lambda>cl. exec_with (\<lambda>c b. execute n X c b cl None False) cl) c b client ep serialized h"

definition cmd_exec :: "externals \<Rightarrow> u64 \<Rightarrow> cmd_handler \<Rightarrow> cmd_handler \<times> reply" where
  "cmd_exec X client h = exec_with (\<lambda>c b. execute 1 X c b client None False) client h"

section \<open>Commands from a client\<close>

definition bytes_or_none :: "cmd_output \<Rightarrow> bytes" where
  "bytes_or_none out = (case extract_bytes out of Some b \<Rightarrow> b | None \<Rightarrow> [])"

definition queued_reply :: bytes where
  "queued_reply = ser (SimpleStr (Some ''QUEUED''))"

definition txn_answer :: "cmd_handler \<times> reply \<Rightarrow> cmd_handler \<times> (bytes, bytes) result" where
  "txn_answer hr =
     (case hr of
        (h, Ok (Some r)) \<Rightarrow> (h, case serialize r of Ok b \<Rightarrow> Ok b | _ \<Rightarrow> Panic)
      | (h, Panic) \<Rightarrow> (h, Panic)
      | (h, _) \<Rightarrow> (h, Ok []))"

definition handle ::
  "externals \<Rightarrow> cmd cres \<Rightarrow> bytes \<Rightarrow> u64 \<Rightarrow> bool \<Rightarrow> cmd_handler \<Rightarrow> cmd_handler \<times> (bytes, bytes) result" where
  "handle X cr b client ep h =
     (case cr of
        Panic \<Rightarrow> (h, Panic)
      | Err e \<Rightarrow> (h, Err (into_error_bytes e))
      | Ok c \<Rightarrow>
          (if \<not> is_transaction client (h_reg h)
           then (case execute 2 X c b client (Some ep) True h of
               (h1, Ok out) \<Rightarrow> (h1, Ok (bytes_or_none out))
             | (h1, Err out) \<Rightarrow> (h1, Err (bytes_or_none out))
             | (h1, Panic) \<Rightarrow> (h1, Panic))
           else (case c of
               CEXEC \<Rightarrow> txn_answer (cmd_exec X client h)
             | CDISCARD \<Rightarrow> txn_answer (cmd_discard client h)
             | CWATCH _ \<Rightarrow> (h, Ok (ser (RError (Some ''ERR WATCH inside MULTI is not allowed''))))
             | _ \<Rightarrow> (on_reg (add_to_txn client c b) h, Ok queued_reply))))"

section \<open>Between the rounds\<close>

definition run_deadline_task :: "request_entry \<Rightarrow> cmd_handler \<Rightarrow> cmd_handler cres" where
  "run_deadline_task e h =
     (case e of
        ListReq _ _ client ts \<Rightarrow> Ok (null_deadline_task client ts h)
      | StreamReq _ _ client ts _ \<Rightarrow> Ok (null_deadline_task client ts h)
      | WaitReq client _ actual _ _ _ ts ep \<Rightarrow> wait_deadline_task client actual ts ep h)"

definition callback_deadline_expire :: "cmd_handler \<Rightarrow> cmd_handler cres" where
  "callback_deadline_expire h =
     (case get_nearest_deadline (h_reg h) of
        None \<Rightarrow> Panic
      | Some (_, ts) \<Rightarrow>
          (case remove_request ts h of
             (Some e, h1) \<Rightarrow> run_deadline_task e h1
           | (None, h1) \<Rightarrow> Ok h1))"

fun take_requests :: "u64 list \<Rightarrow> cmd_handler \<Rightarrow> request_entry list \<times> cmd_handler" where
  "take_requests [] h = ([], h)"
| "take_requests (t # ts) h =
     (case remove_request t h of
        (e, h1) \<Rightarrow>
          (case take_requests ts h1 of
             (es, h2) \<Rightarrow> ((case e of Some e \<Rightarrow> e # es | None \<Rightarrow> es), h2)))"

definition run_backlog_task :: "request_entry \<Rightarrow> cmd_handler \<Rightarrow> cmd_handler" where
  "run_backlog_task e h =
     (case e of
        ListReq key _ client ts \<Rightarrow> blpop_backlog_task key client ts h
      | StreamReq ss _ client ts count \<Rightarrow> xread_backlog_task count ss client ts h
      | WaitReq _ _ _ _ _ _ _ _ \<Rightarrow> h)"

text \<open>As many waiting clients of a list as it has elements, the longest waiting ones first.\<close>

definition servable_list :: "cmd_handler \<Rightarrow> u64 list" where
  "servable_list h =
     concat (map (\<lambda>(k, q).
       (case look k h of
          Some it \<Rightarrow> (case item_value it of VList xs \<Rightarrow> take (min (length q) (length xs)) q | _ \<Rightarrow> [])
        | None \<Rightarrow> [])) (rg_list (h_reg h)))"

definition is_list_entry :: "request_entry \<Rightarrow> bool" where
  "is_list_entry e = (case e of ListReq _ _ _ _ \<Rightarrow> True | _ \<Rightarrow> False)"

definition serve_backlog_list :: "cmd_handler \<Rightarrow> cmd_handler" where
  "serve_backlog_list h =
     (if \<not> h_flag_list h then h
      else (case take_requests (servable_list h) h of
          (es, h1) \<Rightarrow>
            (fold run_backlog_task (filter is_list_entry es) h1)\<lparr>h_flag_list := False\<rparr>))"

definition servable_stream :: "cmd_handler \<Rightarrow> u64 list" where
  "servable_stream h =
     filter (\<lambda>t.
       (case hm_get (rg_store (h_reg h)) t of
          Some (StreamReq ss _ _ _ _) \<Rightarrow> list_ex (\<lambda>(k, i). is_stream_avail k i h) ss
        | _ \<Rightarrow> False)) (rg_stream (h_reg h))"

definition serve_backlog_stream :: "cmd_handler \<Rightarrow> cmd_handler" where
  "serve_backlog_stream h =
     (if \<not> h_flag_stream h then h
      else (case take_requests (servable_stream h) h of
          (es, h1) \<Rightarrow> (fold run_backlog_task (filter stream_req es) h1)\<lparr>h_flag_stream := False\<rparr>))"

definition handler_aof_flush :: "cmd_handler \<Rightarrow> cmd_handler \<times> unit cres" where
  "handler_aof_flush h =
     (case h_aof h of
        None \<Rightarrow> (h, Ok ())
      | Some a \<Rightarrow> (case aof_flush a of (a', r) \<Rightarrow> (h\<lparr>h_aof := Some a'\<rparr>, r)))"

end
