(* ===== verification/RespParser.thy ===== *)
theory RespParser
  imports Resp
begin

text \<open>
  The incremental parser of \<open>src/src/resp.rs\<close>: a buffer with two positions, a stack of
  values under construction and a status. The Rust stack is a \<open>Vec\<close> whose last element is
  the top; here the head of the list is the top. \<open>parse_step\<close> is one turn of the \<open>loop\<close>
  in \<open>parse\<close>; \<open>parse\<close> iterates it and is \<open>None\<close> when the loop does not end.
\<close>

section \<open>State\<close>

datatype parse_status = StNone | StType | StHeader | StLine | StBulk nat | StRDB nat

record resp_parser =
  buf :: bytes
  buf_cur :: nat
  tmp_start :: nat
  stack :: "resp_type list"
  completed :: "resp_type list"
  status :: parse_status

definition new_parser :: resp_parser where
  "new_parser = \<lparr>buf = [], buf_cur = 0, tmp_start = 0, stack = [], completed = [], status = StType\<rparr>"

definition feed_buf :: "bytes \<Rightarrow> resp_parser \<Rightarrow> resp_parser" where
  "feed_buf data p = p\<lparr>buf := buf p @ data\<rparr>"

definition get_completed :: "resp_parser \<Rightarrow> resp_type option \<times> resp_parser" where
  "get_completed p = (case completed p of [] \<Rightarrow> (None, p) | r # rs \<Rightarrow> (Some r, p\<lparr>completed := rs\<rparr>))"

text \<open>The boxed errors of \<open>parse\<close>.\<close>

datatype box_error = Utf8Error | ParseIntBox int_error | Message string

text \<open>
  \<open>usize\<close> arithmetic of the release build, and slicing and indexing, which panic out of
  range (\<open>None\<close>).
\<close>

definition usize_add :: "nat \<Rightarrow> nat \<Rightarrow> nat" where
  "usize_add a b = wrap_usize (a + b)"

definition usize_sub :: "nat \<Rightarrow> nat \<Rightarrow> nat" where
  "usize_sub a b = (if b \<le> a then a - b else a + 2 ^ 64 - b)"

definition slice :: "nat \<Rightarrow> nat \<Rightarrow> 'a list \<Rightarrow> 'a list option" where
  "slice i j xs = (if i \<le> j \<and> j \<le> length xs then Some (take (j - i) (drop i xs)) else None)"

definition index :: "nat \<Rightarrow> 'a list \<Rightarrow> 'a option" where
  "index i xs = (if i < length xs then Some (xs ! i) else None)"

section \<open>Operations\<close>

text \<open>\<open>pop_completed\<close>: completed values move off the stack into their parent or out.\<close>

fun pop_loop :: "resp_type list \<Rightarrow> resp_type list \<Rightarrow> resp_type list \<times> resp_type list" where
  "pop_loop [] acc = ([], acc)"
| "pop_loop (tp # s) acc =
     (if is_completed tp
      then (case s of [] \<Rightarrow> ([], acc @ [tp]) | tp' # s' \<Rightarrow> pop_loop (add_item tp' tp # s') acc)
      else (tp # s, acc))"

definition pop_completed :: "resp_parser \<Rightarrow> resp_parser" where
  "pop_completed p =
     (case pop_loop (stack p) (completed p) of (s, c) \<Rightarrow> p\<lparr>stack := s, completed := c\<rparr>)"

text \<open>\<open>next_till_type\<close>: bytes that are no prefix are skipped.\<close>

fun scan_type :: "bool \<Rightarrow> bytes \<Rightarrow> nat \<times> resp_type option" where
  "scan_type rdb [] = (0, None)"
| "scan_type rdb (c # cs) =
     (case match_prefix c rdb of
        Some r \<Rightarrow> (1, Some r)
      | None \<Rightarrow> (case scan_type rdb cs of (n, r) \<Rightarrow> (Suc n, r)))"

definition next_till_type :: "bool \<Rightarrow> resp_parser \<Rightarrow> resp_type option \<times> resp_parser" where
  "next_till_type rdb p =
     (case scan_type rdb (drop (buf_cur p) (buf p)) of
        (n, Some r) \<Rightarrow> (Some r, p\<lparr>buf_cur := buf_cur p + n, tmp_start := buf_cur p + n\<rparr>)
      | (n, None) \<Rightarrow> (None, p\<lparr>buf_cur := buf_cur p + n\<rparr>))"

text \<open>\<open>next_till_new_line\<close>: the bytes up to the next CR LF.\<close>

fun scan_crlf :: "bytes \<Rightarrow> nat \<times> bool" where
  "scan_crlf (a # b # s) =
     (if a = CHR 0x0D \<and> b = CHR 0x0A then (0, True)
      else (case scan_crlf (b # s) of (n, f) \<Rightarrow> (Suc n, f)))"
| "scan_crlf _ = (0, False)"

definition next_till_new_line ::
  "resp_parser \<Rightarrow> (read_out option, box_error) result \<times> resp_parser" where
  "next_till_new_line p =
     (if length (buf p) < buf_cur p then (Panic, p)
      else case scan_crlf (drop (buf_cur p) (buf p)) of
        (n, True) \<Rightarrow>
          (let c = buf_cur p + n; p1 = p\<lparr>buf_cur := c\<rparr> in
           case slice (tmp_start p) c (buf p) of
             Some s \<Rightarrow> if utf8_valid s
                      then (Ok (Some (OutString s)), p1\<lparr>buf_cur := c + 2, tmp_start := c + 2\<rparr>)
                      else (Err Utf8Error, p1)
           | None \<Rightarrow> (Panic, p1))
      | (n, False) \<Rightarrow> (Ok None, p\<lparr>buf_cur := buf_cur p + n\<rparr>))"

text \<open>
  \<open>read_bytes\<close>. The bound of \<open>next_len\<close> is the length of the whole buffer, not of what is
  left of it, as in the source; so \<open>buf_cur\<close> may pass the end of the buffer.
\<close>

definition read_total :: "nat \<Rightarrow> bool \<Rightarrow> nat" where
  "read_total n rdb = usize_add n (if rdb then 0 else 2)"

definition read_cursor :: "nat \<Rightarrow> bool \<Rightarrow> resp_parser \<Rightarrow> nat" where
  "read_cursor n rdb p =
     (let tmp_len = usize_sub (buf_cur p) (tmp_start p);
          next_len = min (read_total n rdb - tmp_len) (length (buf p))
      in buf_cur p + next_len)"

text \<open>The token once the cursor stands behind it: a bulk string must end with CR LF.\<close>

definition read_token :: "nat \<Rightarrow> bool \<Rightarrow> resp_parser \<Rightarrow> (read_out, box_error) result" where
  "read_token n rdb p =
     (if rdb
      then case slice (tmp_start p) (buf_cur p) (buf p) of
             Some s \<Rightarrow> Ok (OutBytes s) | None \<Rightarrow> Panic
      else case index (usize_add (tmp_start p) n) (buf p) of
             None \<Rightarrow> Panic
           | Some a \<Rightarrow>
               if a \<noteq> CHR 0x0D then Err (Message ''Bulk reading must end with CRLF'')
               else case index (usize_add (usize_add (tmp_start p) n) 1) (buf p) of
                      None \<Rightarrow> Panic
                    | Some b \<Rightarrow>
                        if b \<noteq> CHR 0x0A then Err (Message ''Bulk reading must end with CRLF'')
                        else case slice (tmp_start p) (usize_sub (buf_cur p) 2) (buf p) of
                               None \<Rightarrow> Panic
                             | Some s \<Rightarrow> if utf8_valid s then Ok (OutString s) else Err Utf8Error)"

definition read_bytes ::
  "nat \<Rightarrow> bool \<Rightarrow> resp_parser \<Rightarrow> (read_out option, box_error) result \<times> resp_parser" where
  "read_bytes n rdb p =
     (let p1 = p\<lparr>buf_cur := read_cursor n rdb p\<rparr>
      in if buf_cur p1 \<le> length (buf p1) \<and> usize_sub (buf_cur p1) (tmp_start p1) = read_total n rdb
         then (rbind (read_token n rdb p1) (\<lambda>t. Ok (Some t)), p1)
         else (Ok None, p1))"

definition drain_till_buf :: "resp_parser \<Rightarrow> resp_parser option" where
  "drain_till_buf p =
     (if buf_cur p \<le> length (buf p)
      then Some (p\<lparr>buf := drop (buf_cur p) (buf p), buf_cur := 0, tmp_start := 0\<rparr>)
      else None)"

section \<open>One turn of the loop\<close>

datatype step_out = Continue resp_parser | Return resp_parser | Fail box_error resp_parser | Crash

definition status_after_type :: "resp_type \<Rightarrow> parse_status" where
  "status_after_type r =
     (case r of Array _ _ \<Rightarrow> StHeader | BulkStr _ _ \<Rightarrow> StHeader | RDB _ \<Rightarrow> StHeader
      | SimpleStr _ \<Rightarrow> StLine | Integer _ \<Rightarrow> StLine | _ \<Rightarrow> StType)"

definition status_after_header :: "nat \<Rightarrow> resp_type \<Rightarrow> parse_status" where
  "status_after_header len r =
     (case r of Array _ _ \<Rightarrow> StType
      | BulkStr n _ \<Rightarrow> StBulk n | BulkError n _ \<Rightarrow> StBulk n | VerbatimStr n _ \<Rightarrow> StBulk n
      | RDB _ \<Rightarrow> StRDB len | _ \<Rightarrow> StType)"

definition parse_type :: "bool \<Rightarrow> resp_parser \<Rightarrow> step_out" where
  "parse_type rdb p =
     (case next_till_type rdb p of
        (Some r, p1) \<Rightarrow> Continue (p1\<lparr>stack := r # stack p1, status := status_after_type r\<rparr>)
      | (None, p1) \<Rightarrow> Continue (p1\<lparr>status := StType\<rparr>))"

definition parse_header :: "resp_parser \<Rightarrow> step_out" where
  "parse_header p =
     (case next_till_new_line p of
        (Ok (Some out), p1) \<Rightarrow>
          (case drain_till_buf p1 of
             Some p2 \<Rightarrow>
               (case stack p2 of
                  [] \<Rightarrow> Continue p2
                | tp # s \<Rightarrow>
                    (case out of
                       OutString str \<Rightarrow>
                         (case parse_usize str of
                            Ok len \<Rightarrow>
                              (let tp' = set_length len tp in
                               Continue (p2\<lparr>stack := tp' # s, status := status_after_header len tp'\<rparr>))
                          | Err e \<Rightarrow> Fail (ParseIntBox e) p2
                          | Panic \<Rightarrow> Crash)
                     | OutBytes _ \<Rightarrow> Crash))
           | None \<Rightarrow> Crash)
      | (Ok None, p1) \<Rightarrow> Return (p1\<lparr>status := StHeader\<rparr>)
      | (Err e, p1) \<Rightarrow> Fail e p1
      | (Panic, p1) \<Rightarrow> Crash)"

text \<open>What \<open>Line\<close>, \<open>Bulk\<close> and \<open>RDB\<close> do with a value that has been read.\<close>

definition deliver :: "read_out \<Rightarrow> resp_parser \<Rightarrow> step_out" where
  "deliver out p =
     (case drain_till_buf p of
        Some p2 \<Rightarrow>
          (case stack p2 of
             [] \<Rightarrow> Continue p2
           | tp # s \<Rightarrow>
               (case set_value tp out of
                  Ok tp' \<Rightarrow> Continue (p2\<lparr>stack := tp' # s, status := StType\<rparr>)
                | Err e \<Rightarrow> Fail (Message e) p2
                | Panic \<Rightarrow> Crash))
      | None \<Rightarrow> Crash)"

definition parse_line :: "resp_parser \<Rightarrow> step_out" where
  "parse_line p =
     (case next_till_new_line p of
        (Ok (Some out), p1) \<Rightarrow> deliver out p1
      | (Ok None, p1) \<Rightarrow> Return (p1\<lparr>status := StLine\<rparr>)
      | (Err e, p1) \<Rightarrow> Fail e p1
      | (Panic, p1) \<Rightarrow> Crash)"

definition parse_bulk :: "nat \<Rightarrow> resp_parser \<Rightarrow> step_out" where
  "parse_bulk n p =
     (case read_bytes n False p of
        (Ok (Some out), p1) \<Rightarrow> deliver out p1
      | (Ok None, p1) \<Rightarrow> Continue (p1\<lparr>status := StBulk n\<rparr>)
      | (Err e, p1) \<Rightarrow> Continue p1
      | (Panic, p1) \<Rightarrow> Crash)"

definition parse_rdb :: "nat \<Rightarrow> resp_parser \<Rightarrow> step_out" where
  "parse_rdb n p =
     (case read_bytes n True p of
        (Ok (Some out), p1) \<Rightarrow> deliver out p1
      | (Ok None, p1) \<Rightarrow> Continue (p1\<lparr>status := StRDB n\<rparr>)
      | (Err e, p1) \<Rightarrow> Continue p1
      | (Panic, p1) \<Rightarrow> Crash)"

text \<open>
  \<open>std::mem::replace(&mut self.status, Type)\<close> comes first, so every arm that does not set
  the status again leaves \<open>StType\<close>.
\<close>

definition parse_step :: "bool \<Rightarrow> resp_parser \<Rightarrow> step_out" where
  "parse_step rdb p0 =
     (let p = pop_completed p0 in
      if completed p \<noteq> [] then Return p
      else if buf p = [] \<or> length (buf p) \<le> buf_cur p then Return p
      else let q = p\<lparr>status := StType\<rparr> in
        (case status p of
           StType \<Rightarrow> parse_type rdb q
         | StHeader \<Rightarrow> parse_header q
         | StLine \<Rightarrow> parse_line q
         | StBulk n \<Rightarrow> parse_bulk n q
         | StRDB n \<Rightarrow> parse_rdb n q
         | StNone \<Rightarrow> Continue q))"

partial_function (option) parse :: "bool \<Rightarrow> resp_parser \<Rightarrow> step_out option" where
  "parse rdb p =
     (case parse_step rdb p of
        Continue p' \<Rightarrow> parse rdb p'
      | Return p' \<Rightarrow> Some (Return p')
      | Fail e p' \<Rightarrow> Some (Fail e p')
      | Crash \<Rightarrow> Some Crash)"

declare parse.simps [code]

end
