(* ===== verification/RespParserCorrect.thy ===== *)
theory RespParserCorrect
  imports RespParser
begin

text \<open>
  Correctness of the parser: a value of the command fragment that is sent whole is parsed back
  to itself whatever its nesting; the loop of \<open>parse\<close> always ends; and it panics only on a
  bulk length within two of \<open>usize::MAX\<close>.
\<close>

section \<open>Round trip\<close>

text \<open>The values a client sends: bulk strings, simple strings and non-empty arrays of them.\<close>

fun wf_resp :: "resp_type \<Rightarrow> bool" where
  "wf_resp (BulkStr n (Some s)) \<longleftrightarrow> n = length s \<and> n + 2 < 2 ^ 64 \<and> utf8_valid s"
| "wf_resp (SimpleStr (Some s)) \<longleftrightarrow> CHR 0x0D \<notin> set s \<and> utf8_valid s"
| "wf_resp (Array n (Some xs)) \<longleftrightarrow>
     n = length xs \<and> xs \<noteq> [] \<and> n < 2 ^ 64 \<and> list_all wf_resp xs"
| "wf_resp _ = False"

lemma wf_resp_completed: "wf_resp r \<Longrightarrow> is_completed r"
  by (cases r rule: wf_resp.cases) auto

lemma wf_resp_serializable: "wf_resp r \<Longrightarrow> serializable r"
  by (induction r rule: wf_resp.induct) (auto simp: list_all_iff)

definition at_start :: "bytes \<Rightarrow> resp_type list \<Rightarrow> parse_status \<Rightarrow> resp_parser" where
  "at_start b stk st =
     \<lparr>buf = b, buf_cur = 0, tmp_start = 0, stack = stk, completed = [], status = st\<rparr>"

definition after_prefix :: "char \<Rightarrow> bytes \<Rightarrow> resp_type list \<Rightarrow> parse_status \<Rightarrow> resp_parser" where
  "after_prefix c b stk st =
     \<lparr>buf = c # b, buf_cur = 1, tmp_start = 1, stack = stk, completed = [], status = st\<rparr>"

definition stable :: "resp_type list \<Rightarrow> bool" where
  "stable stk \<longleftrightarrow> stk = [] \<or> \<not> is_completed (hd stk)"

lemma stable_Cons [simp]: "stable (r # stk) \<longleftrightarrow> \<not> is_completed r"
  by (simp add: stable_def)

lemma pop_loop_stable: "stable stk \<Longrightarrow> pop_loop stk c = (stk, c)"
  by (cases stk) (auto simp: stable_def)

lemma parse_continue: "parse_step rdb p = Continue p' \<Longrightarrow> parse rdb p = parse rdb p'"
  by (subst parse.simps) simp

lemma pop_completed_stable:
  "stable stk \<Longrightarrow> pop_completed (at_start b stk st) = at_start b stk st"
  "stable stk \<Longrightarrow> pop_completed (after_prefix c b stk st) = after_prefix c b stk st"
  by (simp_all add: pop_completed_def at_start_def after_prefix_def pop_loop_stable)

lemma step_type:
  assumes "stable stk" and "match_prefix c False = Some r"
  shows "parse_step False (at_start (c # b) stk StType) =
    Continue (after_prefix c b (r # stk) (status_after_type r))"
  using assms
  by (simp add: parse_step_def pop_completed_stable)
    (simp add: at_start_def after_prefix_def parse_type_def next_till_type_def)

lemma scan_crlf_line: "CHR 0x0D \<notin> set s \<Longrightarrow> scan_crlf (s @ delimiter @ b) = (length s, True)"
proof (induction s)
  case (Cons a s)
  then have "scan_crlf (s @ delimiter @ b) = (length s, True)" and "a \<noteq> CHR 0x0D" by auto
  then show ?case by (cases s) (auto simp: delimiter_def)
qed (simp add: delimiter_def)

lemma new_line_after_prefix:
  assumes "CHR 0x0D \<notin> set s" and "utf8_valid s"
  shows "next_till_new_line (after_prefix c (s @ delimiter @ b) stk st) =
    (Ok (Some (OutString s)),
     (after_prefix c (s @ delimiter @ b) stk st)\<lparr>buf_cur := length s + 3, tmp_start := length s + 3\<rparr>)"
  using assms
  by (simp add: next_till_new_line_def after_prefix_def scan_crlf_line slice_def)

lemma drain_line:
  "drain_till_buf ((after_prefix c (s @ delimiter @ b) stk st)\<lparr>buf_cur := length s + 3, tmp_start := t\<rparr>)
   = Some (at_start b stk st)"
  by (simp add: drain_till_buf_def after_prefix_def at_start_def delimiter_def numeral_3_eq_3)

lemma show_nat_no_cr: "CHR 0x0D \<notin> set (show_nat n)"
  by (auto dest!: show_nat_digits simp: is_digit_def)

lemma step_header:
  assumes "\<not> is_completed r" and "n < 2 ^ 64"
  shows "parse_step False (after_prefix c (show_nat n @ delimiter @ b) (r # stk) StHeader) =
    Continue (at_start b (set_length n r # stk) (status_after_header n (set_length n r)))"
proof -
  let ?p = "after_prefix c (show_nat n @ delimiter @ b) (r # stk) StType"
  have "parse_usize (show_nat n) = Ok n" using assms(2) by (rule parse_usize_show_nat)
  then have "parse_header ?p =
      Continue (at_start b (set_length n r # stk) (status_after_header n (set_length n r)))"
    by (simp add: parse_header_def new_line_after_prefix show_nat_no_cr utf8_valid_show_nat
        drain_line at_start_def Let_def)
  then show ?thesis
    using assms(1)
    by (simp add: parse_step_def pop_completed_stable) (simp add: after_prefix_def Let_def)
qed

lemma step_line:
  assumes "CHR 0x0D \<notin> set s" and "utf8_valid s"
  shows "parse_step False (after_prefix c (s @ delimiter @ b) (SimpleStr None # stk) StLine) =
    Continue (at_start b (SimpleStr (Some s) # stk) StType)"
proof -
  let ?p = "after_prefix c (s @ delimiter @ b) (SimpleStr None # stk) StType"
  have "parse_line ?p = Continue (at_start b (SimpleStr (Some s) # stk) StType)"
    using assms
    by (simp add: parse_line_def new_line_after_prefix deliver_def drain_line)
      (simp add: at_start_def get_or_insert_def)
  then show ?thesis
    by (simp add: parse_step_def pop_completed_stable) (simp add: after_prefix_def Let_def)
qed

lemma read_bytes_whole:
  assumes "length s + 2 < 2 ^ 64" and "utf8_valid s"
  shows "read_bytes (length s) False (at_start (s @ delimiter @ b) stk st) =
    (Ok (Some (OutString s)), (at_start (s @ delimiter @ b) stk st)\<lparr>buf_cur := length s + 2\<rparr>)"
proof -
  have "length s mod 18446744073709551616 = length s"
    and "Suc (length s) mod 18446744073709551616 = Suc (length s)"
    and "Suc (Suc (length s)) mod 18446744073709551616 = Suc (Suc (length s))"
    using assms(1) by simp_all
  then show ?thesis
    using assms(2)
    by (simp add: read_bytes_def read_total_def read_cursor_def read_token_def at_start_def
        usize_add_def usize_sub_def wrap_usize_def
        index_def slice_def delimiter_def nth_append Let_def)
qed

lemma step_bulk:
  assumes "length s + 2 < 2 ^ 64" and "utf8_valid s"
  shows "parse_step False (at_start (s @ delimiter @ b) (BulkStr n None # stk) (StBulk (length s))) =
    Continue (at_start b (BulkStr n (Some s) # stk) StType)"
proof -
  let ?p = "at_start (s @ delimiter @ b) (BulkStr n None # stk) StType"
  have "parse_bulk (length s) ?p = Continue (at_start b (BulkStr n (Some s) # stk) StType)"
    using assms
    by (simp add: parse_bulk_def read_bytes_whole deliver_def drain_till_buf_def)
      (simp add: at_start_def delimiter_def get_or_insert_def)
  then show ?thesis
    by (simp add: parse_step_def pop_completed_stable) (simp add: at_start_def delimiter_def Let_def)
qed

text \<open>
  The heart of the round trip: with any parent values below, the bytes of \<open>r\<close> are consumed
  exactly and \<open>r\<close> is left on top of the stack.
\<close>

lemma parse_bulk_value:
  assumes "wf_resp (BulkStr n (Some s))" and "stable stk"
  shows "parse False (at_start (ser (BulkStr n (Some s)) @ b) stk StType) =
    parse False (at_start b (BulkStr n (Some s) # stk) StType)"
proof -
  have n: "n = length s" "n < 2 ^ 64" using assms(1) by auto
  have "parse False (at_start (ser (BulkStr n (Some s)) @ b) stk StType) =
      parse False (after_prefix CHR ''$'' (show_nat n @ delimiter @ s @ delimiter @ b)
        (BulkStr 0 None # stk) StHeader)"
    using step_type [of stk "CHR ''$''" "BulkStr 0 None" "show_nat n @ delimiter @ s @ delimiter @ b"]
      assms(2)
    by (simp add: parse_continue match_prefix_def status_after_type_def)
  also have "\<dots> = parse False (at_start (s @ delimiter @ b) (BulkStr n None # stk) (StBulk n))"
    using step_header [OF _ n(2), of "BulkStr 0 None"]
    by (simp add: parse_continue status_after_header_def)
  also have "\<dots> = parse False (at_start b (BulkStr n (Some s) # stk) StType)"
    using step_bulk [of s b n stk] assms(1) by (simp add: parse_continue)
  finally show ?thesis .
qed

lemma parse_simple_value:
  assumes "wf_resp (SimpleStr (Some s))" and "stable stk"
  shows "parse False (at_start (ser (SimpleStr (Some s)) @ b) stk StType) =
    parse False (at_start b (SimpleStr (Some s) # stk) StType)"
proof -
  have "parse False (at_start (ser (SimpleStr (Some s)) @ b) stk StType) =
      parse False (after_prefix CHR ''+'' (s @ delimiter @ b) (SimpleStr None # stk) StLine)"
    using step_type [of stk "CHR ''+''" "SimpleStr None" "s @ delimiter @ b"] assms(2)
    by (simp add: parse_continue match_prefix_def status_after_type_def)
  also have "\<dots> = parse False (at_start b (SimpleStr (Some s) # stk) StType)"
    using step_line [of s "CHR ''+''" b stk] assms(1) by (simp add: parse_continue)
  finally show ?thesis .
qed

lemma parse_array_header:
  assumes "stable stk" and "n < 2 ^ 64"
  shows "parse False (at_start (''*'' @ show_nat n @ delimiter @ b) stk StType) =
    parse False (at_start b (Array n None # stk) StType)"
proof -
  have "parse False (at_start (''*'' @ show_nat n @ delimiter @ b) stk StType) =
      parse False (after_prefix CHR ''*'' (show_nat n @ delimiter @ b) (Array 0 None # stk) StHeader)"
    using step_type [of stk "CHR ''*''" "Array 0 None" "show_nat n @ delimiter @ b"] assms(1)
    by (simp add: parse_continue match_prefix_def status_after_type_def)
  also have "\<dots> = parse False (at_start b (Array n None # stk) StType)"
    using step_header [OF _ assms(2), of "Array 0 None"]
    by (simp add: parse_continue status_after_header_def)
  finally show ?thesis .
qed

text \<open>A completed value on top of an open array moves into it before anything else.\<close>

lemma parse_step_pop:
  "pop_completed (pop_completed p) = pop_completed p \<Longrightarrow>
   parse_step rdb p = parse_step rdb (pop_completed p)"
  by (simp add: parse_step_def)

lemma pop_loop_idem: "pop_loop s c = (s', c') \<Longrightarrow> stable s'"
  by (induction s c rule: pop_loop.induct) (auto simp: stable_def split: if_splits list.splits)

lemma pop_completed_idem: "pop_completed (pop_completed p) = pop_completed p"
  by (auto simp: pop_completed_def pop_loop_stable split: prod.splits dest: pop_loop_idem)

lemma parse_pop: "parse rdb p = parse rdb (pop_completed p)"
  by (simp add: parse.simps [of rdb p] parse.simps [of rdb "pop_completed p"]
      parse_step_pop [OF pop_completed_idem, symmetric])

lemma pop_into_array:
  assumes "is_completed r" and "\<not> is_completed (add_item (Array n v) r)"
  shows "parse False (at_start b (r # Array n v # stk) StType) =
    parse False (at_start b (add_item (Array n v) r # stk) StType)"
proof -
  have "pop_completed (at_start b (r # Array n v # stk) StType) =
      at_start b (add_item (Array n v) r # stk) StType"
    using assms by (simp add: pop_completed_def at_start_def)
  then show ?thesis by (metis parse_pop)
qed

lemma pop_into_array_last:
  assumes "is_completed r"
  shows "parse False (at_start b (r # Array n v # stk) StType) =
    parse False (at_start b (add_item (Array n v) r # stk) StType)"
proof (cases "is_completed (add_item (Array n v) r)")
  case True
  have "pop_completed (at_start b (r # Array n v # stk) StType) =
      pop_completed (at_start b (add_item (Array n v) r # stk) StType)"
    using assms by (simp add: pop_completed_def at_start_def)
  then show ?thesis by (metis parse_pop)
next
  case False
  with assms show ?thesis by (rule pop_into_array)
qed

lemma parse_items:
  assumes items: "\<And>x stk b. x \<in> set ys \<Longrightarrow> stable stk \<Longrightarrow>
      parse False (at_start (ser x @ b) stk StType) = parse False (at_start b (x # stk) StType)"
    and comp: "\<And>x. x \<in> set ys \<Longrightarrow> is_completed x"
    and len: "length xs + length ys = n"
  shows "parse False (at_start (concat (map ser ys) @ b) (Array n (Some xs) # stk) StType) =
    parse False (at_start b (Array n (Some (xs @ ys)) # stk) StType)"
  using assms
proof (induction ys arbitrary: xs)
  case (Cons y ys)
  have "stable (Array n (Some xs) # stk)" using Cons.prems(3) by simp
  then have "parse False (at_start (concat (map ser (y # ys)) @ b) (Array n (Some xs) # stk) StType) =
      parse False (at_start (concat (map ser ys) @ b) (y # Array n (Some xs) # stk) StType)"
    using Cons.prems(1) [of y] by simp
  also have "\<dots> = parse False (at_start (concat (map ser ys) @ b) (Array n (Some (xs @ [y])) # stk) StType)"
    using pop_into_array_last [OF Cons.prems(2) [of y]] by simp
  also have "\<dots> = parse False (at_start b (Array n (Some ((xs @ [y]) @ ys)) # stk) StType)"
    using Cons.prems by (intro Cons.IH) auto
  finally show ?case by simp
qed simp

lemma parse_first_item:
  assumes items: "\<And>x stk b. x \<in> set ys \<Longrightarrow> stable stk \<Longrightarrow>
      parse False (at_start (ser x @ b) stk StType) = parse False (at_start b (x # stk) StType)"
    and comp: "\<And>x. x \<in> set ys \<Longrightarrow> is_completed x"
    and ne: "ys \<noteq> []"
  shows "parse False (at_start (concat (map ser ys) @ b) (Array (length ys) None # stk) StType) =
    parse False (at_start b (Array (length ys) (Some ys) # stk) StType)"
proof -
  obtain y zs where ys: "ys = y # zs" using ne by (cases ys) auto
  have "parse False (at_start (concat (map ser ys) @ b) (Array (length ys) None # stk) StType) =
      parse False (at_start (concat (map ser zs) @ b) (y # Array (length ys) None # stk) StType)"
    using items [of y "Array (length ys) None # stk"] ys by simp
  also have "\<dots> = parse False (at_start (concat (map ser zs) @ b) (Array (length ys) (Some [y]) # stk) StType)"
    using pop_into_array_last [OF comp [of y], of _ "length ys" None] ys by simp
  also have "\<dots> = parse False (at_start b (Array (length ys) (Some ([y] @ zs)) # stk) StType)"
    using ys items comp by (intro parse_items) auto
  finally show ?thesis using ys by simp
qed

lemma parse_value:
  "wf_resp r \<Longrightarrow> stable stk \<Longrightarrow>
   parse False (at_start (ser r @ b) stk StType) = parse False (at_start b (r # stk) StType)"
proof (induction r arbitrary: stk b rule: wf_resp.induct)
  case (1 n s)
  then show ?case by (rule parse_bulk_value)
next
  case (2 s)
  then show ?case by (rule parse_simple_value)
next
  case (3 n xs)
  then have n: "n = length xs" "n < 2 ^ 64" "xs \<noteq> []" by auto
  have wf: "wf_resp x" if "x \<in> set xs" for x
    using 3 that by (auto simp: list_all_iff)
  have "parse False (at_start (ser (Array n (Some xs)) @ b) stk StType) =
      parse False (at_start (concat (map ser xs) @ b) (Array n None # stk) StType)"
    using parse_array_header [OF "3.prems"(2) n(2), of "concat (map ser xs) @ b"] by simp
  also have "\<dots> = parse False (at_start b (Array n (Some xs) # stk) StType)"
    unfolding n(1) using wf n(3)
    by (intro parse_first_item) (auto intro: "3.IH" wf_resp_completed)
  finally show ?case .
qed auto

lemma parse_finished:
  assumes "is_completed r"
  shows "parse False (at_start b [r] StType) =
    Some (Return ((at_start b [] StType)\<lparr>completed := [r]\<rparr>))"
  using assms
  by (subst parse.simps) (simp add: parse_step_def pop_completed_def at_start_def)

lemma at_start_new_parser: "feed_buf b new_parser = at_start b [] StType"
  by (simp add: feed_buf_def new_parser_def at_start_def)

lemma parse_serialized:
  assumes "wf_resp r"
  shows "parse False (at_start (ser r @ b) [] StType) =
    Some (Return ((at_start b [] StType)\<lparr>completed := [r]\<rparr>))"
  using parse_value [OF assms, of "[]"] parse_finished [OF wf_resp_completed [OF assms]]
  by (simp add: stable_def)

section \<open>Termination and absence of panics\<close>

text \<open>
  Between two turns the start of the token is not past the cursor, and inside a bulk string the
  cursor has not passed the end of the announced token.
\<close>

definition parser_inv :: "resp_parser \<Rightarrow> bool" where
  "parser_inv p \<longleftrightarrow> tmp_start p \<le> buf_cur p \<and>
     (case status p of
        StBulk n \<Rightarrow> buf_cur p - tmp_start p \<le> usize_add n 2
      | StRDB n \<Rightarrow> buf_cur p - tmp_start p \<le> usize_add n 0
      | _ \<Rightarrow> True)"

lemma parser_inv_new: "parser_inv new_parser"
  by (simp add: parser_inv_def new_parser_def)

lemma parser_inv_feed: "parser_inv p \<Longrightarrow> parser_inv (feed_buf d p)"
  by (simp add: parser_inv_def feed_buf_def split: parse_status.splits)

lemma parser_inv_pop [simp]: "parser_inv (pop_completed p) = parser_inv p"
  by (simp add: parser_inv_def pop_completed_def split: prod.splits parse_status.splits)

lemma pop_completed_sel [simp]:
  "buf (pop_completed p) = buf p" "buf_cur (pop_completed p) = buf_cur p"
  "tmp_start (pop_completed p) = tmp_start p" "status (pop_completed p) = status p"
  by (simp_all add: pop_completed_def split: prod.splits)

text \<open>Bytes not yet looked at, and whether the next turn may leave them all.\<close>

definition parse_measure :: "resp_parser \<Rightarrow> nat" where
  "parse_measure p = 2 * (length (buf p) - buf_cur p) +
     (case status p of StBulk _ \<Rightarrow> 1 | StRDB _ \<Rightarrow> 1 | StNone \<Rightarrow> 1 | _ \<Rightarrow> 0)"

lemma scan_type_bounds: "scan_type rdb s = (n, r) \<Longrightarrow> n \<le> length s \<and> (s \<noteq> [] \<longrightarrow> 0 < n)"
  by (induction s arbitrary: n) (auto split: option.splits prod.splits)

lemma scan_crlf_bounds: "scan_crlf s = (n, f) \<Longrightarrow> n \<le> length s \<and> (f \<longrightarrow> n + 2 \<le> length s)"
proof (induction s arbitrary: n rule: scan_crlf.induct)
  case (1 a b s)
  then show ?case by (fastforce split: if_splits prod.splits)
qed auto

lemma read_cursor_bounds:
  assumes "tmp_start p \<le> buf_cur p" and "buf_cur p - tmp_start p \<le> read_total n rdb"
  shows "buf_cur p \<le> read_cursor n rdb p"
    and "read_cursor n rdb p - tmp_start p \<le> read_total n rdb"
    and "usize_sub (read_cursor n rdb p) (tmp_start p) = read_cursor n rdb p - tmp_start p"
  using assms by (auto simp: read_cursor_def usize_sub_def Let_def)

lemma read_cursor_progress:
  assumes "tmp_start p \<le> buf_cur p" and "buf_cur p - tmp_start p \<le> read_total n rdb"
    and "buf_cur p < length (buf p)"
    and "\<not> (read_cursor n rdb p \<le> length (buf p) \<and> read_cursor n rdb p - tmp_start p = read_total n rdb)"
  shows "buf_cur p < read_cursor n rdb p"
  using assms by (auto simp: read_cursor_def usize_sub_def Let_def min_def split: if_splits)

lemma read_bytes_cases:
  assumes "tmp_start p \<le> buf_cur p" and "buf_cur p - tmp_start p \<le> read_total n rdb"
    and "buf_cur p < length (buf p)" and "read_bytes n rdb p = (r, p1)"
  obtains (more) "r = Ok None" "p1 = p\<lparr>buf_cur := read_cursor n rdb p\<rparr>"
      "buf_cur p < read_cursor n rdb p"
  | (whole) "r = rbind (read_token n rdb p1) (\<lambda>t. Ok (Some t))"
      "p1 = p\<lparr>buf_cur := read_cursor n rdb p\<rparr>"
      "read_cursor n rdb p \<le> length (buf p)" "read_cursor n rdb p = tmp_start p + read_total n rdb"
proof (cases "read_cursor n rdb p \<le> length (buf p) \<and> read_cursor n rdb p - tmp_start p = read_total n rdb")
  case True
  then show ?thesis
    using assms whole read_cursor_bounds [OF assms(1,2)]
    by (auto simp: read_bytes_def Let_def)
next
  case False
  then show ?thesis
    using assms(4) more read_cursor_progress [OF assms(1-3)] read_cursor_bounds(3) [OF assms(1,2)]
    by (auto simp: read_bytes_def Let_def)
qed

text \<open>One turn keeps the invariant and consumes.\<close>

lemma deliver_Continue:
  assumes "deliver out p = Continue p'" and "status p = StType"
  shows "parser_inv p' \<and> status p' = StType \<and> length (buf p') - buf_cur p' = length (buf p) - buf_cur p"
  using assms
  by (auto simp: deliver_def drain_till_buf_def parser_inv_def
      split: if_splits option.splits list.splits result.splits)

lemma new_line_cases:
  assumes "next_till_new_line p = (r, p1)" and "tmp_start p \<le> buf_cur p" and "buf_cur p \<le> length (buf p)"
  shows "r \<noteq> Panic" and "p1 = p\<lparr>buf_cur := buf_cur p1, tmp_start := tmp_start p1\<rparr>"
    and "tmp_start p1 \<le> buf_cur p1" and "buf_cur p \<le> buf_cur p1" and "buf_cur p1 \<le> length (buf p)"
    and "r = Ok (Some out) \<Longrightarrow> buf_cur p + 2 \<le> buf_cur p1 \<and> (\<exists>s. out = OutString s)"
proof -
  obtain n f where sc: "scan_crlf (drop (buf_cur p) (buf p)) = (n, f)" by fastforce
  note b = scan_crlf_bounds [OF sc]
  show "r \<noteq> Panic" and "p1 = p\<lparr>buf_cur := buf_cur p1, tmp_start := tmp_start p1\<rparr>"
    and "tmp_start p1 \<le> buf_cur p1" and "buf_cur p \<le> buf_cur p1" and "buf_cur p1 \<le> length (buf p)"
    and "r = Ok (Some out) \<Longrightarrow> buf_cur p + 2 \<le> buf_cur p1 \<and> (\<exists>s. out = OutString s)"
    using assms sc b
    by (cases f; auto simp: next_till_new_line_def slice_def Let_def split: if_splits)+
qed

lemma parse_type_Continue:
  assumes "parse_type rdb p = Continue p'" and "buf_cur p < length (buf p)" and "tmp_start p \<le> buf_cur p"
  shows "parser_inv p' \<and> parse_measure p' < 2 * (length (buf p) - buf_cur p)"
proof -
  obtain n r where sc: "scan_type rdb (drop (buf_cur p) (buf p)) = (n, r)" by fastforce
  with scan_type_bounds [OF sc] assms show ?thesis
    by (auto simp: parse_type_def next_till_type_def parser_inv_def parse_measure_def
        status_after_type_def split: option.splits resp_type.splits)
qed

lemma parse_header_Continue:
  assumes "parse_header p = Continue p'" and "buf_cur p < length (buf p)" and "tmp_start p \<le> buf_cur p"
    and "status p = StType"
  shows "parser_inv p' \<and> parse_measure p' < 2 * (length (buf p) - buf_cur p)"
proof -
  obtain r p1 where nl: "next_till_new_line p = (r, p1)" by fastforce
  then obtain out where out: "r = Ok (Some out)" using assms(1)
    by (auto simp: parse_header_def split: result.splits option.splits)
  note c = new_line_cases [OF nl assms(3) less_imp_le [OF assms(2)]]
  have p1: "buf p1 = buf p" "status p1 = status p"
    by (subst c(2), simp)+
  have fin: "buf_cur p + 2 \<le> buf_cur p1" "buf_cur p1 \<le> length (buf p1)" using c(5,6) out p1 by auto
  then show ?thesis
    using assms nl out p1
    by (auto simp: parse_header_def drain_till_buf_def parser_inv_def parse_measure_def Let_def
        status_after_header_def split: if_splits list.splits read_out.splits result.splits resp_type.splits)
qed

lemma parse_line_Continue:
  assumes "parse_line p = Continue p'" and "buf_cur p < length (buf p)" and "tmp_start p \<le> buf_cur p"
    and "status p = StType"
  shows "parser_inv p' \<and> parse_measure p' < 2 * (length (buf p) - buf_cur p)"
proof -
  obtain r p1 where nl: "next_till_new_line p = (r, p1)" by fastforce
  then obtain out where out: "r = Ok (Some out)" using assms(1)
    by (auto simp: parse_line_def split: result.splits option.splits)
  note c = new_line_cases [OF nl assms(3) less_imp_le [OF assms(2)]]
  have p1: "buf p1 = buf p" "status p1 = StType"
    using assms(4) by (subst c(2), simp)+
  have "deliver out p1 = Continue p'" using assms(1) nl out by (simp add: parse_line_def)
  from deliver_Continue [OF this p1(2)] c(5,6) out p1 assms(2) show ?thesis
    by (auto simp: parse_measure_def)
qed

lemma parse_token_Continue:
  assumes "parse_bulk n p = Continue p' \<and> rdb = False \<or> parse_rdb n p = Continue p' \<and> rdb = True"
    and "buf_cur p < length (buf p)" and "tmp_start p \<le> buf_cur p"
    and "buf_cur p - tmp_start p \<le> read_total n rdb" and "status p = StType"
  shows "parser_inv p' \<and> parse_measure p' < 2 * (length (buf p) - buf_cur p) + 1"
proof -
  obtain r p1 where rb: "read_bytes n rdb p = (r, p1)" by fastforce
  from assms(3,4,2) rb show ?thesis
  proof (cases rule: read_bytes_cases [consumes 4, case_names more whole])
    case more
    have st: "p' = p1\<lparr>status := (if rdb then StRDB n else StBulk n)\<rparr>"
      using assms(1) rb more(1) by (auto simp: parse_bulk_def parse_rdb_def)
    then show ?thesis
      using more read_cursor_bounds [OF assms(3,4)] assms(2,3)
      by (cases rdb) (auto simp: parser_inv_def parse_measure_def read_total_def)
  next
    case whole
    have p1: "buf p1 = buf p" "buf_cur p \<le> buf_cur p1" "buf_cur p1 \<le> length (buf p)"
      "status p1 = StType" "tmp_start p1 \<le> buf_cur p1"
      using whole read_cursor_bounds [OF assms(3,4)] assms(3,5) by auto
    show ?thesis
    proof (cases "read_token n rdb p1")
      case (Ok t)
      then have "deliver t p1 = Continue p'"
        using assms(1) rb whole(1) by (auto simp: parse_bulk_def parse_rdb_def)
      from deliver_Continue [OF this p1(4)] p1 assms(2) show ?thesis
        by (auto simp: parse_measure_def)
    next
      case (Err e)
      then have "p' = p1"
        using assms(1) rb whole(1) by (auto simp: parse_bulk_def parse_rdb_def)
      with p1 assms(2) show ?thesis by (auto simp: parse_measure_def parser_inv_def)
    next
      case Panic
      then show ?thesis
        using assms(1) rb whole(1) by (auto simp: parse_bulk_def parse_rdb_def)
    qed
  qed
qed

lemma parse_step_Continue:
  assumes "parse_step rdb p = Continue p'" and "parser_inv p"
  shows "parser_inv p'" and "parse_measure p' < parse_measure p"
proof -
  let ?q = "(pop_completed p)\<lparr>status := StType\<rparr>"
  have lt: "buf_cur p < length (buf p)"
    using assms(1) by (auto simp: parse_step_def Let_def split: if_splits)
  have le: "tmp_start p \<le> buf_cur p" using assms(2) by (simp add: parser_inv_def)
  have "parser_inv p' \<and> parse_measure p' < parse_measure p"
  proof (cases "status p")
    case (StBulk n)
    then have "parse_bulk n ?q = Continue p'"
      using assms(1) by (auto simp: parse_step_def Let_def split: if_splits)
    with StBulk lt le assms(2) show ?thesis
      using parse_token_Continue [of n ?q p' False]
      by (auto simp: parser_inv_def read_total_def parse_measure_def)
  next
    case (StRDB n)
    then have "parse_rdb n ?q = Continue p'"
      using assms(1) by (auto simp: parse_step_def Let_def split: if_splits)
    with StRDB lt le assms(2) show ?thesis
      using parse_token_Continue [of n ?q p' True]
      by (auto simp: parser_inv_def read_total_def parse_measure_def)
  qed (use assms(1) lt le parse_type_Continue [of rdb ?q p'] parse_header_Continue [of ?q p']
        parse_line_Continue [of ?q p'] in
      \<open>auto simp: parse_step_def Let_def parse_measure_def parser_inv_def split: if_splits\<close>)
  then show "parser_inv p'" and "parse_measure p' < parse_measure p" by auto
qed

lemma parse_returns: "parser_inv p \<Longrightarrow> \<exists>r. parse rdb p = Some r"
proof (induction "parse_measure p" arbitrary: p rule: less_induct)
  case less
  show ?case
  proof (cases "parse_step rdb p")
    case (Continue p')
    then have "\<exists>r. parse rdb p' = Some r"
      using parse_step_Continue [OF Continue less.prems] by (intro less.hyps)
    then show ?thesis by (simp add: parse_continue [OF Continue])
  qed (simp_all add: parse.simps [of rdb p])
qed

text \<open>What \<open>parse\<close> hands back satisfies the invariant, so the next call returns as well.\<close>

lemma parse_step_Return:
  assumes "parse_step rdb p = Return p'" and "parser_inv p"
  shows "parser_inv p'"
proof -
  let ?q = "(pop_completed p)\<lparr>status := StType\<rparr>"
  have le: "tmp_start p \<le> buf_cur p" using assms(2) by (simp add: parser_inv_def)
  show ?thesis
  proof (cases "completed (pop_completed p) \<noteq> [] \<or> length (buf p) \<le> buf_cur p \<or> buf p = []")
    case True
    with assms show ?thesis by (auto simp: parse_step_def Let_def split: if_splits)
  next
    case False
    obtain r p1 where nl: "next_till_new_line ?q = (r, p1)" by fastforce
    have "tmp_start p1 \<le> buf_cur p1"
      using new_line_cases(3) [OF nl] le False by simp
    with False assms(1) nl show ?thesis
      by (auto simp: parse_step_def Let_def parser_inv_def parse_type_def parse_header_def
          parse_line_def parse_bulk_def parse_rdb_def deliver_def
          split: if_splits parse_status.splits result.splits option.splits prod.splits
            list.splits read_out.splits)
  qed
qed

lemma parse_Return_inv: "parse rdb p = Some (Return p') \<Longrightarrow> parser_inv p \<Longrightarrow> parser_inv p'"
proof (induction "parse_measure p" arbitrary: p rule: less_induct)
  case less
  show ?case
  proof (cases "parse_step rdb p")
    case (Continue q)
    then show ?thesis
      using parse_step_Continue [OF Continue less.prems(2)] less parse_continue [OF Continue] by auto
  next
    case (Return q)
    with less.prems(1) have "q = p'" by (simp add: parse.simps [of rdb p])
    with parse_step_Return [OF Return less.prems(2)] show ?thesis by simp
  qed (use less.prems(1) in \<open>simp_all add: parse.simps [of rdb p]\<close>)
qed

text \<open>
  The only panic is a bulk string whose announced length plus its CR LF overflows \<open>usize\<close>:
  the sum wraps to 0 or 1, and the check of the line end indexes past the buffer.
\<close>

lemma set_value_no_panic [simp]: "set_value r out \<noteq> Panic"
  by (cases "(r, out)" rule: set_value.cases) auto

lemma parse_usize_no_panic [simp]: "parse_usize s \<noteq> Panic"
  by (simp add: parse_usize_def parse_unsigned_def)

lemma deliver_no_crash: "buf_cur p \<le> length (buf p) \<Longrightarrow> deliver out p \<noteq> Crash"
  by (auto simp: deliver_def drain_till_buf_def split: list.splits result.splits)

lemma read_token_no_panic:
  assumes "n + 2 < 2 ^ 64" and "length (buf p) < 2 ^ 63"
    and "buf_cur p = tmp_start p + read_total n rdb" and "buf_cur p \<le> length (buf p)"
  shows "read_token n rdb p \<noteq> Panic"
proof -
  have tot: "read_total n rdb = n + (if rdb then 0 else 2)"
    using assms(1) by (simp add: read_total_def usize_add_def wrap_usize_def)
  have small: "tmp_start p + n + 1 < 2 ^ 64"
    using assms(2-4) tot by auto
  have "usize_add (tmp_start p) n = tmp_start p + n"
    "usize_add (tmp_start p + n) 1 = tmp_start p + n + 1"
    using small by (simp_all add: usize_add_def wrap_usize_def)
  with assms tot show ?thesis
    by (cases rdb) (auto simp: read_token_def slice_def index_def usize_sub_def split: option.splits)
qed

lemma read_bytes_no_panic:
  assumes "read_bytes n rdb p = (r, p1)" and "tmp_start p \<le> buf_cur p"
    and "buf_cur p - tmp_start p \<le> read_total n rdb" and "buf_cur p < length (buf p)"
    and "n + 2 < 2 ^ 64" and "length (buf p) < 2 ^ 63"
  shows "r \<noteq> Panic" and "r = Ok (Some t) \<Longrightarrow> buf_cur p1 \<le> length (buf p1)"
proof -
  have "r \<noteq> Panic \<and> (r = Ok (Some t) \<longrightarrow> buf_cur p1 \<le> length (buf p1))"
    using assms(2,3,4,1)
  proof (cases rule: read_bytes_cases [consumes 4, case_names more whole])
    case whole
    then have "read_token n rdb p1 \<noteq> Panic"
      using assms(5,6) by (intro read_token_no_panic) auto
    with whole show ?thesis by (cases "read_token n rdb p1") auto
  qed simp
  then show "r \<noteq> Panic" and "r = Ok (Some t) \<Longrightarrow> buf_cur p1 \<le> length (buf p1)" by auto
qed

lemma parse_token_no_crash:
  assumes "tmp_start p \<le> buf_cur p" and "buf_cur p - tmp_start p \<le> read_total n rdb"
    and "buf_cur p < length (buf p)" and "n + 2 < 2 ^ 64" and "length (buf p) < 2 ^ 63"
  shows "\<not> rdb \<Longrightarrow> parse_bulk n p \<noteq> Crash" and "rdb \<Longrightarrow> parse_rdb n p \<noteq> Crash"
proof -
  obtain r p1 where rb: "read_bytes n rdb p = (r, p1)" by fastforce
  note ok = read_bytes_no_panic [OF rb assms]
  from ok(1) ok(2) [THEN deliver_no_crash] rb
  show "\<not> rdb \<Longrightarrow> parse_bulk n p \<noteq> Crash" and "rdb \<Longrightarrow> parse_rdb n p \<noteq> Crash"
    by (auto simp: parse_bulk_def parse_rdb_def split: result.splits option.splits)
qed

lemma parse_text_no_crash:
  assumes "tmp_start p \<le> buf_cur p" and "buf_cur p < length (buf p)"
  shows "parse_header p \<noteq> Crash" and "parse_line p \<noteq> Crash"
proof -
  obtain r p1 where nl: "next_till_new_line p = (r, p1)" by fastforce
  note c = new_line_cases [OF nl assms(1) less_imp_le [OF assms(2)]]
  have "buf p1 = buf p" by (subst c(2)) simp
  with c(1,5,6) nl deliver_no_crash [of p1]
  show "parse_header p \<noteq> Crash" and "parse_line p \<noteq> Crash"
    by (fastforce simp: parse_header_def parse_line_def drain_till_buf_def Let_def
        split: result.splits option.splits list.splits)+
qed

lemma parse_step_crash:
  assumes "parse_step rdb p = Crash" and "parser_inv p" and "length (buf p) < 2 ^ 63"
  shows "\<exists>n. 2 ^ 64 - 2 \<le> n \<and> (status p = StBulk n \<or> status p = StRDB n)"
proof -
  let ?q = "(pop_completed p)\<lparr>status := StType\<rparr>"
  have lt: "buf_cur p < length (buf p)" and le: "tmp_start p \<le> buf_cur p"
    using assms(1,2) by (auto simp: parse_step_def parser_inv_def Let_def split: if_splits)
  have step: "parse_step rdb p = (case status p of StType \<Rightarrow> parse_type rdb ?q | StHeader \<Rightarrow> parse_header ?q
      | StLine \<Rightarrow> parse_line ?q | StBulk n \<Rightarrow> parse_bulk n ?q | StRDB n \<Rightarrow> parse_rdb n ?q
      | StNone \<Rightarrow> Continue ?q)"
    using assms(1) by (auto simp: parse_step_def Let_def split: if_splits)
  show ?thesis
  proof (cases "status p")
    case (StBulk n)
    then have "\<not> n + 2 < 2 ^ 64"
      using parse_token_no_crash(1) [of ?q n False] step assms lt le
      by (auto simp: parser_inv_def read_total_def)
    with StBulk show ?thesis by auto
  next
    case (StRDB n)
    then have "\<not> n + 2 < 2 ^ 64"
      using parse_token_no_crash(2) [of ?q n True] step assms lt le
      by (auto simp: parser_inv_def read_total_def)
    with StRDB show ?thesis by auto
  next
    case StType
    with step assms(1) show ?thesis by (simp add: parse_type_def split: prod.splits option.splits)
  qed (use step assms(1) lt le parse_text_no_crash [of ?q] in auto)
qed

end
