(* ===== verification/Client.thy ===== *)
theory Client
  imports Handler RespParserCorrect
begin

text \<open>
  One connection (\<open>TcpClient\<close> of \<open>src/src/client.rs\<close>): reading a socket, running the commands
  that are complete, and the handshake of a replica with its master.

  What a socket does is input: a read yields bytes, no bytes (the peer has gone) or an I/O
  error. \<open>tc_stream\<close> is what becomes of the next writes, one number each: how many bytes the
  socket takes before it fails, all of them when there is no entry. The sockets of clients do
  not block, so a full buffer is such a failure. \<open>tc_sent\<close> is everything written so far. A method
  returns the connection, the handler they share, and \<open>Err\<close> when the connection is to be
  closed.
\<close>

section \<open>State\<close>

datatype handshake_state = HsPing | HsReplconf1 | HsReplconf2 | HsPsync | HsEstablished | HsNone

datatype repl_status = Master | Slave

record repl_state =
  rp_status :: "repl_status option"
  rp_port :: "nat option"
  rp_capa :: "string option"
  rp_id :: string
  rp_offset :: int

definition repl_state_new :: repl_state where
  "repl_state_new = \<lparr>rp_status = None, rp_port = None, rp_capa = None, rp_id = ''?'', rp_offset = - 1\<rparr>"

type_synonym tcp_stream = "nat list"

record tcp_client =
  tc_fd :: u64
  tc_parser :: resp_parser
  tc_hs :: handshake_state
  tc_repl :: repl_state
  tc_parse_rdb :: bool
  tc_sent :: bytes
  tc_stream :: tcp_stream

definition client_new :: "u64 \<Rightarrow> tcp_stream \<Rightarrow> tcp_client" where
  "client_new fd stream =
     \<lparr>tc_fd = fd, tc_parser = new_parser, tc_hs = HsNone, tc_repl = repl_state_new,
      tc_parse_rdb = False, tc_sent = [], tc_stream = stream\<rparr>"

definition buffer_size :: nat where
  "buffer_size = 4096"

type_synonym io = "(unit, unit) result"

definition write_all :: "bytes \<Rightarrow> tcp_client \<Rightarrow> tcp_client \<times> io" where
  "write_all b c =
     (case tc_stream c of
        [] \<Rightarrow> (c\<lparr>tc_sent := tc_sent c @ b\<rparr>, Ok ())
      | n # ns \<Rightarrow>
          (c\<lparr>tc_sent := tc_sent c @ take n b, tc_stream := ns\<rparr>, if n < length b then Err () else Ok ()))"

lemma write_all_ok: "tc_stream c = [] \<Longrightarrow> write_all b c = (c\<lparr>tc_sent := tc_sent c @ b\<rparr>, Ok ())"
  by (simp add: write_all_def)

lemma write_all_frame [simp]:
  "tc_fd (fst (write_all b c)) = tc_fd c" "tc_parser (fst (write_all b c)) = tc_parser c"
  "tc_hs (fst (write_all b c)) = tc_hs c" "tc_repl (fst (write_all b c)) = tc_repl c"
  "tc_parse_rdb (fst (write_all b c)) = tc_parse_rdb c"
  by (simp_all add: write_all_def split: list.split)

section \<open>Handshake with the master\<close>

definition get_replconf1 :: "cmd_handler \<Rightarrow> (bytes, bytes) result" where
  "get_replconf1 h =
     (case rbind (stats_of h) (\<lambda>s. ok_or (rs_port s) (InternalError ''Master's port is not set'')) of
        Ok port \<Rightarrow> Ok (ser (built 3 [bulk ''REPLCONF'', bulk ''listening-port'', bulk (show_nat port)]))
      | Err e \<Rightarrow> Err (into_error_bytes e)
      | Panic \<Rightarrow> Panic)"

definition get_replconf2 :: "bytes" where
  "get_replconf2 = ser (built 3 [bulk ''REPLCONF'', bulk ''capa'', bulk ''psync2''])"

definition get_psync :: "tcp_client \<Rightarrow> bytes" where
  "get_psync c =
     ser (built 3 [bulk ''PSYNC'', bulk (rp_id (tc_repl c)), bulk (show_int (rp_offset (tc_repl c)))])"

definition init_handshake :: "tcp_client \<Rightarrow> tcp_client" where
  "init_handshake c =
     fst (write_all (ser (built 1 [bulk ''PING'']))
       (c\<lparr>tc_repl := (tc_repl c)\<lparr>rp_status := Some Master\<rparr>, tc_hs := HsPing\<rparr>))"

definition is_fullresync :: "cmd \<Rightarrow> bool" where
  "is_fullresync cd = (case cd of CFULLRESYNC _ _ \<Rightarrow> True | _ \<Rightarrow> False)"

definition is_rdb :: "cmd \<Rightarrow> bool" where
  "is_rdb cd = (case cd of CRDB _ \<Rightarrow> True | _ \<Rightarrow> False)"

definition set_started :: "cmd_handler \<Rightarrow> cmd_handler" where
  "set_started h =
     h\<lparr>h_states := (h_states h)\<lparr>host_stats := map_option start_bytes_count (host_stats (h_states h))\<rparr>\<rparr>"

definition handshake_to_master ::
  "externals \<Rightarrow> cmd \<Rightarrow> bytes \<Rightarrow> tcp_client \<Rightarrow> cmd_handler \<Rightarrow>
   (tcp_client \<times> cmd_handler) \<times> (bytes, bytes) result" where
  "handshake_to_master X cd b c h =
     (if tc_hs c = HsPing \<and> cd = CPONG then ((c\<lparr>tc_hs := HsReplconf1\<rparr>, h), get_replconf1 h)
      else if tc_hs c = HsReplconf1 \<and> cd = COK then ((c\<lparr>tc_hs := HsReplconf2\<rparr>, h), Ok get_replconf2)
      else if tc_hs c = HsReplconf2 \<and> cd = COK then ((c\<lparr>tc_hs := HsPsync\<rparr>, h), Ok (get_psync c))
      else if tc_hs c = HsPsync \<and> is_fullresync cd then
        ((c\<lparr>tc_hs := HsEstablished, tc_parse_rdb := True\<rparr>,
          h\<lparr>h_table := set_master (tc_fd c) (h_table h)\<rparr>), Ok [])
      else if tc_hs c = HsEstablished \<and> is_rdb cd then
        ((c\<lparr>tc_parse_rdb := False\<rparr>, set_started h),
         (case stats_of h of Ok _ \<Rightarrow> Ok [] | Err e \<Rightarrow> Err (into_error_bytes e) | Panic \<Rightarrow> Panic))
      else (case handle X (Ok cd) b (tc_fd c) True h of (h1, r) \<Rightarrow> ((c, h1), r)))"

section \<open>Reading the socket\<close>

definition noauth_reply :: bytes where
  "noauth_reply = ser (RError (Some ''NOAUTH Authentication required.''))"

text \<open>Where a command goes, and the bytes that come back.\<close>

definition respond ::
  "externals \<Rightarrow> cmd cres \<Rightarrow> bytes \<Rightarrow> tcp_client \<Rightarrow> cmd_handler \<Rightarrow>
   (tcp_client \<times> cmd_handler) \<times> (bytes, bytes) result" where
  "respond X cr b c h =
     (case cr of
        Ok cd \<Rightarrow>
          (if \<not> is_auth_cmd cd \<and> \<not> check_auth (tc_fd c) (h_auth h) then ((c, h), Ok noauth_reply)
           else if rp_status (tc_repl c) = Some Master then handshake_to_master X cd b c h
           else (case handle X (Ok cd) b (tc_fd c) True h of (h1, r) \<Rightarrow> ((c, h1), r)))
      | _ \<Rightarrow> (case handle X cr b (tc_fd c) True h of (h1, r) \<Rightarrow> ((c, h1), r)))"

text \<open>One completed value: serialised again for propagation, built into a command, answered.\<close>

definition serve_value ::
  "externals \<Rightarrow> resp_type \<Rightarrow> tcp_client \<Rightarrow> cmd_handler \<Rightarrow> (tcp_client \<times> cmd_handler) \<times> io" where
  "serve_value X t c h =
     (case serialize t of
        Ok b \<Rightarrow>
          (case respond X (from_resp t) b c h of
             ((c1, h1), Ok v) \<Rightarrow> (case write_all v c1 of (c2, r) \<Rightarrow> ((c2, h1), r))
           | ((c1, h1), Err v) \<Rightarrow> (case write_all v c1 of (c2, r) \<Rightarrow> ((c2, h1), r))
           | (ch, Panic) \<Rightarrow> (ch, Panic))
      | _ \<Rightarrow> ((c, h), Panic))"

partial_function (option) serve_loop ::
  "externals \<Rightarrow> tcp_client \<Rightarrow> cmd_handler \<Rightarrow> ((tcp_client \<times> cmd_handler) \<times> io) option" where
  "serve_loop X c h =
     (case parse (tc_parse_rdb c) (tc_parser c) of
        None \<Rightarrow> None
      | Some (Return p) \<Rightarrow>
          (case get_completed p of
             (None, p1) \<Rightarrow> Some ((c\<lparr>tc_parser := p1\<rparr>, h), Ok ())
           | (Some t, p1) \<Rightarrow>
               (case serve_value X t (c\<lparr>tc_parser := p1\<rparr>) h of
                  ((c1, h1), Ok _) \<Rightarrow> serve_loop X c1 h1
                | (ch, r) \<Rightarrow> Some (ch, r)))
      | Some (Fail _ p) \<Rightarrow> Some ((c\<lparr>tc_parser := p\<rparr>, h), Err ())
      | Some _ \<Rightarrow> Some ((c, h), Panic))"

text \<open>
  The argument is what \<open>read\<close> returns: nothing (an error), no bytes (the other side has closed) or
  some bytes. The code's buffer takes at most \<open>buffer_size\<close> of them; the definition is the same for
  any number, and theorems in which the size of a read matters say so.
\<close>

definition read_socket ::
  "externals \<Rightarrow> bytes option \<Rightarrow> tcp_client \<Rightarrow> cmd_handler \<Rightarrow> ((tcp_client \<times> cmd_handler) \<times> io) option" where
  "read_socket X input c h =
     (case input of
        None \<Rightarrow> Some ((c, h), Err ())
      | Some [] \<Rightarrow> Some ((c, h), Err ())
      | Some d \<Rightarrow> serve_loop X (c\<lparr>tc_parser := feed_buf d (tc_parser c)\<rparr>) h)"

section \<open>The loop ends\<close>

text \<open>
  What is left to do: two for every byte the parser has not seen, one for the value under
  construction, one for every value that is complete.
\<close>

definition parser_work :: "resp_parser \<Rightarrow> nat" where
  "parser_work p = 2 * parse_measure p + (if stack p = [] then 0 else 1) + length (completed p)"

lemma pop_loop_work:
  "pop_loop s c = (s', c') \<Longrightarrow>
   (if s' = [] then 0 else 1) + length c' \<le> (if s = [] then 0 else 1) + length c"
proof (induction s c arbitrary: s' c' rule: pop_loop.induct)
  case (2 tp s acc)
  show ?case
  proof (cases "is_completed tp")
    case True
    show ?thesis
    proof (cases s)
      case (Cons tp' s1)
      have "pop_loop (add_item tp' tp # s1) acc = (s', c')" using 2(2) True Cons by simp
      from 2(1) [OF True Cons this] show ?thesis by simp
    qed (use 2(2) True in auto)
  qed (use 2(2) in auto)
qed simp

lemma pop_completed_work: "parser_work (pop_completed p) \<le> parser_work p"
proof -
  obtain s c where pl: "pop_loop (stack p) (completed p) = (s, c)" by fastforce
  show ?thesis
    using pop_loop_work [OF pl]
    by (simp add: parser_work_def parse_measure_def pop_completed_def pl split: if_splits)
qed

text \<open>The reads leave the stack and the completed values alone.\<close>

lemma read_frame:
  "next_till_new_line p = (r, p1) \<Longrightarrow> completed p1 = completed p \<and> stack p1 = stack p"
  "next_till_type rdb p = (t, p1) \<Longrightarrow> completed p1 = completed p \<and> stack p1 = stack p"
  "read_bytes n rdb p = (r, p1) \<Longrightarrow> completed p1 = completed p \<and> stack p1 = stack p"
  by (auto simp: next_till_new_line_def next_till_type_def read_bytes_def Let_def
      split: if_splits prod.splits bool.splits option.splits)

lemma deliver_completed: "deliver out p = Continue p' \<Longrightarrow> completed p' = completed p"
  by (auto simp: deliver_def drain_till_buf_def split: if_splits list.splits result.splits)

lemma step_completed:
  assumes "parse_step rdb p = Continue p'"
  shows "completed p' = []"
proof -
  let ?q = "(pop_completed p)\<lparr>status := StType\<rparr>"
  have e: "completed ?q = []" using assms by (auto simp: parse_step_def Let_def split: if_splits)
  have "parse_header ?q = Continue p' \<Longrightarrow> completed p' = []"
    using e by (auto simp: parse_header_def drain_till_buf_def Let_def dest!: read_frame(1)
        split: prod.splits result.splits option.splits if_splits list.splits read_out.splits)
  moreover have "parse_line ?q = Continue p' \<Longrightarrow> completed p' = []"
    using e by (auto simp: parse_line_def dest!: read_frame(1) deliver_completed
        split: prod.splits result.splits option.splits)
  moreover have "parse_type rdb ?q = Continue p' \<Longrightarrow> completed p' = []"
    using e by (auto simp: parse_type_def dest!: read_frame(2) split: prod.splits option.splits)
  moreover have "parse_bulk n ?q = Continue p' \<Longrightarrow> completed p' = []" for n
    using e by (auto simp: parse_bulk_def dest!: read_frame(3) deliver_completed
        split: prod.splits result.splits option.splits)
  moreover have "parse_rdb n ?q = Continue p' \<Longrightarrow> completed p' = []" for n
    using e by (auto simp: parse_rdb_def dest!: read_frame(3) deliver_completed
        split: prod.splits result.splits option.splits)
  ultimately show ?thesis
    using assms e by (auto simp: parse_step_def Let_def split: if_splits parse_status.splits)
qed

lemma step_work:
  assumes "parse_step rdb p = Continue p'" and "parser_inv p"
  shows "parser_work p' < parser_work p"
  using parse_step_Continue(2) [OF assms] step_completed [OF assms(1)]
  by (simp add: parser_work_def)

lemma step_return_work:
  assumes "parse_step rdb p = Return p'" and "parser_inv p"
  shows "parser_work p' \<le> parser_work p"
proof -
  let ?q = "(pop_completed p)\<lparr>status := StType\<rparr>"
  have le: "tmp_start p \<le> buf_cur p" using assms(2) by (simp add: parser_inv_def)
  show ?thesis
  proof (cases "completed (pop_completed p) \<noteq> [] \<or> buf p = [] \<or> length (buf p) \<le> buf_cur p")
    case True
    with assms(1) have "p' = pop_completed p" by (auto simp: parse_step_def Let_def split: if_splits)
    then show ?thesis using pop_completed_work by simp
  next
    case False
    obtain r p1 where nl: "next_till_new_line ?q = (r, p1)" by fastforce
    note c = new_line_cases [OF nl]
    have p1: "p1 = ?q\<lparr>buf_cur := buf_cur p1, tmp_start := tmp_start p1\<rparr>" "buf_cur p \<le> buf_cur p1"
      using c(2,4) le False by simp_all
    have "p' = p1\<lparr>status := StHeader\<rparr> \<or> p' = p1\<lparr>status := StLine\<rparr>"
      using False assms(1) nl
      by (auto simp: parse_step_def Let_def parse_type_def parse_header_def parse_line_def parse_bulk_def
          parse_rdb_def deliver_def
          split: if_splits parse_status.splits result.splits option.splits prod.splits
            list.splits read_out.splits)
    moreover have "buf p1 = buf p" "stack p1 = stack (pop_completed p)" "completed p1 = completed (pop_completed p)"
      by (subst p1(1); simp)+
    ultimately have "parser_work p' \<le> parser_work (pop_completed p)"
      using p1(2) by (auto simp: parser_work_def parse_measure_def)
    with pop_completed_work [of p] show ?thesis by simp
  qed
qed

lemma parse_work:
  "parse rdb p = Some (Return p') \<Longrightarrow> parser_inv p \<Longrightarrow> parser_work p' \<le> parser_work p"
proof (induction "parse_measure p" arbitrary: p rule: less_induct)
  case less
  show ?case
  proof (cases "parse_step rdb p")
    case (Continue q)
    note st = parse_step_Continue [OF Continue less.prems(2)]
    have "parser_work p' \<le> parser_work q"
      by (rule less.hyps [OF st(2) _ st(1)]) (use less.prems(1) parse_continue [OF Continue] in simp)
    with step_work [OF Continue less.prems(2)] show ?thesis by simp
  next
    case (Return q)
    with less.prems(1) have "q = p'" by (simp add: parse.simps [of rdb p])
    with step_return_work [OF Return less.prems(2)] show ?thesis by simp
  qed (use less.prems(1) in \<open>simp_all add: parse.simps [of rdb p]\<close>)
qed

lemma get_completed_work:
  "get_completed p = (Some t, p') \<Longrightarrow> parser_work p' < parser_work p"
  by (auto simp: get_completed_def parser_work_def parse_measure_def split: list.splits)

lemma get_completed_inv: "get_completed p = (r, p') \<Longrightarrow> parser_inv p' = parser_inv p"
  by (auto simp: get_completed_def parser_inv_def split: list.splits parse_status.splits)

lemma handshake_parser: "tc_parser (fst (fst (handshake_to_master X cd b c h))) = tc_parser c"
  by (simp add: handshake_to_master_def case_prod_beta)

lemma serve_value_parser: "serve_value X t c h = ((c1, h1), r) \<Longrightarrow> tc_parser c1 = tc_parser c"
proof -
  have r: "tc_parser (fst (fst (respond X cr b c h))) = tc_parser c" for cr b
    by (simp add: respond_def handshake_parser case_prod_beta split: result.split)
  have "tc_parser (fst (fst (serve_value X t c h))) = tc_parser c"
    by (simp add: serve_value_def case_prod_beta r split: result.split)
  then show "serve_value X t c h = ((c1, h1), r) \<Longrightarrow> tc_parser c1 = tc_parser c" by simp
qed

lemma serve_loop_returns: "parser_inv (tc_parser c) \<Longrightarrow> \<exists>r. serve_loop X c h = Some r"
proof (induction "parser_work (tc_parser c)" arbitrary: c h rule: less_induct)
  case less
  obtain o1 where p: "parse (tc_parse_rdb c) (tc_parser c) = Some o1"
    using parse_returns [OF less.prems] by blast
  show ?case
  proof (cases o1)
    case (Return q)
    with p have ret: "parse (tc_parse_rdb c) (tc_parser c) = Some (Return q)" by simp
    obtain t q1 where g: "get_completed q = (t, q1)" by fastforce
    show ?thesis
    proof (cases t)
      case None
      with ret g show ?thesis by (subst serve_loop.simps) simp
    next
      case (Some v)
      obtain c1 h1 r where sv: "serve_value X v (c\<lparr>tc_parser := q1\<rparr>) h = ((c1, h1), r)"
        by (metis surj_pair)
      have "tc_parser c1 = q1" using serve_value_parser [OF sv] by simp
      moreover have "parser_work q1 < parser_work (tc_parser c)"
        using get_completed_work g Some parse_work [OF ret less.prems] by fastforce
      moreover have "parser_inv q1"
        using get_completed_inv [OF g] parse_Return_inv [OF ret less.prems] by simp
      ultimately have "\<exists>r. serve_loop X c1 h1 = Some r" using less.hyps [of c1 h1] by simp
      with ret g Some sv show ?thesis by (subst serve_loop.simps) (auto split: result.split)
    qed
  qed (use p in \<open>subst serve_loop.simps, simp\<close>)+
qed

lemma read_socket_returns: "parser_inv (tc_parser c) \<Longrightarrow> \<exists>r. read_socket X input c h = Some r"
  using serve_loop_returns [of "c\<lparr>tc_parser := feed_buf d (tc_parser c)\<rparr>" X h for d]
  by (auto simp: read_socket_def parser_inv_feed split: option.split list.split)

end
