(* ===== verification/Rdb.thy ===== *)
theory Rdb
  imports Store
begin

text \<open>
  The RDB reader of \<open>src/src/rdb.rs\<close>. A reader is the list of the bytes that are left;
  every parser returns its value and the rest. \<open>read_exact\<close> past the end is an error, which
  the main loop turns into a panic with \<open>expect\<close> and the parsers hand on with \<open>?\<close>.
\<close>

section \<open>Bytes and numbers\<close>

fun le_val :: "bytes \<Rightarrow> nat" where
  "le_val [] = 0"
| "le_val (b # bs) = of_char b + 256 * le_val bs"

definition be_val :: "bytes \<Rightarrow> nat" where
  "be_val bs = le_val (rev bs)"

text \<open>Two's complement on \<open>k\<close> bits.\<close>

definition signed_val :: "nat \<Rightarrow> nat \<Rightarrow> int" where
  "signed_val k n = (if n < 2 ^ (k - 1) then int n else int n - 2 ^ k)"

definition read_exact :: "nat \<Rightarrow> bytes \<Rightarrow> (bytes \<times> bytes) cres" where
  "read_exact n r = (if n \<le> length r then Ok (take n r, drop n r) else Err FileReadingError)"

definition read_byte :: "bytes \<Rightarrow> (nat \<times> bytes) cres" where
  "read_byte r = (case r of [] \<Rightarrow> Err FileReadingError | b # r' \<Rightarrow> Ok (of_char b, r'))"

section \<open>Lengths, strings and deadlines\<close>

definition parse_length :: "bytes \<Rightarrow> (nat \<times> bytes) cres" where
  "parse_length r =
     rbind (read_byte r) (\<lambda>(b, r).
       if b < 0x40 then Ok (b, r)
       else if b < 0x80 then rbind (read_byte r) (\<lambda>(b1, r). Ok ((b mod 0x40) * 256 + b1, r))
       else if b < 0xC0 then rbind (read_exact 4 r) (\<lambda>(bs, r). Ok (be_val bs, r))
       else Err RDBParsingError)"

definition parse_string :: "bytes \<Rightarrow> (string \<times> bytes) cres" where
  "parse_string r =
     rbind (read_byte r) (\<lambda>(b, r).
       if b < 0x40 then rbind (read_exact b r) (\<lambda>(s, r). rbind (from_utf8 s) (\<lambda>s. Ok (s, r)))
       else if b = 0xC0 then rbind (read_byte r) (\<lambda>(n, r). Ok (show_nat n, r))
       else if b = 0xC1 then rbind (read_exact 2 r) (\<lambda>(bs, r). Ok (show_int (signed_val 16 (le_val bs)), r))
       else if b = 0xC2 then rbind (read_exact 4 r) (\<lambda>(bs, r). Ok (show_int (signed_val 32 (le_val bs)), r))
       else Err RDBParsingError)"

definition parse_exp_ms :: "bytes \<Rightarrow> (u64 \<times> bytes) cres" where
  "parse_exp_ms r = rbind (read_exact 8 r) (\<lambda>(bs, r). Ok (of_nat (le_val bs), r))"

definition parse_exp_s :: "bytes \<Rightarrow> (u64 \<times> bytes) cres" where
  "parse_exp_s r = rbind (read_exact 4 r) (\<lambda>(bs, r). Ok (of_nat (le_val bs), r))"

definition parse_pair :: "bytes \<Rightarrow> ((string \<times> string) \<times> bytes) cres" where
  "parse_pair r = rbind (parse_string r) (\<lambda>(k, r). rbind (parse_string r) (\<lambda>(v, r). Ok ((k, v), r)))"

definition parse_type_string :: "bytes \<Rightarrow> ((string \<times> string) \<times> bytes) cres" where
  "parse_type_string r =
     rbind (read_byte r) (\<lambda>(b, r). if b = 0 then parse_pair r else Err RDBParsingError)"

section \<open>Entries\<close>

text \<open>
  What follows an opcode: nothing to store, or a key with its item. Any opcode the source does
  not name is taken for the type byte of a string.
\<close>

definition rdb_entry :: "nat \<Rightarrow> bytes \<Rightarrow> ((string \<times> store_item) option \<times> bytes) cres" where
  "rdb_entry op r =
     (if op = 0xFA then rbind (parse_pair r) (\<lambda>(_, r). Ok (None, r))
      else if op = 0xFE then rbind (parse_length r) (\<lambda>(_, r). Ok (None, r))
      else if op = 0xFB then
        rbind (parse_length r) (\<lambda>(_, r). rbind (parse_length r) (\<lambda>(_, r). Ok (None, r)))
      else if op = 0xFC then
        rbind (parse_exp_ms r) (\<lambda>(e, r). rbind (parse_type_string r) (\<lambda>((k, v), r).
          Ok (Some (k, item (VStr v) (Some e)), r)))
      else if op = 0xFD then
        rbind (parse_exp_s r) (\<lambda>(e, r). rbind (parse_type_string r) (\<lambda>((k, v), r).
          Ok (Some (k, item (VStr v) (Some e)), r)))
      else rbind (parse_pair r) (\<lambda>((k, v), r). Ok (Some (k, item (VStr v) None), r)))"

lemma shorter:
  "read_byte r = Ok (x, r') \<Longrightarrow> length r' < length r"
  "read_exact n r = Ok (bs, r') \<Longrightarrow> length r' \<le> length r"
  by (auto simp: read_byte_def read_exact_def split: list.splits if_splits)

lemma parse_length_shorter: "parse_length r = Ok (x, r') \<Longrightarrow> length r' \<le> length r"
  by (fastforce simp: parse_length_def rbind_Ok_iff split: if_splits dest: shorter)

lemma parse_string_shorter: "parse_string r = Ok (x, r') \<Longrightarrow> length r' \<le> length r"
  by (fastforce simp: parse_string_def rbind_Ok_iff split: if_splits dest: shorter)

lemma parse_pair_shorter: "parse_pair r = Ok (x, r') \<Longrightarrow> length r' \<le> length r"
  by (fastforce simp: parse_pair_def rbind_Ok_iff dest: parse_string_shorter)

lemma parse_type_string_shorter: "parse_type_string r = Ok (x, r') \<Longrightarrow> length r' \<le> length r"
  by (fastforce simp: parse_type_string_def rbind_Ok_iff split: if_splits dest: shorter parse_pair_shorter)

lemma parse_exp_shorter:
  "parse_exp_ms r = Ok (x, r') \<Longrightarrow> length r' \<le> length r" "parse_exp_s r = Ok (x, r') \<Longrightarrow> length r' \<le> length r"
  by (auto simp: parse_exp_ms_def parse_exp_s_def rbind_Ok_iff dest: shorter)

lemma rdb_entry_shorter: "rdb_entry op r = Ok (x, r') \<Longrightarrow> length r' \<le> length r"
  by (fastforce simp: rdb_entry_def rbind_Ok_iff split: if_splits
      dest: parse_pair_shorter parse_length_shorter parse_type_string_shorter parse_exp_shorter)

function rdb_loop :: "bytes \<Rightarrow> store \<Rightarrow> store cres" where
  "rdb_loop [] d = Panic"
| "rdb_loop (op # r) d =
     (if of_char op = (0xFF :: nat) then Ok d
      else rbind (rdb_entry (of_char op) r) (\<lambda>(e, r').
        rdb_loop r' (case e of Some (k, i) \<Rightarrow> hm_insert k i d | None \<Rightarrow> d)))"
  by pat_completeness auto
termination
  by (relation "measure (\<lambda>(r, d). length r)") (auto dest!: rdb_entry_shorter)

text \<open>The magic string and the version are read and not looked at.\<close>

definition rdb_read :: "bytes \<Rightarrow> store cres" where
  "rdb_read b =
     (if length b < 5 + 4 then Panic else rdb_loop (drop (5 + 4) b) [])"

section \<open>Reading back what was written\<close>

fun le_bytes :: "nat \<Rightarrow> nat \<Rightarrow> bytes" where
  "le_bytes 0 n = []"
| "le_bytes (Suc k) n = char_of n # le_bytes k (n div 256)"

lemma length_le_bytes [simp]: "length (le_bytes k n) = k"
  by (induction k arbitrary: n) auto

lemma le_val_bytes: "le_val (le_bytes k n) = n mod 256 ^ k"
proof (induction k arbitrary: n)
  case (Suc k)
  have "n mod 256 ^ Suc k = n mod 256 + 256 * (n div 256 mod 256 ^ k)"
    by (simp add: mod_mult2_eq)
  with Suc show ?case by simp
qed simp

definition rdb_string :: "string \<Rightarrow> bytes" where
  "rdb_string s = char_of (length s) # s"

definition rdb_item :: "string \<times> string \<times> u64 option \<Rightarrow> bytes" where
  "rdb_item e =
     (case e of (k, v, None) \<Rightarrow> CHR 0x00 # rdb_string k @ rdb_string v
      | (k, v, Some t) \<Rightarrow> CHR 0xFC # le_bytes 8 (unat t) @ CHR 0x00 # rdb_string k @ rdb_string v)"

definition short_text :: "string \<Rightarrow> bool" where
  "short_text s \<longleftrightarrow> length s < 64 \<and> utf8_valid s"

lemma parse_rdb_string: "short_text s \<Longrightarrow> parse_string (rdb_string s @ r) = Ok (s, r)"
  by (simp add: short_text_def parse_string_def rdb_string_def read_byte_def read_exact_def from_utf8_def)

lemma parse_rdb_pair:
  "short_text k \<Longrightarrow> short_text v \<Longrightarrow> parse_pair (rdb_string k @ rdb_string v @ r) = Ok ((k, v), r)"
  by (simp add: parse_pair_def parse_rdb_string)

lemma rdb_loop_item:
  assumes "short_text k" and "short_text v"
  shows "rdb_loop (rdb_item (k, v, t) @ r) d = rdb_loop r (hm_insert k (item (VStr v) t) d)"
proof (cases t)
  case None
  with assms show ?thesis by (simp add: rdb_item_def rdb_entry_def parse_rdb_pair)
next
  case (Some e)
  have "unat e < 2 ^ LENGTH(64)" by (rule unsigned_less)
  then have "parse_exp_ms (le_bytes 8 (unat e) @ q) = Ok (e, q)" for q
    by (simp add: parse_exp_ms_def read_exact_def le_val_bytes)
  with assms Some show ?thesis
    by (simp add: rdb_item_def rdb_entry_def parse_type_string_def read_byte_def parse_rdb_pair)
qed

definition rdb_insert :: "string \<times> string \<times> u64 option \<Rightarrow> store \<Rightarrow> store" where
  "rdb_insert e d = (case e of (k, v, t) \<Rightarrow> hm_insert k (item (VStr v) t) d)"

lemma rdb_loop_items:
  assumes "\<And>k v t. (k, v, t) \<in> set es \<Longrightarrow> short_text k \<and> short_text v"
  shows "rdb_loop (concat (map rdb_item es) @ r) d =
    rdb_loop r (fold rdb_insert es d)"
  using assms
proof (induction es arbitrary: d)
  case (Cons e es)
  obtain k v t where e: "e = (k, v, t)" by (cases e)
  with Cons.prems have "short_text k" "short_text v" by auto
  from rdb_loop_item [OF this, of t _ d] have
    "rdb_loop (concat (map rdb_item (e # es)) @ r) d = rdb_loop (concat (map rdb_item es) @ r) (rdb_insert e d)"
    by (simp add: rdb_insert_def e)
  also have "\<dots> = rdb_loop r (fold rdb_insert es (rdb_insert e d))"
    by (rule Cons.IH) (use Cons.prems in auto)
  finally show ?case by simp
qed simp

lemma rdb_read_items:
  assumes "\<And>k v t. (k, v, t) \<in> set es \<Longrightarrow> short_text k \<and> short_text v" and "length hd9 = 9"
  shows "rdb_read (hd9 @ concat (map rdb_item es) @ [CHR 0xFF] @ r) =
    Ok (fold rdb_insert es [])"
  using rdb_loop_items [OF assms(1), where r = "CHR 0xFF # r" and d = "[]"] assms(2) by (simp add: rdb_read_def)

text \<open>A string of 64 bytes or more is not read: the whole file is rejected.\<close>

lemma rdb_long_string:
  assumes "0x40 \<le> (of_char b :: nat)" and "(of_char b :: nat) < 0xC0"
  shows "rdb_loop (CHR 0x00 # b # r) d = Err RDBParsingError"
  using assms by (simp add: rdb_entry_def parse_pair_def parse_string_def read_byte_def)

text \<open>Whatever a file holds, what is loaded from it is a well-formed store.\<close>

lemma rdb_loop_store: "rdb_loop r d = Ok d' \<Longrightarrow> store_inv d \<Longrightarrow> store_inv d'"
proof (induction r d rule: rdb_loop.induct)
  case (2 op r d)
  show ?case
  proof (cases "of_char op = (0xFF :: nat)")
    case False
    with "2.prems" obtain e r' where
      e: "rdb_entry (of_char op) r = Ok (e, r')" and
      l: "rdb_loop r' (case e of Some (k, i) \<Rightarrow> hm_insert k i d | None \<Rightarrow> d) = Ok d'"
      by (auto simp: rbind_Ok_iff)
    have "\<exists>v t. i = item (VStr v) t" if "e = Some (k, i)" for k i
      using e that by (auto simp: rdb_entry_def rbind_Ok_iff split: if_splits prod.splits)
    then have "store_inv (case e of Some (k, i) \<Rightarrow> hm_insert k i d | None \<Rightarrow> d)"
      using "2.prems"(2) by (fastforce split: option.splits intro: store_inv_insert)
    with "2.IH" [OF False e refl] l show ?thesis by blast
  qed (use 2 in simp)
qed simp

end
