(* ===== verification/AofReplay.thy ===== *)
theory AofReplay
  imports Client Rdb
begin

text \<open>
  Start-up from files: the append-only directory of \<open>src/src/aof.rs\<close> (\<open>init_sequence\<close> and
  what it calls) and the replay of the log through the command handler.

  The file system is a map from paths to contents and a set of directories; paths are the
  strings the code formats. Opening, creating and writing a file that exists in the model
  succeed. \<open>None\<close> is a loop that does not end, as in theory \<open>Client\<close>.
\<close>

section \<open>Files\<close>

record file_system =
  fs_files :: "(string, bytes) hashmap"
  fs_dirs :: "string hashset"

definition path_exists :: "string \<Rightarrow> file_system \<Rightarrow> bool" where
  "path_exists p fs \<longleftrightarrow> hm_contains (fs_files fs) p \<or> p \<in> set (fs_dirs fs)"

text \<open>\<open>create_dir_all\<close>: the path and every prefix of it that ends before a slash.\<close>

definition ancestors :: "string \<Rightarrow> string list" where
  "ancestors p = map (\<lambda>i. take i p) (filter (\<lambda>i. 0 < i \<and> p ! i = CHR ''/'') [0..<length p]) @ [p]"

definition create_dir_all :: "string \<Rightarrow> file_system \<Rightarrow> file_system cres" where
  "create_dir_all p fs =
     (if list_ex (hm_contains (fs_files fs)) (ancestors p) then Panic
      else Ok (fs\<lparr>fs_dirs := fold hs_insert (ancestors p) (fs_dirs fs)\<rparr>))"

definition entry_name :: "string \<Rightarrow> string \<Rightarrow> string option" where
  "entry_name d p =
     (let pre = d @ ''/''; n = drop (length pre) p in
      if take (length pre) p = pre \<and> n \<noteq> [] \<and> CHR ''/'' \<notin> set n then Some n else None)"

definition read_dir :: "string \<Rightarrow> file_system \<Rightarrow> string list" where
  "read_dir d fs = List.map_filter (entry_name d) (map fst (fs_files fs) @ fs_dirs fs)"

section \<open>The files of the log\<close>

definition append_dir :: "configs \<Rightarrow> string cres" where
  "append_dir cf = rbind (unwrap (cf_path cf)) (\<lambda>p. Ok (p @ ''/'' @ cf_appenddirname cf))"

definition create_dirs :: "configs \<Rightarrow> file_system \<Rightarrow> file_system cres" where
  "create_dirs cf fs =
     (if \<not> cf_appendonly cf then Ok fs
      else
        rbind (case cf_path cf of Some p \<Rightarrow> create_dir_all p fs | None \<Rightarrow> Ok fs) (\<lambda>fs1.
          if cf_appenddirname cf = [] then Ok fs1
          else create_dir_all
            (case cf_path cf of Some p \<Rightarrow> p @ ''/'' @ cf_appenddirname cf | None \<Rightarrow> cf_appenddirname cf) fs1))"

text \<open>The third part of every file name, between dots; a name with fewer parts panics.\<close>

definition name_id :: "string \<Rightarrow> u64 option cres" where
  "name_id n =
     (if \<not> utf8_valid n then Panic
      else case split_on (CHR ''.'') n of
        _ # _ # x # _ \<Rightarrow> Ok (case parse_u64 x of Ok i \<Rightarrow> Some i | _ \<Rightarrow> None)
      | _ \<Rightarrow> Panic)"

definition get_latest_aof_id :: "configs \<Rightarrow> file_system \<Rightarrow> u64 option cres" where
  "get_latest_aof_id cf fs =
     rbind (append_dir cf) (\<lambda>d.
       if d \<notin> set (fs_dirs fs) then Panic
       else rbind (try_map name_id (read_dir d fs)) (\<lambda>ids.
         Ok (fold (\<lambda>i m. case (i, m) of (Some x, Some y) \<Rightarrow> Some (max x y) | (None, _) \<Rightarrow> m | _ \<Rightarrow> i)
               ids None)))"

definition incr_name :: "configs \<Rightarrow> u64 \<Rightarrow> string" where
  "incr_name cf i = cf_appendfilename cf @ ''.'' @ show_u64 i @ ''.incr.aof''"

definition manifest_line :: "configs \<Rightarrow> u64 \<Rightarrow> string" where
  "manifest_line cf i =
     ''file '' @ incr_name cf i @ '' seq '' @ show_u64 i @ '' type i'' @ [CHR 0x0A]"

definition init_aof_files :: "configs \<Rightarrow> aof \<Rightarrow> file_system \<Rightarrow> (aof \<times> file_system) cres" where
  "init_aof_files cf a fs =
     (if \<not> cf_appendonly cf then Ok (a, fs)
      else
        rbind (append_dir cf) (\<lambda>d. rbind (get_latest_aof_id cf fs) (\<lambda>latest.
          let i = (case latest of Some i \<Rightarrow> i | None \<Rightarrow> 1);
              path = d @ ''/'' @ incr_name cf i;
              old = (case hm_get (fs_files fs) path of Some b \<Rightarrow> b | None \<Rightarrow> []);
              manifest = d @ ''/'' @ cf_appendfilename cf @ ''.manifest''
          in Ok (a\<lparr>ao_path := Some path, ao_writer := Some \<lparr>aw_file = old, aw_pending = []\<rparr>,
                   ao_manifest := Some manifest\<rparr>,
                 fs\<lparr>fs_files := hm_insert manifest (manifest_line cf i) (hm_insert path old (fs_files fs))\<rparr>))))"

section \<open>The manifest\<close>

text \<open>
  \<open>lines()\<close>: the parts between line feeds, without the carriage return before one and without
  an empty last part.
\<close>

definition strip_cr :: "string \<Rightarrow> string" where
  "strip_cr s = (if s \<noteq> [] \<and> last s = CHR 0x0D then butlast s else s)"

definition file_lines :: "bytes \<Rightarrow> string list" where
  "file_lines b =
     (let ps = split_on (CHR 0x0A) b in
      map strip_cr (butlast ps) @ (if last ps = [] then [] else [last ps]))"

record manifest_info =
  mi_name :: string
  mi_seq :: u64
  mi_type :: string

fun manifest_words :: "string list \<Rightarrow> manifest_info \<Rightarrow> manifest_info cres" where
  "manifest_words [] m = Ok m"
| "manifest_words (w # ws) m =
     (if w = ''file'' then (case ws of [] \<Rightarrow> Panic | x # _ \<Rightarrow> manifest_words ws (m\<lparr>mi_name := x\<rparr>))
      else if w = ''seq'' then
        (case ws of [] \<Rightarrow> Panic
         | x # _ \<Rightarrow> rbind (of_parse_int (parse_u64 x)) (\<lambda>n. manifest_words ws (m\<lparr>mi_seq := n\<rparr>)))
      else if w = ''type'' then (case ws of [] \<Rightarrow> Panic | x # _ \<Rightarrow> manifest_words ws (m\<lparr>mi_type := x\<rparr>))
      else manifest_words ws m)"

fun manifest_lines :: "string list \<Rightarrow> manifest_info \<Rightarrow> manifest_info cres" where
  "manifest_lines [] m = Ok m"
| "manifest_lines (l # ls) m =
     (if \<not> utf8_valid l then Err FileReadingError
      else rbind (manifest_words (split_on (CHR '' '') l) m) (\<lambda>m.
        if mi_type m = ''i'' then Ok m else manifest_lines ls m))"

definition read_manifest :: "bytes \<Rightarrow> string cres" where
  "read_manifest b =
     rbind (manifest_lines (file_lines b) \<lparr>mi_name = [], mi_seq = 1, mi_type = []\<rparr>) (\<lambda>m.
       if mi_type m \<noteq> ''i'' then Err (InternalError ''No aof type i found'') else Ok (mi_name m))"

section \<open>Replay\<close>

text \<open>
  The complete values in the parser run as commands of client 0, with the invalid epoll
  descriptor; errors of the parser are ignored.
\<close>

partial_function (option) replay_values ::
  "externals \<Rightarrow> resp_parser \<Rightarrow> cmd_handler \<Rightarrow> ((resp_parser \<times> cmd_handler) \<times> io) option" where
  "replay_values X p h =
     (case parse False p of
        None \<Rightarrow> None
      | Some (Return q) \<Rightarrow>
          (case get_completed q of
             (None, q1) \<Rightarrow> Some ((q1, h), Ok ())
           | (Some t, q1) \<Rightarrow>
               (case serialize t of
                  Ok raw \<Rightarrow>
                    (case handle X (from_resp t) raw 0 False h of
                       (h1, Panic) \<Rightarrow> Some ((q1, h1), Panic)
                     | (h1, _) \<Rightarrow> replay_values X q1 h1)
                | _ \<Rightarrow> Some ((q1, h), Panic)))
      | Some (Fail _ q) \<Rightarrow> Some ((q, h), Ok ())
      | Some _ \<Rightarrow> Some ((p, h), Panic))"

fun replay_chunks ::
  "externals \<Rightarrow> bytes list \<Rightarrow> resp_parser \<Rightarrow> cmd_handler \<Rightarrow> ((resp_parser \<times> cmd_handler) \<times> io) option" where
  "replay_chunks X [] p h = Some ((p, h), Ok ())"
| "replay_chunks X (d # ds) p h =
     (case replay_values X (feed_buf d p) h of
        Some ((p1, h1), Ok _) \<Rightarrow> replay_chunks X ds p1 h1
      | r \<Rightarrow> r)"

function chunks :: "nat \<Rightarrow> bytes \<Rightarrow> bytes list" where
  "chunks n b = (if b = [] \<or> n = 0 then [] else take n b # chunks n (drop n b))"
  by auto
termination by (relation "measure (\<lambda>(n, b). length b)") auto

declare chunks.simps [simp del]

definition aof_replay ::
  "externals \<Rightarrow> configs \<Rightarrow> file_system \<Rightarrow> cmd_handler \<Rightarrow> (cmd_handler \<times> unit cres) option" where
  "aof_replay X cf fs h =
     (case append_dir cf of
        Ok d \<Rightarrow>
          (case hm_get (fs_files fs) (d @ ''/'' @ cf_appendfilename cf @ ''.manifest'') of
             None \<Rightarrow> Some (h, Err FileReadingError)
           | Some m \<Rightarrow>
               (case read_manifest m of
                  Ok name \<Rightarrow>
                    (case hm_get (fs_files fs) (d @ ''/'' @ name) of
                       None \<Rightarrow> Some (h, Err FileReadingError)
                     | Some b \<Rightarrow>
                         (case replay_chunks X (chunks buffer_size b) new_parser h of
                            None \<Rightarrow> None
                          | Some ((_, h1), Ok _) \<Rightarrow> Some (h1, Ok ())
                          | Some ((_, h1), _) \<Rightarrow> Some (h1, Panic)))
                | Err e \<Rightarrow> Some (h, Err e)
                | Panic \<Rightarrow> Some (h, Panic)))
      | _ \<Rightarrow> Some (h, Panic))"

definition init_sequence ::
  "externals \<Rightarrow> configs \<Rightarrow> aof \<Rightarrow> file_system \<Rightarrow> cmd_handler \<Rightarrow>
   ((aof \<times> file_system \<times> cmd_handler) \<times> unit cres) option" where
  "init_sequence X cf a fs h =
     (if \<not> cf_appendonly cf then Some ((a, fs, h), Ok ())
      else case append_dir cf of
        Ok d \<Rightarrow>
          (if path_exists d fs
           then (case aof_replay X cf fs h of
               None \<Rightarrow> None
             | Some (h1, Ok _) \<Rightarrow>
                 Some (case init_aof_files cf a fs of
                     Ok (a1, fs1) \<Rightarrow> ((a1, fs1, h1), Ok ())
                   | Err e \<Rightarrow> ((a, fs, h1), Err e)
                   | Panic \<Rightarrow> ((a, fs, h1), Panic))
             | Some (h1, r) \<Rightarrow> Some ((a, fs, h1), r))
           else Some (case rbind (create_dirs cf fs) (init_aof_files cf a) of
               Ok (a1, fs1) \<Rightarrow> ((a1, fs1, h), Ok ())
             | Err e \<Rightarrow> ((a, fs, h), Err e)
             | Panic \<Rightarrow> ((a, fs, h), Panic)))
      | _ \<Rightarrow> Some ((a, fs, h), Panic))"

section \<open>Replay ends\<close>

lemma replay_values_returns: "parser_inv p \<Longrightarrow> \<exists>r. replay_values X p h = Some r"
proof (induction "parser_work p" arbitrary: p h rule: less_induct)
  case less
  obtain o1 where p: "parse False p = Some o1" using parse_returns [OF less.prems] by blast
  show ?case
  proof (cases o1)
    case (Return q)
    with p have ret: "parse False p = Some (Return q)" by simp
    obtain t q1 where g: "get_completed q = (t, q1)" by fastforce
    show ?thesis
    proof (cases t)
      case None
      with ret g show ?thesis by (subst replay_values.simps) simp
    next
      case (Some v)
      have "parser_work q1 < parser_work p"
        using get_completed_work g Some parse_work [OF ret less.prems] by fastforce
      moreover have "parser_inv q1"
        using get_completed_inv [OF g] parse_Return_inv [OF ret less.prems] by simp
      ultimately have "\<exists>r. replay_values X q1 h1 = Some r" for h1 using less.hyps by blast
      with ret g Some show ?thesis
        by (subst replay_values.simps) (auto split: result.split prod.split)
    qed
  qed (use p in \<open>subst replay_values.simps, simp\<close>)+
qed

lemma length_chunks: "b \<noteq> [] \<Longrightarrow> 0 < n \<Longrightarrow> length b \<le> n \<Longrightarrow> chunks n b = [b]"
  by (simp add: chunks.simps [of n b] chunks.simps [of n "[]"])

lemma concat_chunks: "0 < n \<Longrightarrow> concat (chunks n b) = b"
proof (induction n b rule: chunks.induct)
  case (1 n b)
  then show ?case by (subst chunks.simps) auto
qed

end
