(* ===== verification/CmdCorrect.thy ===== *)
theory CmdCorrect
  imports CmdBuilder RespParserCorrect
begin

text \<open>
  What the command builder guarantees: every command a client can write as an array of bulk
  strings is built back from its words (\<open>request\<close>), in any case of its name, and the builder
  panics on such an array only for \<open>GEODIST\<close> with too few members. With the parser's round trip
  this makes the bytes of a request determine the command, which is what replication and the
  append-only file rely on.
\<close>

section \<open>Arguments that are bulk strings\<close>

lemma get_str_bulk [simp]: "get_str (bulk s) = Some s"
  by (simp add: bulk_def)

lemma str_of_bulk [simp]: "str_of msg (bulk s) = Ok s"
  by (simp add: str_of_def)

lemma arg_str_bulk [simp]: "arg_str msg (bulk s # vs) = Ok (s, vs)" "arg_str msg [] = Err (MissingArgument msg)"
  by (simp_all add: arg_str_def pop_or_def)

lemma try_map_bulk [simp]: "try_map (str_of msg) (map bulk xs) = Ok xs"
  by (induction xs) auto

lemma take_until_err_bulk [simp]: "take_until_err (str_of msg) (map bulk xs) = xs"
  by (induction xs) auto

lemma arg_i64_show [simp]:
  "i64_range i \<Longrightarrow> arg_i64 msg (bulk (show_int i) # vs) = Ok (i, vs)"
  by (simp add: arg_i64_def parse_i64_show_int)

lemma arg_u64_show [simp]: "arg_u64 msg (bulk (show_u64 w) # vs) = Ok (w, vs)"
  by (simp add: arg_u64_def parse_u64_show_u64)

lemma arg_usize_show [simp]:
  "n < 2 ^ 64 \<Longrightarrow> arg_usize msg (bulk (show_nat n) # vs) = Ok (n, vs)"
  by (simp add: arg_usize_def parse_usize_show_nat)

lemma parse_u8_show: "parse_u8 (show_nat (unat b)) = Ok b" for b :: u8
proof -
  have "unat b \<le> 255" using unsigned_less [of b, where ?'a = nat] by simp
  then show ?thesis by (simp add: parse_u8_def parse_unsigned_show_nat)
qed

section \<open>Stream ids\<close>

definition show_id :: "stream_id \<Rightarrow> string" where
  "show_id i = show_u64 (fst i) @ ''-'' @ show_u64 (snd i)"

lemma show_u64_no_dash: "CHR ''-'' \<notin> set (show_u64 w)"
  unfolding show_u64_def using show_nat_digits [of "CHR ''-''" "unat w"] by (auto simp: is_digit_def)

lemma split_show_id: "split_on (CHR ''-'') (show_u64 t @ CHR ''-'' # s) = show_u64 t # split_on (CHR ''-'') s"
  by (rule split_on_append_sep) (rule show_u64_no_dash)

lemma split_show_u64: "split_on (CHR ''-'') (show_u64 t) = [show_u64 t]"
  by (rule split_on_no_sep) (rule show_u64_no_dash)

lemma parse_stream_id_show: "parse_stream_id (show_id i) e = Ok i"
  by (simp add: parse_stream_id_def show_id_def split_show_id split_show_u64 parse_u64_show_u64)

lemma show_u64_hd: "is_digit (hd (show_u64 w))" "show_u64 w \<noteq> []"
  by (simp_all add: show_u64_def hd_show_nat_digit)

lemma show_id_hd: "is_digit (hd (show_id i))" "show_id i \<noteq> []"
  using show_u64_hd [of "fst i"] by (simp_all add: show_id_def)

lemma show_id_special: "show_id i \<noteq> ''-''" "show_id i \<noteq> ''+''" "show_id i \<noteq> ''$''"
  using show_id_hd [of i] by (auto simp: is_digit_def)

lemma parse_xrange_show: "parse_stream_id_xrange (show_id i) e = Ok i"
  by (simp add: parse_stream_id_xrange_def show_id_special parse_stream_id_show)

lemma parse_xread_show: "parse_stream_id_xread (show_id i) = Ok i"
  by (simp add: parse_stream_id_xread_def show_id_special parse_stream_id_show)

fun show_xadd_id :: "u64 option \<times> u64 option \<Rightarrow> string" where
  "show_xadd_id (Some t, Some i) = show_id (t, i)"
| "show_xadd_id (Some t, None) = show_u64 t @ ''-*''"
| "show_xadd_id (None, _) = ''*''"

lemma show_u64_not_star: "show_u64 w @ s \<noteq> ''*''" "show_u64 w \<noteq> ''*''"
proof -
  have "hd (show_u64 w @ s) \<noteq> CHR ''*''" for s
    using show_u64_hd [of w] by (auto simp: is_digit_def)
  from this [of s] this [of "[]"] show "show_u64 w @ s \<noteq> ''*''" "show_u64 w \<noteq> ''*''" by auto
qed

lemma parse_xadd_show:
  "(fst i = None \<longrightarrow> snd i = None) \<Longrightarrow> parse_stream_id_xadd (show_xadd_id i) = Ok i"
  by (cases i rule: show_xadd_id.cases)
    (auto simp: parse_stream_id_xadd_def show_id_def split_show_id split_show_u64 parse_u64_show_u64
      show_u64_not_star)

lemma try_map_xread:
  "try_map (\<lambda>r. rbind (str_of msg r) parse_stream_id_xread) (map (bulk \<circ> show_id) ids) = Ok ids"
  by (induction ids) (auto simp: parse_xread_show)

section \<open>The words of a command\<close>

fun arg_words :: "cmd_arg \<Rightarrow> string list" where
  "arg_words (ArgEX (Some x)) = [''EX'', show_u64 x]"
| "arg_words (ArgPX (Some x)) = [''PX'', show_u64 x]"
| "arg_words (ListeningPort p) = [''listening-port'', show_nat p]"
| "arg_words (Capa s) = [''capa'', s]"
| "arg_words (GetAck s) = [''GETACK'', s]"
| "arg_words (ArgAck x) = [''ACK'', show_int x]"
| "arg_words (ArgGet s) = [''GET'', s]"
| "arg_words WhoAmI = [''WHOAMI'']"
| "arg_words (GetUser u) = [''GETUSER'', u]"
| "arg_words (SetUser u [AddPassword p]) = [''SETUSER'', u, CHR ''>'' # p]"
| "arg_words (SetUser u [NoPass]) = [''SETUSER'', u, ''nopass'']"
| "arg_words (ArgAND d a b) = [''AND'', d, a, b]"
| "arg_words (ArgOR d a b) = [''OR'', d, a, b]"
| "arg_words _ = []"

fun arg_ok :: "cmd_arg \<Rightarrow> bool" where
  "arg_ok (ListeningPort p) = (p < 2 ^ 16)"
| "arg_ok (ArgAck x) = i64_range x"
| "arg_ok a = (arg_words a \<noteq> [])"

lemma arg_words_set:
  "arg_ok a \<Longrightarrow> arg_words a \<noteq> [] \<and> cmd_arg_set (hd (arg_words a)) (tl (arg_words a)) = Ok a"
  by (induction a rule: arg_words.induct)
    (auto simp: cmd_arg_set_def pop_or_def acl_rule_set_def parse_u64_show_u64 parse_i64_show_int
      parse_u16_def parse_unsigned_show_nat)

fun request :: "cmd \<Rightarrow> string list" where
  "request CPING = [''PING'']"
| "request (CECHO s) = [''ECHO'', s]"
| "request (CSET k v None) = [''SET'', k, v]"
| "request (CSET k v (Some a)) = [''SET'', k, v] @ arg_words a"
| "request (CGET k) = [''GET'', k]"
| "request (CRPUSH k xs) = [''RPUSH'', k] @ xs"
| "request (CLRANGE k i j) = [''LRANGE'', k, show_int i, show_int j]"
| "request (CLPUSH k xs) = [''LPUSH'', k] @ xs"
| "request (CLLEN k) = [''LLEN'', k]"
| "request (CLPOP k None) = [''LPOP'', k]"
| "request (CLPOP k (Some n)) = [''LPOP'', k, show_nat n]"
| "request (CTYPE k) = [''TYPE'', k]"
| "request (CXADD k i xs) = [''XADD'', k, show_xadd_id i] @ xs"
| "request (CXRANGE k i j) = [''XRANGE'', k, show_id i, show_id j]"
| "request (CXREAD c b ss) =
     ''XREAD'' # (case c of Some n \<Rightarrow> [''COUNT'', show_u64 n] | None \<Rightarrow> []) @
     (case b of Some n \<Rightarrow> [''BLOCK'', show_u64 n] | None \<Rightarrow> []) @ [''STREAMS''] @
     map fst ss @ map (show_id \<circ> snd) ss"
| "request (CINCR k) = [''INCR'', k]"
| "request CMULTI = [''MULTI'']"
| "request CEXEC = [''EXEC'']"
| "request CDISCARD = [''DISCARD'']"
| "request (CWATCH ks) = ''WATCH'' # ks"
| "request CUNWATCH = [''UNWATCH'']"
| "request (CINFO k) = [''INFO'', k]"
| "request (CREPLCONF a) = ''REPLCONF'' # arg_words a"
| "request (CPSYNC i n) = [''PSYNC'', i, show_int n]"
| "request (CWAIT n t) = [''WAIT'', show_u64 n, show_u64 (case t of Some t \<Rightarrow> t | None \<Rightarrow> 0)]"
| "request (CCONFIG a) = ''CONFIG'' # arg_words a"
| "request (CKEYS s) = [''KEYS'', s]"
| "request (CSUBSCRIBE ks) = ''SUBSCRIBE'' # ks"
| "request (CUNSUBSCRIBE k) = [''UNSUBSCRIBE'', k]"
| "request CPSUBSCRIBE = [''PSUBSCRIBE'']"
| "request CPUNSUBSCRIBE = [''PUNSUBSCRIBE'']"
| "request CQUIT = [''QUIT'']"
| "request (CPUBLISH k m) = [''PUBLISH'', k, m]"
| "request (CZRANK k m) = [''ZRANK'', k, m]"
| "request (CZRANGE k i j) = [''ZRANGE'', k, show_int i, show_int j]"
| "request (CZCARD k) = [''ZCARD'', k]"
| "request (CZSCORE k m) = [''ZSCORE'', k, m]"
| "request (CZREM k m) = [''ZREM'', k, m]"
| "request (CGEOPOS k ms) = [''GEOPOS'', k] @ ms"
| "request (CGEODIST k ms) = [''GEODIST'', k] @ ms"
| "request (CACL a) = ''ACL'' # arg_words a"
| "request (CAUTH u p) = [''AUTH'', u, p]"
| "request (CSETBIT k i b) = [''SETBIT'', k, show_nat i, show_nat (unat b)]"
| "request (CGETBIT k i) = [''GETBIT'', k, show_nat i]"
| "request (CSTRLEN k) = [''STRLEN'', k]"
| "request (CBITCOUNT k None) = [''BITCOUNT'', k]"
| "request (CBITCOUNT k (Some r)) =
     [''BITCOUNT'', k, show_int (br_start r), show_int (br_end r),
      (case br_unit r of UByte \<Rightarrow> ''BYTE'' | UBit \<Rightarrow> ''BIT'')]"
| "request (CBITOP a) = ''BITOP'' # arg_words a"
| "request _ = []"

text \<open>
  The commands that have such a request: all but the two replies of the handshake, the RDB, and
  the five whose arguments are floats. The conditions say that the values fit their types and
  that the option is one the command takes.
\<close>

fun requestable :: "cmd \<Rightarrow> bool" where
  "requestable (CSET _ _ (Some a)) = (arg_ok a \<and> length (arg_words a) = 2)"
| "requestable (CLRANGE _ i j) = (i64_range i \<and> i64_range j)"
| "requestable (CLPOP _ (Some n)) = (n < 2 ^ 64)"
| "requestable (CXADD _ i _) = (fst i = None \<longrightarrow> snd i = None)"
| "requestable (CWATCH ks) = (ks \<noteq> [])"
| "requestable (CREPLCONF a) = (arg_ok a \<and> length (arg_words a) = 2)"
| "requestable (CPSYNC _ n) = i64_range n"
| "requestable (CWAIT _ t) = (t \<noteq> Some 0)"
| "requestable (CCONFIG a) = (arg_ok a \<and> length (arg_words a) = 2)"
| "requestable (CZRANGE _ i j) = (i64_range i \<and> i64_range j)"
| "requestable (CGEODIST _ ms) = (length ms = 2)"
| "requestable (CACL a) = arg_ok a"
| "requestable (CSETBIT _ i _) = (i < 2 ^ 64)"
| "requestable (CGETBIT _ i) = (i < 2 ^ 64)"
| "requestable (CBITCOUNT _ (Some r)) = (i64_range (br_start r) \<and> i64_range (br_end r))"
| "requestable (CBITOP a) = (length (arg_words a) = 4)"
| "requestable c = (request c \<noteq> [])"

section \<open>Building a request\<close>

lemma builders_upper: "list_all (\<lambda>n. to_ascii_upper n = n) (map fst builders)"
  unfolding builders_def list.map fst_conv by code_simp

lemma build_known: "map_of builders n = Some b \<Longrightarrow> build n vs = b vs"
proof -
  assume b: "map_of builders n = Some b"
  then have "n \<in> set (map fst builders)" by (metis image_eqI list.set_map map_of_SomeD fst_conv)
  with builders_upper have "to_ascii_upper n = n" by (simp only: list_all_iff)
  with b show ?thesis by (simp add: build_def)
qed

lemma build_names [simp]:
  "build ''PING'' vs = Ok CPING"
  "build ''ECHO'' vs = b_echo vs"
  "build ''SET'' vs = b_set vs"
  "build ''GET'' vs = b_get vs"
  "build ''RPUSH'' vs = b_rpush vs"
  "build ''LRANGE'' vs = b_lrange vs"
  "build ''LPUSH'' vs = b_lpush vs"
  "build ''LLEN'' vs = b_llen vs"
  "build ''LPOP'' vs = b_lpop vs"
  "build ''BLPOP'' vs = b_blpop vs"
  "build ''TYPE'' vs = b_ktype vs"
  "build ''XADD'' vs = b_xadd vs"
  "build ''XRANGE'' vs = b_xrange vs"
  "build ''XREAD'' vs = b_xread vs"
  "build ''INCR'' vs = b_incr vs"
  "build ''MULTI'' vs = Ok CMULTI"
  "build ''EXEC'' vs = Ok CEXEC"
  "build ''DISCARD'' vs = Ok CDISCARD"
  "build ''WATCH'' vs = b_watch vs"
  "build ''UNWATCH'' vs = Ok CUNWATCH"
  "build ''INFO'' vs = b_info vs"
  "build ''REPLCONF'' vs = b_replconf vs"
  "build ''PSYNC'' vs = b_psync vs"
  "build ''WAIT'' vs = b_wait vs"
  "build ''CONFIG'' vs = b_config vs"
  "build ''KEYS'' vs = b_keys vs"
  "build ''SUBSCRIBE'' vs = b_subscribe vs"
  "build ''UNSUBSCRIBE'' vs = b_unsubscribe vs"
  "build ''PSUBSCRIBE'' vs = Ok CPSUBSCRIBE"
  "build ''PUNSUBSCRIBE'' vs = Ok CPUNSUBSCRIBE"
  "build ''QUIT'' vs = Ok CQUIT"
  "build ''PUBLISH'' vs = b_publish vs"
  "build ''ZADD'' vs = b_zadd vs"
  "build ''ZRANK'' vs = b_zrank vs"
  "build ''ZRANGE'' vs = b_zrange vs"
  "build ''ZCARD'' vs = b_zcard vs"
  "build ''ZSCORE'' vs = b_zscore vs"
  "build ''ZREM'' vs = b_zrem vs"
  "build ''GEOADD'' vs = b_geoadd vs"
  "build ''GEOPOS'' vs = b_geopos vs"
  "build ''GEODIST'' vs = b_geodist vs"
  "build ''GEOSEARCH'' vs = b_geosearch vs"
  "build ''ACL'' vs = b_acl vs"
  "build ''AUTH'' vs = b_auth vs"
  "build ''SETBIT'' vs = b_setbit vs"
  "build ''GETBIT'' vs = b_getbit vs"
  "build ''STRLEN'' vs = b_strlen vs"
  "build ''BITCOUNT'' vs = b_bitcount vs"
  "build ''BITOP'' vs = b_bitop vs"
  by (rule build_known [THEN trans]; simp add: builders_def)+

lemma build_upper: "to_ascii_upper w = to_ascii_upper n \<Longrightarrow> build w vs = build n vs"
  by (simp add: build_def)

lemma from_resp_bulks [simp]:
  "from_resp (arr (bulk n # vs)) = (if n = [] then Err (NoCmdError ''No command'') else build n vs)"
  by (simp add: from_resp_def arr_def bulk_def)

lemmas builder_defs =
  b_echo_def b_set_def b_get_def b_rpush_def b_lrange_def b_lpush_def b_llen_def b_lpop_def
  b_blpop_def b_ktype_def b_xadd_def b_xrange_def b_incr_def b_watch_def b_info_def
  b_replconf_def b_psync_def b_fullresync_def b_rdb_def b_wait_def b_config_def b_keys_def
  b_subscribe_def b_unsubscribe_def b_publish_def b_zadd_def b_zrank_def b_zrange_def
  b_zcard_def b_zscore_def b_zrem_def b_geoadd_def b_geopos_def b_geodist_def b_geosearch_def
  b_auth_def b_setbit_def b_getbit_def b_strlen_def b_bitcount_def

lemma upper_words [simp]:
  "to_ascii_upper ''COUNT'' = ''COUNT''" "to_ascii_upper ''BLOCK'' = ''BLOCK''"
  "to_ascii_upper ''STREAMS'' = ''STREAMS''" "to_ascii_upper ''BYTE'' = ''BYTE''"
  "to_ascii_upper ''BIT'' = ''BIT''" "to_ascii_upper ''AND'' = ''AND''" "to_ascii_upper ''OR'' = ''OR''"
  by code_simp+

lemma b_bitop_request:
  "length (arg_words a) = 4 \<Longrightarrow> b_bitop (map bulk (arg_words a)) = Ok (CBITOP a)"
  by (induction a rule: arg_words.induct) (auto simp: b_bitop_def cmd_arg_set_def pop_or_def)

lemma arg_pair:
  assumes "arg_ok a" and "length (arg_words a) = 2"
  obtains k v where "arg_words a = [k, v]" "cmd_arg_set k [v] = Ok a"
  using assms arg_words_set [OF assms(1)] by (auto simp: length_Suc_conv numeral_2_eq_2)

lemma b_acl_request: "arg_ok a \<Longrightarrow> b_acl (map bulk (arg_words a)) = Ok (CACL a)"
  using arg_words_set [of a] by (cases "arg_words a") (auto simp: b_acl_def)

lemma xread_options_request:
  "xread_options (map bulk ((case c of Some n \<Rightarrow> [''COUNT'', show_u64 n] | None \<Rightarrow> []) @
     (case b of Some n \<Rightarrow> [''BLOCK'', show_u64 n] | None \<Rightarrow> []) @ ''STREAMS'' # ws)) None None =
   Ok (c, b, map bulk ws)"
  by (cases c; cases b) (simp_all add: parse_u64_show_u64)

lemma try_map_keys: "try_map (str_of msg) (map (bulk \<circ> f) xs) = Ok (map f xs)"
  by (induction xs) auto

lemma try_map_ids:
  "try_map (\<lambda>r. rbind (str_of msg r) parse_stream_id_xread) (map (bulk \<circ> (show_id \<circ> f)) xs) = Ok (map f xs)"
  by (induction xs) (auto simp: parse_xread_show)

lemma b_xread_request: "b_xread (map bulk (tl (request (CXREAD c b ss)))) = Ok (CXREAD c b ss)"
proof -
  have "(length ss + length ss) div 2 = length ss" by simp
  then show ?thesis
    using xread_options_request [of c b "map fst ss @ map (show_id \<circ> snd) ss"]
    by (simp add: b_xread_def try_map_keys try_map_ids zip_map_fst_snd)
qed

theorem from_resp_request: "requestable c \<Longrightarrow> from_resp (arr (map bulk (request c))) = Ok c"
proof (induction c rule: request.induct)
  case (15 c b ss)
  then show ?case using b_xread_request [of c b ss] by simp
qed (auto simp: builder_defs b_acl_request b_bitop_request parse_usize_show_nat parse_xadd_show
    parse_xrange_show parse_u8_show unit_of_def split: option.splits bit_unit.splits elim!: arg_pair)

theorem from_resp_case:
  assumes "to_ascii_upper w = to_ascii_upper n" and "n \<noteq> []"
  shows "from_resp (arr (bulk w # vs)) = from_resp (arr (bulk n # vs))"
proof -
  have "length w = length n" using assms(1) by (metis length_to_ascii_upper)
  with assms(2) have "w \<noteq> []" by auto
  with assms show ?thesis by (simp add: build_upper [OF assms(1)])
qed

section \<open>Panics of the builder\<close>

lemma rbind_Panic [simp]: "rbind m f = Panic \<longleftrightarrow> m = Panic \<or> (\<exists>x. m = Ok x \<and> f x = Panic)"
  by (cases m) auto

lemma if_Panic [simp]: "(if b then x else y) = Panic \<longleftrightarrow> b \<and> x = Panic \<or> \<not> b \<and> y = Panic"
  by simp

lemma of_parse_int_Panic [simp]: "of_parse_int r = Panic \<longleftrightarrow> r = Panic"
  by (cases r) auto

lemma of_parse_float_Panic [simp]: "of_parse_float r = Panic \<longleftrightarrow> r = Panic"
  by (cases r) auto

lemma parse_no_panic [simp]: "parse_unsigned b s \<noteq> Panic" "parse_i64 s \<noteq> Panic" "parse_u64 s \<noteq> Panic"
  "parse_u16 s \<noteq> Panic" "parse_u8 s \<noteq> Panic" "parse_f64 s \<noteq> Panic" "parse_usize s \<noteq> Panic"
  by (auto simp: parse_unsigned_def parse_i64_def parse_u64_def parse_u16_def parse_u8_def parse_f64_def
      Let_def split: option.splits)

lemma ok_or_Panic [simp]: "ok_or v e \<noteq> Panic"
  by (cases v) auto

lemma pop_or_no_panic [simp]: "pop_or e vs \<noteq> Panic"
  by (simp add: pop_or_def split: list.splits)

lemma args_no_panic [simp]: "str_of msg r \<noteq> Panic" "arg_str msg vs \<noteq> Panic"
  "arg_i64 msg vs \<noteq> Panic" "arg_u64 msg vs \<noteq> Panic" "arg_usize msg vs \<noteq> Panic" "arg_f64 msg vs \<noteq> Panic"
  by (auto simp: str_of_def arg_str_def arg_i64_def arg_u64_def arg_usize_def arg_f64_def
      split: list.splits)

lemma try_map_no_panic: "(\<And>x. f x \<noteq> Panic) \<Longrightarrow> try_map f xs \<noteq> Panic"
  by (induction xs) auto

lemma arg_set_no_panic [simp]: "acl_rule_set vs \<noteq> Panic" "cmd_arg_set k vs' \<noteq> Panic"
proof -
  show "acl_rule_set vs \<noteq> Panic" for vs by (auto simp: acl_rule_set_def split: list.splits)
  then show "cmd_arg_set k vs' \<noteq> Panic" by (simp add: cmd_arg_set_def split_beta)
qed

lemma stream_ids_no_panic [simp]: "parse_stream_id v e \<noteq> Panic" "parse_stream_id_xadd v \<noteq> Panic"
  "parse_stream_id_xrange v e \<noteq> Panic" "parse_stream_id_xread v \<noteq> Panic"
  by (auto simp: parse_stream_id_def parse_stream_id_xadd_def parse_stream_id_xrange_def
      parse_stream_id_xread_def split: list.splits)

lemma xread_options_no_panic [simp]: "xread_options vs c b \<noteq> Panic"
  by (induction vs c b rule: xread_options.induct) (auto simp: Let_def split: list.splits)

lemma unit_of_no_panic [simp]: "unit_of r \<noteq> Panic"
  by (simp add: unit_of_def syntax_error_def)

lemmas panic_simps = try_map_no_panic Let_def

lemma b_geodist_panic:
  "b_geodist vs = Panic \<longleftrightarrow> (\<exists>k r. arg_str ''No key provided for GEODIST'' vs = Ok (k, r) \<and> length r < 2)"
  by (auto simp: b_geodist_def)

lemma builder_no_panic [simp]:
  "b_echo vs \<noteq> Panic" "b_set vs \<noteq> Panic" "b_get vs \<noteq> Panic" "b_rpush vs
  \<noteq> Panic" "b_lrange vs \<noteq> Panic" "b_lpush vs \<noteq> Panic" "b_llen vs \<noteq>
  Panic" "b_lpop vs \<noteq> Panic" "b_blpop vs \<noteq> Panic" "b_ktype vs \<noteq> Panic" "b_xadd
  vs \<noteq> Panic" "b_xrange vs \<noteq> Panic" "b_xread vs \<noteq> Panic" "b_incr vs \<noteq>
  Panic" "b_watch vs \<noteq> Panic" "b_info vs \<noteq> Panic" "b_replconf vs \<noteq> Panic"
  "b_psync vs \<noteq> Panic" "b_wait vs \<noteq> Panic" "b_config vs \<noteq> Panic" "b_keys vs
  \<noteq> Panic" "b_subscribe vs \<noteq> Panic" "b_unsubscribe vs \<noteq> Panic" "b_publish vs
  \<noteq> Panic" "b_zadd vs \<noteq> Panic" "b_zrank vs \<noteq> Panic" "b_zrange vs \<noteq>
  Panic" "b_zcard vs \<noteq> Panic" "b_zscore vs \<noteq> Panic" "b_zrem vs \<noteq> Panic"
  "b_geoadd vs \<noteq> Panic" "b_geopos vs \<noteq> Panic" "b_geosearch vs \<noteq> Panic" "b_acl
  vs \<noteq> Panic" "b_auth vs \<noteq> Panic" "b_setbit vs \<noteq> Panic" "b_getbit vs \<noteq>
  Panic" "b_strlen vs \<noteq> Panic" "b_bitcount vs \<noteq> Panic" "b_bitop vs \<noteq> Panic"
  by (auto simp: builder_defs b_acl_def b_bitop_def b_xread_def panic_simps syntax_error_def split_beta
      split: list.splits)

lemma builders_no_panic: "(n, b) \<in> set builders \<Longrightarrow> b vs = Panic \<Longrightarrow> n = ''GEODIST'' \<and> b = b_geodist"
  by (auto simp: builders_def)

theorem from_resp_panic:
  "from_resp (arr (map bulk (w # ws))) = Panic \<longleftrightarrow>
   to_ascii_upper w = ''GEODIST'' \<and> (length ws = 1 \<or> length ws = 2)"
proof (cases "map_of builders (to_ascii_upper w)")
  case None
  then have "to_ascii_upper w \<noteq> ''GEODIST''" by (auto simp: builders_def)
  with None show ?thesis by (simp add: build_def)
next
  case (Some b)
  have g: "b_geodist (map bulk ws) = Panic \<longleftrightarrow> length ws = 1 \<or> length ws = 2"
    by (cases ws) (auto simp: b_geodist_def less_Suc_eq numeral_2_eq_2)
  have w: "w \<noteq> []" if "to_ascii_upper w = ''GEODIST''"
    using that by (auto simp: to_ascii_upper_def)
  have "b = b_geodist" if "to_ascii_upper w = ''GEODIST''"
    using Some that by (simp add: builders_def)
  moreover have "b vs \<noteq> Panic" if "to_ascii_upper w \<noteq> ''GEODIST''" for vs
    using builders_no_panic [OF map_of_SomeD [OF Some], of vs] that by auto
  ultimately show ?thesis using Some g w by (auto simp: build_def)
qed

end
