(* ===== verification/HandlerCorrect.thy ===== *)
theory HandlerCorrect
  imports Handler KeyedCmds
begin

text \<open>
  The invariant of the handler's state, preserved by every command and everything the event
  loop calls, and the frames of the commands.
\<close>

section \<open>The invariant\<close>

definition queueable :: "cmd \<Rightarrow> bool" where
  "queueable c = (case c of CEXEC \<Rightarrow> False | CDISCARD \<Rightarrow> False | CWATCH _ \<Rightarrow> False | _ \<Rightarrow> True)"

definition txn_ok :: "registry \<Rightarrow> bool" where
  "txn_ok r \<longleftrightarrow> hm_inv (rg_txn r) \<and>
     (\<forall>cl q. hm_get (rg_txn r) cl = Some q \<longrightarrow> list_all (\<lambda>(c, _). queueable c) q)"

text \<open>A key without waiting clients has no queue, rather than an empty one.\<close>

definition no_empty_queue :: "registry \<Rightarrow> bool" where
  "no_empty_queue r \<longleftrightarrow> (\<forall>k. hm_get (rg_list r) k \<noteq> Some [])"

definition handler_inv :: "cmd_handler \<Rightarrow> bool" where
  "handler_inv h \<longleftrightarrow> store_inv (h_data h) \<and> watch_inv (h_reg h) \<and> txn_ok (h_reg h) \<and>
     no_empty_queue (h_reg h) \<and> pubsub_inv h \<and>
     auth_inv (h_auth h) \<and> table_inv (h_table h) \<and> states_inv (h_states h)"

text \<open>Steps that change blocked requests, the replies, the interest list and the clock only.\<close>

definition only_requests :: "cmd_handler \<Rightarrow> cmd_handler \<Rightarrow> bool" where
  "only_requests h h' \<longleftrightarrow> h_data h' = h_data h \<and> h_subs h' = h_subs h \<and> h_chans h' = h_chans h \<and>
     h_aof h' = h_aof h \<and> h_table h' = h_table h \<and> h_auth h' = h_auth h \<and> h_states h' = h_states h \<and>
     rg_txn (h_reg h') = rg_txn (h_reg h) \<and> rg_watch (h_reg h') = rg_watch (h_reg h) \<and>
     (no_empty_queue (h_reg h) \<longrightarrow> no_empty_queue (h_reg h'))"

lemma no_empty_queue_insert: "no_empty_queue r \<Longrightarrow> no_empty_queue (reg_insert now ts d e r)"
proof -
  assume n: "no_empty_queue r"
  obtain r1 e1 where a: "reg_arm now ts d e r = (r1, e1)" by fastforce
  with reg_arm_fields(3) [OF a] n have "no_empty_queue (reg_enqueue ts e1 r1)"
    by (cases e1) (auto simp: reg_enqueue_def no_empty_queue_def)
  with a show ?thesis by (simp add: reg_insert_def Let_def no_empty_queue_def)
qed

lemma no_empty_queue_remove: "no_empty_queue r \<Longrightarrow> no_empty_queue (snd (reg_remove now ts r))"
proof (cases "hm_get (rg_store r) ts")
  case (Some e)
  assume "no_empty_queue r"
  then have "no_empty_queue (reg_dequeue ts e r)"
    by (cases e) (auto simp: reg_dequeue_def no_empty_queue_def Let_def split: option.split)
  with reg_remove_indexes(1) [OF Some] show ?thesis by (simp add: no_empty_queue_def)
qed (simp add: reg_remove_absent)

lemma no_empty_queue_cong [simp]:
  "no_empty_queue (r\<lparr>rg_store := s\<rparr>) = no_empty_queue r" "no_empty_queue (r\<lparr>rg_txn := t\<rparr>) = no_empty_queue r"
  "no_empty_queue (unwatch_all client r) = no_empty_queue r" "no_empty_queue (set_dirty c r) = no_empty_queue r"
  "no_empty_queue (watch_key client k r) = no_empty_queue r"
  "no_empty_queue (add_to_txn client c b r) = no_empty_queue r"
  by (auto simp: no_empty_queue_def unwatch_all_def set_dirty_def watch_key_def add_to_txn_def
      split: option.split)

lemma only_requests_refl [simp]: "only_requests h h"
  by (simp add: only_requests_def)

lemma only_requests_trans: "only_requests h h' \<Longrightarrow> only_requests h' h'' \<Longrightarrow> only_requests h h''"
  by (simp add: only_requests_def)

lemma handler_inv_requests:
  "only_requests h h' \<Longrightarrow> handler_inv h \<Longrightarrow> handler_inv h'"
  by (simp add: only_requests_def handler_inv_def watch_inv_def txn_ok_def pubsub_inv_def)

lemma handler_inv_data:
  "only_data h h' \<Longrightarrow> store_inv (h_data h') \<Longrightarrow> handler_inv h \<Longrightarrow> handler_inv h'"
  using only_dataD [of h h'] by (simp add: handler_inv_def pubsub_inv_def)

context keyed_command
begin

lemma handler_inv_run: "handler_inv h \<Longrightarrow> handler_inv (fst (run h))"
  using handler_inv_data [OF data_only] well_formed by (simp add: handler_inv_def)

end

lemma requests_steps [simp]:
  "only_requests h (push c b h)" "only_requests h (add_interest ok c h)"
  "only_requests h (remove_interest ok c h)" "only_requests h (insert_request ts d e h)"
  "only_requests h (snd (remove_request ts h))" "only_requests h (snd (tick h))"
  by (auto simp: only_requests_def push_def add_interest_def remove_interest_def insert_request_def
      remove_request_def on_reg_def tick_def case_prod_beta no_empty_queue_insert no_empty_queue_remove)

lemmas requests_step = requests_steps [THEN only_requests_trans [rotated]]

lemma requests_fold:
  assumes "\<And>x h. only_requests h (f x h)"
  shows "only_requests h (fold f xs h)"
proof (induction xs arbitrary: h)
  case (Cons x xs)
  from only_requests_trans [OF assms Cons.IH] show ?case by simp
qed simp

lemma requests_fold_push [simp]: "only_requests h (fold (\<lambda>i. push i m) s h)"
  by (rule requests_fold) simp

lemma requests_fold_remove [simp]: "only_requests h (fold (\<lambda>t h. snd (remove_request t h)) ts h)"
  by (rule requests_fold) simp

lemma requests_deadline: "get_deadline t h = (p, h') \<Longrightarrow> only_requests h h'"
  using requests_steps(6) [of h] by (auto simp: get_deadline_def case_prod_beta)

subsection \<open>Commands on requests\<close>

lemma requests_xread: "only_requests h (fst (cmd_xread n b ss client h))"
  by (auto simp: cmd_xread_def Let_def dest: requests_deadline intro: requests_step
      split: list.splits option.splits prod.splits)

lemma requests_publish: "only_requests h (fst (cmd_publish k m h))"
  by (auto simp: cmd_publish_def Let_def split: option.splits)

lemma requests_wait: "only_requests h (fst (cmd_wait n t client ep h))"
proof (cases "n = 0 \<or> (\<forall>s. stats_of h = Ok s \<longrightarrow> rs_offset s = 0)")
  case False
  then obtain s where s: "n \<noteq> 0" "stats_of h = Ok s" "rs_offset s \<noteq> 0" by blast
  let ?h1 = "fold (\<lambda>k. push k getack_msg) (list_slave (h_table h)) h"
  obtain ts d h2 where d: "get_deadline t ?h1 = ((ts, d), h2)" by (metis surj_pair)
  have "only_requests h h2"
    using requests_deadline [OF d] only_requests_trans requests_fold_push by blast
  with s d show ?thesis
    by (auto simp: cmd_wait_def Let_def split: option.split intro!: requests_step)
qed (auto simp: cmd_wait_def split: result.split)

lemma requests_ack_loop:
  "ack_loop off ids h sd cd = Ok (h', sd', cd') \<Longrightarrow> only_requests h h'"
proof (induction ids arbitrary: h sd cd)
  case (Cons i ids)
  obtain ts where ts: "hm_get (rg_wait (h_reg h)) i = Some ts"
    using Cons.prems by (auto split: option.splits)
  have same: "only_requests h h'"
    if "ack_loop off ids h1 sd1 cd1 = Ok (h', sd', cd')" "only_requests h h1" for h1 sd1 cd1
    using Cons.IH [OF that(1)] only_requests_trans [OF that(2)] by blast
  have upd: "only_requests h (on_reg (\<lambda>r. r\<lparr>rg_store := hm_insert ts e (rg_store r)\<rparr>) h)" for e
    by (simp add: only_requests_def on_reg_def)
  show ?case
  proof (cases "hm_get (rg_store (h_reg h)) ts")
    case None
    with Cons ts show ?thesis by simp
  next
    case (Some e)
    with Cons ts show ?thesis
      by (cases e) (auto simp: Let_def split: if_splits
          intro!: same upd only_requests_trans [OF upd requests_steps(1)])
  qed
qed simp

lemma requests_ack_finish: "ack_finish ep ids h tss = Ok (h', tss') \<Longrightarrow> only_requests h h'"
proof (induction ids arbitrary: h tss)
  case (Cons i ids)
  then obtain ts ok where "ack_finish ep ids (add_interest ok i h) (tss @ [ts]) = Ok (h', tss')"
    by (auto split: option.splits)
  from only_requests_trans [OF requests_steps(2) Cons.IH [OF this]] show ?case .
qed simp

lemma requests_replconf: "only_requests h (fst (cmd_replconf a client ep h))"
proof -
  have "only_requests h (fst (replconf_ack off client ep h))" for off
  proof (cases "rbind (ack_loop off
        (case hm_get (rg_ack (h_reg h)) client of Some ids \<Rightarrow> ids | None \<Rightarrow> []) h [] [])
      (\<lambda>(h1, sdone, cdone). ack_finish ep cdone (on_reg (drop_acked client sdone) h1) [])")
    case (Ok x)
    then obtain h1 sd cd h2 tss where
      l: "ack_loop off (case hm_get (rg_ack (h_reg h)) client of Some ids \<Rightarrow> ids | None \<Rightarrow> []) h [] [] = Ok (h1, sd, cd)"
      and f: "ack_finish ep cd (on_reg (drop_acked client sd) h1) [] = Ok (h2, tss)" and x: "x = (h2, tss)"
      by (cases x) (auto simp: rbind_Ok_iff)
    have "only_requests h1 (on_reg (drop_acked client sd) h1)"
      by (auto simp: only_requests_def on_reg_def drop_acked_def Let_def no_empty_queue_def split: option.splits)
    with requests_ack_loop [OF l] requests_ack_finish [OF f] have "only_requests h h2"
      by (blast intro: only_requests_trans)
    with Ok x show ?thesis
      by (simp add: replconf_ack_def) (blast intro: only_requests_trans requests_fold_remove)
  qed (simp_all add: replconf_ack_def)
  then show ?thesis by (auto simp: cmd_replconf_def split: cmd_arg.splits)
qed

subsection \<open>The other commands\<close>

lemma inv_blpop: "handler_inv h \<Longrightarrow> handler_inv (fst (cmd_blpop k t client h))"
proof -
  assume inv: "handler_inv h"
  obtain ts d h1 where g: "get_deadline t h = ((ts, d), h1)" by (metis surj_pair)
  then have h1: "handler_inv h1" using inv handler_inv_requests requests_deadline by blast
  have w: "handler_inv (insert_request ts d e h1)" for e
    using h1 handler_inv_requests requests_steps(4) by blast
  have p: "handler_inv (put_value k i (VList xs) h1)" for i xs
    using h1 handler_inv_data [OF only_data_put(2)] put_value_inv [of h1 "VList xs"]
    by (simp add: handler_inv_def)
  show ?thesis using g h1 w p by (auto simp: cmd_blpop_def Let_def split: option.split store_value.split)
qed

lemma inv_psync: "handler_inv h \<Longrightarrow> handler_inv (fst (cmd_psync X i n client h))"
  by (auto simp: cmd_psync_def handler_inv_def table_inv_ops pubsub_inv_def split: result.split)

lemma inv_subscribe: "handler_inv h \<Longrightarrow> handler_inv (fst (cmd_subscribe ks client h))"
proof -
  have more: "only_requests (h\<lparr>h_subs := [], h_chans := []\<rparr>)
      ((fst (subscribe_more client ks h out))\<lparr>h_subs := [], h_chans := []\<rparr>)" for h out
    by (induction ks arbitrary: h out) (auto simp: only_requests_def join_channel_def Let_def)
  have first: "only_requests (h\<lparr>h_subs := [], h_chans := []\<rparr>)
      ((fst (subscribe_first client ks h out))\<lparr>h_subs := [], h_chans := []\<rparr>)" for h out
    by (induction ks arbitrary: h out) (auto simp: only_requests_def join_channel_def)
  have "only_requests (h\<lparr>h_subs := [], h_chans := []\<rparr>)
      ((fst (cmd_subscribe ks client h))\<lparr>h_subs := [], h_chans := []\<rparr>)"
    using more [of h "[]"] first [of "h\<lparr>h_subs := hs_insert client (h_subs h)\<rparr>" "[]"]
    by (auto simp: cmd_subscribe_def case_prod_beta)
  then show "handler_inv h \<Longrightarrow> handler_inv (fst (cmd_subscribe ks client h))"
    using pubsub_inv_subscribe [of h ks client]
    by (auto simp: handler_inv_def only_requests_def watch_inv_def txn_ok_def)
qed

lemma inv_unsubscribe: "handler_inv h \<Longrightarrow> handler_inv (fst (cmd_unsubscribe k client h))"
  using pubsub_inv_unsubscribe [of h k client]
  by (auto simp: handler_inv_def cmd_unsubscribe_def Let_def split: option.splits if_splits)

lemma inv_acl: "handler_inv h \<Longrightarrow> handler_inv (fst (cmd_acl X a client h))"
  using auth_inv_acl [of h X a client]
  by (auto simp: handler_inv_def cmd_acl_def cmd_acl_setuser_def pubsub_inv_def
      split: cmd_arg.splits option.splits)

lemma inv_auth: "handler_inv h \<Longrightarrow> handler_inv (fst (cmd_auth X u p client h))"
  using auth_inv_auth [of h X u p client]
  by (auto simp: handler_inv_def cmd_auth_def pubsub_inv_def case_prod_beta)

lemma txn_ok_close: "txn_ok r \<Longrightarrow> txn_ok ((unwatch_all client r)\<lparr>rg_txn := hm_remove client (rg_txn r)\<rparr>)"
  by (auto simp: txn_ok_def split: if_splits)

lemma watch_inv_txn [simp]: "watch_inv (r\<lparr>rg_txn := t\<rparr>) = watch_inv r"
  by (simp add: watch_inv_def)

lemma watch_inv_reg_watch: "watch_inv r \<Longrightarrow> watch_inv (reg_watch ks client r)"
  unfolding reg_watch_def by (induction ks arbitrary: r) (auto intro: watch_inv_ops)

lemma no_empty_queue_reg_watch: "no_empty_queue (reg_watch ks client r) = no_empty_queue r"
  unfolding reg_watch_def by (induction ks arbitrary: r) auto

lemma txn_of_reg_watch [simp]: "rg_txn (reg_watch ks client r) = rg_txn r"
  unfolding reg_watch_def by (induction ks arbitrary: r) (auto simp: watch_key_def)

lemma txn_of_others [simp]: "rg_txn (unwatch_all client r) = rg_txn r" "rg_txn (set_dirty c r) = rg_txn r"
  by (auto simp: unwatch_all_def set_dirty_def split: option.splits)

lemma handler_inv_reg:
  "handler_inv h \<Longrightarrow> watch_inv (f (h_reg h)) \<Longrightarrow> txn_ok (f (h_reg h)) \<Longrightarrow>
   no_empty_queue (f (h_reg h)) = no_empty_queue (h_reg h) \<Longrightarrow> handler_inv (on_reg f h)"
  by (simp add: handler_inv_def on_reg_def pubsub_inv_def)

lemma inv_close_txn: "handler_inv h \<Longrightarrow> handler_inv (close_txn client h)"
  unfolding close_txn_def
  by (intro handler_inv_reg) (auto simp: handler_inv_def intro: watch_inv_ops txn_ok_close)

lemma inv_txn_cmds:
  assumes "handler_inv h"
  shows "handler_inv (fst (cmd_multi client h))" "handler_inv (fst (cmd_discard client h))"
    "handler_inv (fst (cmd_watch ks client h))" "handler_inv (fst (cmd_unwatch client h))"
    "handler_inv (on_reg (set_dirty c) h)"
    "queueable c \<Longrightarrow> handler_inv (on_reg (add_to_txn client c b) h)"
proof -
  have w: "watch_inv (h_reg h)" and t: "txn_ok (h_reg h)" using assms by (simp_all add: handler_inv_def)
  show "handler_inv (fst (cmd_multi client h))"
    using assms w t by (auto simp: cmd_multi_def txn_ok_def intro!: handler_inv_reg)
  show "handler_inv (fst (cmd_discard client h))"
    using assms by (simp add: cmd_discard_def inv_close_txn)
  show "handler_inv (fst (cmd_watch ks client h))"
    using w t by (auto simp: cmd_watch_def txn_ok_def intro!: handler_inv_reg [OF assms] watch_inv_reg_watch
        simp: no_empty_queue_reg_watch)
  show "handler_inv (fst (cmd_unwatch client h))"
    using w t by (auto simp: cmd_unwatch_def txn_ok_def intro!: handler_inv_reg [OF assms] watch_inv_ops)
  show "handler_inv (on_reg (set_dirty c) h)"
    using w t by (auto simp: txn_ok_def intro!: handler_inv_reg [OF assms] watch_inv_ops)
  show "handler_inv (on_reg (add_to_txn client c b) h)" if "queueable c"
    using w t that
    by (intro handler_inv_reg [OF assms]) (auto simp: txn_ok_def add_to_txn_def split: option.splits)
qed

section \<open>Dispatch and execution\<close>

lemma inv_dispatch:
  assumes "handler_inv h" and "\<And>h. handler_inv h \<Longrightarrow> handler_inv (fst (exec client h))"
  shows "handler_inv (fst (dispatch X exec c client ep h))"
  by (cases c)
    (simp_all add: dispatch_def assms inv_blpop inv_psync inv_subscribe inv_unsubscribe inv_acl inv_auth
      inv_txn_cmds set_cmd.handler_inv_run get_cmd.handler_inv_run incr_cmd.handler_inv_run
      rpush_cmd.handler_inv_run lpush_cmd.handler_inv_run lpop_cmd.handler_inv_run
      xadd_cmd.handler_inv_run zadd_cmd.handler_inv_run zrem_cmd.handler_inv_run
      geoadd_cmd.handler_inv_run setbit_cmd.handler_inv_run bitop_cmd.handler_inv_run
      handler_inv_requests [OF requests_xread] handler_inv_requests [OF requests_publish]
      handler_inv_requests [OF requests_wait] handler_inv_requests [OF requests_replconf])

lemma inv_count_bytes: "handler_inv h \<Longrightarrow> handler_inv (count_bytes n h)"
  by (simp add: handler_inv_def count_bytes_def host_add_inv pubsub_inv_def)

lemma inv_broadcast: "handler_inv h \<Longrightarrow> handler_inv (broadcast b h)"
proof -
  assume "handler_inv h"
  then have "handler_inv (h\<lparr>h_aof := a\<rparr>)" for a by (simp add: handler_inv_def pubsub_inv_def)
  then show "handler_inv (broadcast b h)"
    by (simp add: broadcast_def Let_def handler_inv_requests [OF requests_fold_push])
qed

lemma inv_after_ok: "handler_inv h \<Longrightarrow> handler_inv (fst (after_ok c b m s r h))"
proof -
  assume "handler_inv h"
  then have "handler_inv (h\<lparr>h_flag_list := x, h_flag_stream := y\<rparr>)" for x y
    by (simp add: handler_inv_def pubsub_inv_def)
  then show "handler_inv (fst (after_ok c b m s r h))"
    by (simp add: after_ok_def Let_def inv_broadcast inv_count_bytes)
qed

lemma inv_execute_with:
  assumes "handler_inv h" and "\<And>h. handler_inv h \<Longrightarrow> handler_inv (fst (exec client h))"
  shows "handler_inv (fst (execute_with X exec c b client ep s h))"
proof -
  have b: "handler_inv (before_cmd c b m h)" for m
    using assms(1) by (simp add: before_cmd_def Let_def inv_txn_cmds inv_count_bytes)
  obtain h1 r where d: "dispatch X exec c client ep (before_cmd c b (is_master client (h_table h)) h) = (h1, r)"
    by fastforce
  have "handler_inv (fst (dispatch X exec c client ep (before_cmd c b (is_master client (h_table h)) h)))"
    by (rule inv_dispatch [OF b]) (rule assms(2))
  with d have "handler_inv h1" by simp
  then show ?thesis
    using assms(1) d
    by (auto simp: execute_with_def Let_def inv_after_ok after_err_def inv_count_bytes
        split: result.split option.split)
qed

lemma inv_run_queue:
  assumes "\<And>c b h. handler_inv h \<Longrightarrow> handler_inv (fst (ex c b h))"
  shows "handler_inv h \<Longrightarrow> handler_inv (fst (run_queue ex q h))"
proof (induction q arbitrary: h)
  case (Cons x q)
  obtain c b where cb: "x = (c, b)" by (cases x)
  obtain h1 r where e: "ex c b h = (h1, r)" by fastforce
  with assms [OF Cons.prems, of c b] have "handler_inv h1" by simp
  with Cons.IH [OF this] cb e show ?case by (cases r) (auto simp: case_prod_beta)
qed simp

lemma inv_exec_with:
  assumes "handler_inv h" and "\<And>c b h. handler_inv h \<Longrightarrow> handler_inv (fst (ex c b h))"
  shows "handler_inv (fst (exec_with ex client h))"
proof -
  have d: "handler_inv (drain_txn client h)"
    unfolding drain_txn_def
    using assms(1) by (intro handler_inv_reg) (auto simp: handler_inv_def txn_ok_def)
  show ?thesis
  proof (cases "hm_get (rg_txn (h_reg h)) client")
    case (Some q)
    obtain h1 r where q: "run_queue ex q (drain_txn client h) = (h1, r)" by fastforce
    have "handler_inv (fst (run_queue ex q (drain_txn client h)))"
      by (rule inv_run_queue [OF _ d]) (rule assms(2))
    with q have "handler_inv h1" by simp
    with Some q assms(1) show ?thesis
      by (auto simp: exec_with_def inv_close_txn split: result.split)
  qed (simp add: exec_with_def assms(1))
qed

lemma inv_execute: "handler_inv h \<Longrightarrow> handler_inv (fst (execute n X c b client ep s h))"
proof (induction n arbitrary: c b client ep s h)
  case 0
  then show ?case by (auto intro!: inv_execute_with inv_exec_with)
next
  case (Suc n)
  then show ?case by (auto intro!: inv_execute_with inv_exec_with)
qed

lemma inv_cmd_exec: "handler_inv h \<Longrightarrow> handler_inv (fst (cmd_exec X client h))"
  unfolding cmd_exec_def by (intro inv_exec_with inv_execute)

lemma fst_txn_answer [simp]: "fst (txn_answer hr) = fst hr"
  by (cases hr) (auto simp: txn_answer_def split: result.split option.split)

lemma inv_handle: "handler_inv h \<Longrightarrow> handler_inv (fst (handle X cr b client ep h))"
proof (cases cr)
  case (Ok c)
  assume inv: "handler_inv h"
  have "handler_inv (fst (execute 2 X c b client (Some ep) True h))" by (rule inv_execute [OF inv])
  moreover have "handler_inv (on_reg (add_to_txn client c b) h)" if "queueable c"
    by (rule inv_txn_cmds(6) [OF inv that])
  ultimately show ?thesis
    using Ok inv inv_cmd_exec [OF inv] inv_txn_cmds(2) [OF inv]
    by (cases c) (auto simp: handle_def queueable_def split: prod.splits result.splits)
qed (simp_all add: handle_def)

section \<open>Between the rounds\<close>

lemma requests_null_deadline [simp]: "only_requests h (null_deadline_task client ts h)"
  unfolding null_deadline_task_def by (intro requests_step) simp

lemma requests_deadline_task: "run_deadline_task e h = Ok h' \<Longrightarrow> only_requests h h'"
  by (cases e) (auto simp: run_deadline_task_def wait_deadline_task_def Let_def
      intro!: requests_step split: option.splits)

lemma requests_callback: "callback_deadline_expire h = Ok h' \<Longrightarrow> only_requests h h'"
proof -
  assume c: "callback_deadline_expire h = Ok h'"
  then obtain d ts where "get_nearest_deadline (h_reg h) = Some (d, ts)"
    by (auto simp: callback_deadline_expire_def split: option.splits)
  moreover obtain e h1 where r: "remove_request ts h = (e, h1)" by fastforce
  moreover have "only_requests h h1" using requests_steps(5) [of h ts] r by simp
  ultimately show ?thesis
    using c requests_deadline_task only_requests_trans
    by (auto simp: callback_deadline_expire_def split: option.splits)
qed

lemma requests_take: "only_requests h (snd (take_requests ts h))"
proof (induction ts arbitrary: h)
  case (Cons t ts)
  from only_requests_trans [OF requests_steps(5) Cons.IH] show ?case by (simp add: case_prod_beta)
qed simp

lemma inv_blpop_task: "handler_inv h \<Longrightarrow> handler_inv (blpop_backlog_task k client ts h)"
proof -
  assume "handler_inv h"
  then have p: "handler_inv (put_value k i (VList xs) h)" for i xs
    using handler_inv_data [OF only_data_put(2)] put_value_inv [of h "VList xs"]
    by (simp add: handler_inv_def)
  then have "handler_inv (snd (remove_request ts (push client b (put_value k i (VList xs) h))))" for i xs b
    using handler_inv_requests [OF requests_steps(5)] handler_inv_requests [OF requests_steps(1)] by blast
  with \<open>handler_inv h\<close> show ?thesis
    by (auto simp: blpop_backlog_task_def split: option.split store_value.split list.split)
qed

lemma requests_xread_task [simp]: "only_requests h (xread_backlog_task count ss client ts h)"
  by (auto simp: xread_backlog_task_def Let_def intro: requests_step)

lemma inv_backlog_task: "handler_inv h \<Longrightarrow> handler_inv (run_backlog_task e h)"
  by (cases e) (auto simp: run_backlog_task_def inv_blpop_task intro: handler_inv_requests [OF requests_xread_task])

lemma inv_backlog_tasks: "handler_inv h \<Longrightarrow> handler_inv (fold run_backlog_task es h)"
  by (induction es arbitrary: h) (auto simp: inv_backlog_task)

lemma handler_inv_flags [simp]:
  "handler_inv (h\<lparr>h_flag_list := x\<rparr>) = handler_inv h" "handler_inv (h\<lparr>h_flag_stream := x\<rparr>) = handler_inv h"
  "handler_inv (h\<lparr>h_aof := a\<rparr>) = handler_inv h" "handler_inv (h\<lparr>h_queue := q\<rparr>) = handler_inv h"
  by (simp_all add: handler_inv_def pubsub_inv_def)

lemma inv_serve:
  assumes "handler_inv h"
  shows "handler_inv (serve_backlog_list h)" "handler_inv (serve_backlog_stream h)"
  using assms handler_inv_requests [OF requests_take]
  by (auto simp: serve_backlog_list_def serve_backlog_stream_def case_prod_beta inv_backlog_tasks)

lemma inv_flush: "handler_inv h \<Longrightarrow> handler_inv (fst (handler_aof_flush h))"
  by (auto simp: handler_aof_flush_def split: option.split prod.split)

lemma inv_new: "states_inv st \<Longrightarrow> handler_inv (handler_new st cf clk a)"
  by (simp add: handler_inv_def handler_new_def registry_new_def watch_inv_def txn_ok_def pubsub_inv_def
      no_empty_queue_def auth_inv_new table_inv_new)

section \<open>Everything that can happen to the handler\<close>

text \<open>
  The calls the event loop makes, in any order: commands of any client, expired deadlines,
  service of blocked clients, the flush of the append-only file and of the replies, a new
  connection and a lost one.
\<close>

inductive handler_step :: "externals \<Rightarrow> cmd_handler \<Rightarrow> cmd_handler \<Rightarrow> bool" for X where
  Command: "handler_step X h (fst (handle X cr b client ep h))"
| Deadline: "callback_deadline_expire h = Ok h' \<Longrightarrow> handler_step X h h'"
| ServeList: "handler_step X h (serve_backlog_list h)"
| ServeStream: "handler_step X h (serve_backlog_stream h)"
| Flush: "handler_step X h (fst (handler_aof_flush h))"
| Drain: "handler_step X h (h\<lparr>h_queue := []\<rparr>)"
| Connect: "handler_step X h (h\<lparr>h_auth := fst (authenticate (x_hash X) client None None (h_auth h))\<rparr>)"
| Disconnect: "handler_step X h (h\<lparr>h_auth := remove_auth client (h_auth h), h_table := ct_remove_client client (h_table h)\<rparr>)"

inductive_cases handler_stepE [elim!]: "handler_step X h h'"

lemma handler_step_inv: "handler_step X h h' \<Longrightarrow> handler_inv h \<Longrightarrow> handler_inv h'"
proof (induction rule: handler_step.induct)
  case (Deadline h h')
  then show ?case using handler_inv_requests requests_callback by blast
next
  case (Connect h client)
  then show ?case using auth_inv_authenticate [of "h_auth h" "x_hash X" client None None]
    by (simp add: handler_inv_def pubsub_inv_def)
next
  case (Disconnect h client)
  then show ?case by (simp add: handler_inv_def pubsub_inv_def auth_inv_remove table_inv_ops)
qed (simp_all add: inv_handle inv_serve inv_flush)

lemma reachable_inv:
  assumes "(handler_step X)\<^sup>*\<^sup>* (handler_new st cf clk a) h" and "states_inv st"
  shows "handler_inv h"
  using assms(1)
proof (induction rule: rtranclp_induct)
  case base
  show ?case by (rule inv_new [OF assms(2)])
next
  case (step h h')
  from handler_step_inv [OF step(2,3)] show ?case .
qed

end
