(* ===== verification/ExecCorrect.thy ===== *)
theory ExecCorrect
  imports HandlerCorrect
begin

text \<open>
  What execution does, over the contract of the single commands: which key a command can
  change, transactions and watched keys, propagation to replicas and to the append-only file.
\<close>

section \<open>The key a command writes\<close>

definition written_key :: "cmd \<Rightarrow> string option" where
  "written_key c =
     (case c of
        CSET k _ _ \<Rightarrow> Some k | CRPUSH k _ \<Rightarrow> Some k | CLPUSH k _ \<Rightarrow> Some k | CLPOP k _ \<Rightarrow> Some k
      | CBLPOP k _ \<Rightarrow> Some k | CXADD k _ _ \<Rightarrow> Some k | CINCR k \<Rightarrow> Some k | CZADD k _ _ \<Rightarrow> Some k
      | CZREM k _ \<Rightarrow> Some k | CGEOADD k _ _ _ \<Rightarrow> Some k | CSETBIT k _ _ \<Rightarrow> Some k
      | CBITOP a \<Rightarrow> Some (bitop_dest a) | _ \<Rightarrow> None)"

lemma requests_look: "only_requests h h' \<Longrightarrow> look k h' = look k h"
  by (simp add: only_requests_def look_def)

lemma look_get_cmd [simp]: "look k (fst (cmd_get k' h)) = look k h"
  by (rule cmd_get_look)

lemma blpop_look: "k' \<noteq> k \<Longrightarrow> look k' (fst (cmd_blpop k t client h)) = look k' h"
proof -
  assume ne: "k' \<noteq> k"
  obtain ts d h1 where g: "get_deadline t h = ((ts, d), h1)" by (metis surj_pair)
  then have "look k' h1 = look k' h" by (rule requests_look [OF requests_deadline])
  moreover have "look k' (insert_request ts d e h1) = look k' h1" for e
    by (rule requests_look) simp
  ultimately show ?thesis
    using g ne by (auto simp: cmd_blpop_def Let_def split: option.split store_value.split)
qed

lemma look_subscribe_loops [simp]:
  "look k (fst (subscribe_more client ks h out)) = look k h"
  "look k (fst (subscribe_first client ks h out)) = look k h"
  by (induction ks arbitrary: h out) (auto simp: look_def Let_def)

lemma look_others [simp]:
  "look k (fst (cmd_psync X i n client h)) = look k h"
  "look k (fst (cmd_subscribe ks client h)) = look k h"
  "look k (fst (cmd_unsubscribe ch client h)) = look k h"
  "look k (fst (cmd_acl X a client h)) = look k h"
  "look k (fst (cmd_auth X u p client h)) = look k h"
  "look k (on_reg f h) = look k h" "look k (count_bytes m h) = look k h"
proof -
  show "look k (fst (cmd_subscribe ks client h)) = look k h"
    using look_subscribe_loops(1) [of k client ks h "[]"]
      look_subscribe_loops(2) [of k client ks "h\<lparr>h_subs := hs_insert client (h_subs h)\<rparr>" "[]"]
    by (auto simp: cmd_subscribe_def case_prod_beta) (simp add: look_def)
qed (auto simp: look_def cmd_psync_def cmd_unsubscribe_def Let_def cmd_acl_def cmd_acl_setuser_def
    cmd_auth_def on_reg_def count_bytes_def case_prod_beta
    split: result.split option.split cmd_arg.split)

lemma look_txn_cmds [simp]:
  "look k (fst (cmd_multi client h)) = look k h" "look k (fst (cmd_discard client h)) = look k h"
  "look k (fst (cmd_watch ks client h)) = look k h" "look k (fst (cmd_unwatch client h)) = look k h"
  by (simp_all add: cmd_multi_def cmd_discard_def cmd_watch_def cmd_unwatch_def close_txn_def)

definition no_exec :: "cmd \<Rightarrow> bool" where
  "no_exec c = (case c of CEXEC \<Rightarrow> False | _ \<Rightarrow> True)"

lemma queueable_no_exec: "queueable c \<Longrightarrow> no_exec c"
  by (cases c) (simp_all add: queueable_def no_exec_def)

lemma dispatch_look:
  "no_exec c \<Longrightarrow> written_key c \<noteq> Some k \<Longrightarrow> look k (fst (dispatch X ex c client ep h)) = look k h"
  by (cases c)
    (simp_all add: dispatch_def written_key_def no_exec_def blpop_look
      set_cmd.other_keys incr_cmd.other_keys rpush_cmd.other_keys lpush_cmd.other_keys
      lpop_cmd.other_keys xadd_cmd.other_keys zadd_cmd.other_keys zrem_cmd.other_keys
      geoadd_cmd.other_keys setbit_cmd.other_keys bitop_cmd.other_keys
      requests_look [OF requests_xread] requests_look [OF requests_publish]
      requests_look [OF requests_wait] requests_look [OF requests_replconf])

lemma look_broadcast [simp]: "look k (broadcast b h) = look k h"
  by (simp add: broadcast_def Let_def requests_look [OF requests_fold_push]) (simp add: look_def)

lemma look_after_ok [simp]: "look k (fst (after_ok c b m s r h)) = look k h"
  by (simp add: after_ok_def Let_def) (simp add: look_def)

lemma look_before_cmd [simp]: "look k (before_cmd c b m h) = look k h"
  by (simp add: before_cmd_def Let_def)

lemma execute_with_look:
  assumes "no_exec c" and "written_key c \<noteq> Some k"
  shows "look k (fst (execute_with X ex c b client ep s h)) = look k h"
proof -
  obtain h1 r where d: "dispatch X ex c client ep (before_cmd c b (is_master client (h_table h)) h) = (h1, r)"
    by fastforce
  then have "look k h1 = look k h"
    using dispatch_look [OF assms, of X ex client ep "before_cmd c b (is_master client (h_table h)) h"] by simp
  with d show ?thesis
    by (auto simp: execute_with_def Let_def after_err_def split: result.split option.split)
qed

lemma execute_look:
  assumes "no_exec c" and "written_key c \<noteq> Some k"
  shows "look k (fst (execute n X c b client ep s h)) = look k h"
  by (cases n) (simp_all add: execute_with_look [OF assms])

section \<open>The levels of execution\<close>

lemma dispatch_no_exec: "no_exec c \<Longrightarrow> dispatch X ex c client ep h = dispatch X ex' c client ep h"
  by (cases c) (simp_all add: dispatch_def no_exec_def)

lemma execute_with_no_exec:
  "no_exec c \<Longrightarrow> execute_with X ex c b client ep s h = execute_with X ex' c b client ep s h"
  unfolding execute_with_def by (simp only: dispatch_no_exec [of c X ex client ep _ ex'])

lemma execute_level: "no_exec c \<Longrightarrow> execute n X c b client ep s h = execute m X c b client ep s h"
  by (cases n; cases m) (simp_all add: execute_with_no_exec)

lemma run_queue_cong:
  "(\<And>c b h. (c, b) \<in> set q \<Longrightarrow> ex c b h = ex' c b h) \<Longrightarrow> run_queue ex q h = run_queue ex' q h"
proof (induction q arbitrary: h)
  case (Cons x q)
  then show ?case by (cases x) (simp split: prod.split result.split)
qed simp

lemma txn_ok_queue:
  "txn_ok r \<Longrightarrow> hm_get (rg_txn r) cl = Some q \<Longrightarrow> (c, b) \<in> set q \<Longrightarrow> queueable c"
  by (fastforce simp: txn_ok_def list_all_iff)

lemma exec_with_level:
  assumes "txn_ok (h_reg h)"
  shows "exec_with (\<lambda>c b. execute n X c b cl ep s) client h = exec_with (\<lambda>c b. execute m X c b cl ep s) client h"
proof (cases "hm_get (rg_txn (h_reg h)) client")
  case (Some q)
  have "run_queue (\<lambda>c b. execute n X c b cl ep s) q h' = run_queue (\<lambda>c b. execute m X c b cl ep s) q h'" for h'
    using txn_ok_queue [OF assms Some] queueable_no_exec execute_level by (intro run_queue_cong) blast
  with Some show ?thesis by (simp add: exec_with_def)
qed (simp add: exec_with_def)

lemma txn_ok_before: "txn_ok (h_reg h) \<Longrightarrow> txn_ok (h_reg (before_cmd c b m h))"
  by (simp add: before_cmd_def count_bytes_def on_reg_def txn_ok_def Let_def)

lemma execute_levels:
  assumes "txn_ok (h_reg h)"
  shows "execute (Suc n) X c b client ep s h = execute 2 X c b client ep s h"
proof (cases "no_exec c")
  case True
  then show ?thesis by (rule execute_level)
next
  case False
  then have c: "c = CEXEC" by (cases c) (simp_all add: no_exec_def)
  have "dispatch X (\<lambda>cl. exec_with (\<lambda>c b. execute n X c b cl None False) cl) c client ep (before_cmd c b m h) =
      dispatch X (\<lambda>cl. exec_with (\<lambda>c b. execute (Suc 0) X c b cl None False) cl) c client ep (before_cmd c b m h)" for m
    using exec_with_level [OF txn_ok_before [OF assms], where n = n and m = "Suc 0"] by (simp add: dispatch_def c)
  then show ?thesis unfolding numeral_2_eq_2 execute.simps execute_with_def Let_def by simp
qed

text \<open>In every state the handler can get into, EXEC nests once, for no queue ever holds an EXEC.\<close>

lemma reachable_levels:
  assumes "(handler_step X)\<^sup>*\<^sup>* (handler_new st cf clk a) h" and "states_inv st"
  shows "execute (Suc n) X c b client ep s h = execute 2 X c b client ep s h"
    and "hm_get (rg_txn (h_reg h)) cl = Some q \<Longrightarrow> CEXEC \<notin> fst ` set q"
proof -
  have t: "txn_ok (h_reg h)" using reachable_inv [OF assms] by (simp add: handler_inv_def)
  then show "execute (Suc n) X c b client ep s h = execute 2 X c b client ep s h" by (rule execute_levels)
  show "hm_get (rg_txn (h_reg h)) cl = Some q \<Longrightarrow> CEXEC \<notin> fst ` set q"
    using txn_ok_queue [OF t] by (fastforce simp: queueable_def)
qed

section \<open>Transactions\<close>

lemma run_queue_state:
  "run_queue ex q h = (h', Ok rs) \<Longrightarrow> h' = fold (\<lambda>(c, b) h. fst (ex c b h)) q h"
proof (induction q arbitrary: h rs)
  case (Cons x q)
  obtain c b where x: "x = (c, b)" by (cases x)
  obtain h1 r where e: "ex c b h = (h1, r)" by fastforce
  obtain h2 rs2 where q2: "run_queue ex q h1 = (h2, rs2)" by fastforce
  from Cons.prems x e q2 have "h2 = h'" "\<exists>rs'. rs2 = Ok rs'"
    by (auto split: result.splits simp: rbind_Ok_iff)
  with Cons.IH q2 x e show ?case by auto
qed simp

lemma cmd_exec_runs:
  assumes "hm_get (rg_txn (h_reg h)) client = Some q" and "\<not> is_any_dirty client (h_reg h)"
    and "snd (cmd_exec X client h) \<noteq> Panic"
  shows "fst (cmd_exec X client h) = close_txn client
      (fold (\<lambda>(c, b) h. fst (execute 1 X c b client None False h)) q (drain_txn client h))"
proof -
  obtain h1 r where q: "run_queue (\<lambda>c b. execute 1 X c b client None False) q (drain_txn client h) = (h1, r)"
    by fastforce
  with assms obtain rs where "r = Ok rs"
    by (cases r) (auto simp: cmd_exec_def exec_with_def simp del: One_nat_def)
  with q run_queue_state [of "\<lambda>c b. execute 1 X c b client None False" q "drain_txn client h" h1 rs] assms
  show ?thesis by (simp add: cmd_exec_def exec_with_def del: One_nat_def)
qed

lemma cmd_exec_dirty:
  assumes "hm_get (rg_txn (h_reg h)) client = Some q" and "is_any_dirty client (h_reg h)"
  shows "cmd_exec X client h = (close_txn client h, reply null_arr)"
  using assms by (simp add: cmd_exec_def exec_with_def)

lemma handle_queues:
  assumes "is_transaction client (h_reg h)" and "queueable c"
  shows "handle X (Ok c) b client ep h = (on_reg (add_to_txn client c b) h, Ok queued_reply)"
  using assms by (cases c) (simp_all add: handle_def queueable_def)

definition enter_all :: "externals \<Rightarrow> u64 \<Rightarrow> bool \<Rightarrow> (cmd \<times> bytes) list \<Rightarrow> cmd_handler \<Rightarrow> cmd_handler" where
  "enter_all X client ep cbs h = fold (\<lambda>(c, b) h. fst (handle X (Ok c) b client ep h)) cbs h"

text \<open>Entering commands changes the queue of the client and nothing else; each is answered QUEUED.\<close>

lemma hm_insert_again: "hm_insert k v (hm_insert k w m) = hm_insert k v m"
  by (induction m) auto

lemma hm_insert_same: "hm_get m k = Some v \<Longrightarrow> hm_insert k v m = m"
  by (induction m) (auto split: if_splits)

lemma enter_all_state:
  assumes "hm_get (rg_txn (h_reg h)) client = Some q" and "list_all (\<lambda>(c, _). queueable c) cbs"
  shows "enter_all X client ep cbs h = on_reg (\<lambda>r. r\<lparr>rg_txn := hm_insert client (q @ cbs) (rg_txn r)\<rparr>) h"
  using assms
proof (induction cbs arbitrary: h q)
  case Nil
  then show ?case by (simp add: enter_all_def on_reg_def hm_insert_same)
next
  case (Cons x cbs)
  obtain c b where x: "x = (c, b)" by (cases x)
  define h1 where "h1 = on_reg (add_to_txn client c b) h"
  have t: "is_transaction client (h_reg h)" using Cons.prems(1) by (simp add: is_transaction_def hm_contains_def)
  have "fst (handle X (Ok c) b client ep h) = h1"
    using handle_queues [OF t] Cons.prems(2) x by (simp add: h1_def)
  then have "enter_all X client ep (x # cbs) h = enter_all X client ep cbs h1" by (simp add: enter_all_def x)
  moreover have "hm_get (rg_txn (h_reg h1)) client = Some (q @ [(c, b)])"
    using Cons.prems(1) by (simp add: h1_def on_reg_def txn_of_add)
  ultimately show ?case
    using Cons.IH [of h1 "q @ [(c, b)]"] Cons.prems x
    by (simp add: h1_def on_reg_def add_to_txn_def hm_insert_again)
qed

fun enter_answers :: "externals \<Rightarrow> u64 \<Rightarrow> bool \<Rightarrow> (cmd \<times> bytes) list \<Rightarrow> cmd_handler \<Rightarrow> (bytes, bytes) result list" where
  "enter_answers X client ep [] h = []"
| "enter_answers X client ep ((c, b) # cbs) h =
     (case handle X (Ok c) b client ep h of (h1, r) \<Rightarrow> r # enter_answers X client ep cbs h1)"

lemma enter_all_queued:
  assumes "is_transaction client (h_reg h)" and "list_all (\<lambda>(c, _). queueable c) cbs"
  shows "enter_answers X client ep cbs h = replicate (length cbs) (Ok queued_reply)"
  using assms
proof (induction cbs arbitrary: h)
  case (Cons x cbs)
  obtain c b where x: "x = (c, b)" by (cases x)
  have "is_transaction client (h_reg (on_reg (add_to_txn client c b) h))"
    by (simp add: is_transaction_def hm_contains_def on_reg_def add_to_txn_def)
  from Cons.IH [OF this] Cons.prems x handle_queues [OF Cons.prems(1)] show ?case by simp
qed simp

lemma drain_entered:
  assumes "hm_get (rg_txn (h_reg h)) client = Some []" and "list_all (\<lambda>(c, _). queueable c) cbs"
  shows "drain_txn client (enter_all X client ep cbs h) = h"
  using enter_all_state [OF assms, of X ep] assms(1)
  by (simp add: drain_txn_def on_reg_def hm_insert_again hm_insert_same)

section \<open>What a write leaves alone\<close>

lemma dirty_is_write: "dirty_key c = Some k \<Longrightarrow> to_be_broadcast c"
  by (cases c) (simp_all add: dirty_key_def to_be_broadcast_def)

definition write_frame :: "cmd_handler \<Rightarrow> cmd_handler \<Rightarrow> bool" where
  "write_frame h h' \<longleftrightarrow> rg_watch (h_reg h') = rg_watch (h_reg h) \<and> rg_txn (h_reg h') = rg_txn (h_reg h) \<and>
     h_queue h' = h_queue h \<and> h_table h' = h_table h \<and> h_aof h' = h_aof h \<and>
     h_states h' = h_states h \<and> h_subs h' = h_subs h \<and> h_auth h' = h_auth h"

context keyed_command
begin

lemma run_write_frame: "write_frame h (fst (run h))"
  by (simp add: write_frame_def keeps)

end

lemma blpop_write_frame: "write_frame h (fst (cmd_blpop k t client h))"
  by (auto simp: write_frame_def cmd_blpop_def get_deadline_def tick_def Let_def insert_request_def on_reg_def
      put_value_def put_def split: option.split store_value.split)

lemma write_dispatch: "to_be_broadcast c \<Longrightarrow> write_frame h (fst (dispatch X ex c client ep h))"
  by (cases c)
    (simp_all add: to_be_broadcast_def dispatch_def blpop_write_frame
      set_cmd.run_write_frame incr_cmd.run_write_frame rpush_cmd.run_write_frame
      lpush_cmd.run_write_frame lpop_cmd.run_write_frame xadd_cmd.run_write_frame
      setbit_cmd.run_write_frame bitop_cmd.run_write_frame)

lemma before_fields [simp]:
  "h_queue (before_cmd c b m h) = h_queue h" "h_table (before_cmd c b m h) = h_table h"
  "h_auth (before_cmd c b m h) = h_auth h"
  "h_aof (before_cmd c b m h) = h_aof h" "h_subs (before_cmd c b m h) = h_subs h"
  "h_reg (before_cmd c b m h) = set_dirty c (h_reg h)"
  "h_flag_list (before_cmd c b m h) = h_flag_list h"
  by (simp_all add: before_cmd_def count_bytes_def on_reg_def Let_def)

lemma fold_push_all [simp]:
  "h_queue (fold (\<lambda>i. push i b) is h) = h_queue h @ map (\<lambda>i. (i, b)) is"
  "h_reg (fold (\<lambda>i. push i b) is h) = h_reg h" "h_aof (fold (\<lambda>i. push i b) is h) = h_aof h"
  "h_table (fold (\<lambda>i. push i b) is h) = h_table h" "h_states (fold (\<lambda>i. push i b) is h) = h_states h"
  "h_flag_list (fold (\<lambda>i. push i b) is h) = h_flag_list h"
  "h_flag_stream (fold (\<lambda>i. push i b) is h) = h_flag_stream h"
  by (induction "is" arbitrary: h) (simp_all add: push_def)

lemma broadcast_fields [simp]:
  "h_queue (broadcast b h) = h_queue h @ map (\<lambda>i. (i, b)) (list_slave (h_table h))"
  "h_reg (broadcast b h) = h_reg h" "h_aof (broadcast b h) = map_option (\<lambda>a. fst (aof_write b a)) (h_aof h)"
  "h_table (broadcast b h) = h_table h" "h_states (broadcast b h) = h_states h"
  "h_flag_list (broadcast b h) = h_flag_list h" "h_flag_stream (broadcast b h) = h_flag_stream h"
  by (simp_all add: broadcast_def Let_def)

lemma count_bytes_fields [simp]:
  "h_queue (count_bytes n h) = h_queue h" "h_reg (count_bytes n h) = h_reg h"
  "h_aof (count_bytes n h) = h_aof h" "h_table (count_bytes n h) = h_table h"
  "h_flag_list (count_bytes n h) = h_flag_list h" "h_flag_stream (count_bytes n h) = h_flag_stream h"
  "h_data (count_bytes n h) = h_data h"
  by (simp_all add: count_bytes_def)

lemma after_ok_reg [simp]: "h_reg (fst (after_ok c b m s r h)) = h_reg h"
  by (simp add: after_ok_def Let_def)

lemma execute_reg:
  assumes "\<not> (is_subscriber client h \<and> \<not> is_cmd_subscriber_allowed c)"
    and "host_stats (h_states h) \<noteq> None"
  shows "h_reg (fst (execute_with X ex c b client ep s h)) =
     h_reg (fst (dispatch X ex c client ep (before_cmd c b (is_master client (h_table h)) h)))"
proof -
  obtain h1 r where "dispatch X ex c client ep (before_cmd c b (is_master client (h_table h)) h) = (h1, r)"
    by fastforce
  with assms show ?thesis
    by (auto simp: execute_with_def Let_def stats_missing_def after_err_def split: result.split option.split)
qed

lemma subscriber_no_write: "to_be_broadcast c \<Longrightarrow> \<not> is_cmd_subscriber_allowed c"
  by (cases c) (simp_all add: to_be_broadcast_def is_cmd_subscriber_allowed_def)

lemma execute_suc_with:
  "\<exists>ex. execute n X c b client ep s h = execute_with X ex c b client ep s h"
  by (cases n) auto

section \<open>Watched keys\<close>

lemma execute_marks:
  assumes "dirty_key c = Some k" and "\<not> is_subscriber client h" and "host_stats (h_states h) \<noteq> None"
  shows "rg_watch (h_reg (fst (execute n X c b client ep s h))) = rg_watch (set_dirty c (h_reg h))"
    and "rg_txn (h_reg (fst (execute n X c b client ep s h))) = rg_txn (h_reg h)"
proof -
  obtain ex where e: "execute n X c b client ep s h = execute_with X ex c b client ep s h"
    using execute_suc_with by blast
  let ?h = "before_cmd c b (is_master client (h_table h)) h"
  have "write_frame ?h (fst (dispatch X ex c client ep ?h))"
    by (rule write_dispatch [OF dirty_is_write [OF assms(1)]])
  with e assms execute_reg [of client h c X ex b ep s]
  show "rg_watch (h_reg (fst (execute n X c b client ep s h))) = rg_watch (set_dirty c (h_reg h))"
    "rg_txn (h_reg (fst (execute n X c b client ep s h))) = rg_txn (h_reg h)"
    by (simp_all add: write_frame_def)
qed

text \<open>A client in a transaction that watches the key another client's command names.\<close>

lemma write_dirties:
  assumes "watches (h_reg h) client k \<noteq> None" and "dirty_key c = Some k"
    and "\<not> is_subscriber other h" and "host_stats (h_states h) \<noteq> None"
  shows "watches (h_reg (fst (execute n X c b other ep s h))) client k = Some True"
proof -
  have "watches (h_reg (fst (execute n X c b other ep s h))) client k = watches (set_dirty c (h_reg h)) client k"
    using execute_marks(1) [OF assms(2-4)] by (simp add: watches_def)
  with assms(1,2) show ?thesis by (auto simp: watches_set_dirty)
qed

lemma dirty_exec:
  assumes "hm_get (rg_txn (h_reg h)) client = Some q" and "watches (h_reg h) client k = Some True"
    and "watch_inv (h_reg h)"
  shows "handle X (Ok CEXEC) b client ep h = (close_txn client h, Ok (ser null_arr))"
proof -
  have "is_any_dirty client (h_reg h)" using assms(2,3) is_any_dirty_iff by blast
  moreover have "is_transaction client (h_reg h)" using assms(1) by (simp add: is_transaction_def hm_contains_def)
  ultimately show ?thesis
    using cmd_exec_dirty [OF assms(1), of X]
    by (simp add: handle_def txn_answer_def reply_def serialize_ok)
qed

end
