(* ===== verification/WriteCorrect.thy ===== *)
theory WriteCorrect
  imports ExecCorrect
begin

text \<open>
  Propagation: what a write sends to the replicas and to the append-only file, how the
  replication offset counts, what a command of the master answers, and when blocked clients
  are served.
\<close>

section \<open>The three outcomes of a command\<close>

lemma execute_cases:
  assumes "\<not> (is_subscriber client h \<and> \<not> is_cmd_subscriber_allowed c)"
    and "host_stats (h_states h) \<noteq> None"
  obtains (ok) h1 r where
      "execute n X c b client ep s h = after_ok c b (is_master client (h_table h)) s r h1"
      "\<exists>ex. dispatch X ex c client ep (before_cmd c b (is_master client (h_table h)) h) = (h1, Ok (Some r))"
  | (quiet) h1 where "execute n X c b client ep s h = (h1, Ok CoNone)"
      "\<exists>ex. dispatch X ex c client ep (before_cmd c b (is_master client (h_table h)) h) = (h1, Ok None)"
  | (error) h1 e where
      "execute n X c b client ep s h = after_err b (is_master client (h_table h)) s e h1"
      "\<exists>ex. dispatch X ex c client ep (before_cmd c b (is_master client (h_table h)) h) = (h1, Err e)"
  | (panic) h1 where "execute n X c b client ep s h = (h1, Panic)"
      "\<exists>ex. dispatch X ex c client ep (before_cmd c b (is_master client (h_table h)) h) = (h1, Panic)"
proof -
  obtain ex where e: "execute n X c b client ep s h = execute_with X ex c b client ep s h"
    using execute_suc_with by blast
  obtain h1 r where d: "dispatch X ex c client ep (before_cmd c b (is_master client (h_table h)) h) = (h1, r)"
    by fastforce
  have "execute n X c b client ep s h =
      (case r of Ok (Some r) \<Rightarrow> after_ok c b (is_master client (h_table h)) s r h1
       | Ok None \<Rightarrow> (h1, Ok CoNone) | Err e \<Rightarrow> after_err b (is_master client (h_table h)) s e h1
       | Panic \<Rightarrow> (h1, Panic))"
    using e d assms by (auto simp: execute_with_def Let_def stats_missing_def split: result.split option.split)
  then show thesis
    using d ok quiet error panic by (cases r) (fastforce split: option.splits)+
qed

lemma after_ok_out:
  "snd (after_ok c b m s r h) = Ok out \<Longrightarrow> out \<noteq> CoNone \<Longrightarrow> \<not> m \<or> always_response c"
  by (auto simp: after_ok_def Let_def split: if_splits)

lemma after_ok_not_err: "snd (after_ok c b m s r h) \<noteq> Err e"
  by (auto simp: after_ok_def Let_def split: result.split)

section \<open>Writes of clients\<close>

definition fed :: "bytes \<Rightarrow> cmd_handler \<Rightarrow> cmd_handler \<Rightarrow> bool" where
  "fed b h h' \<longleftrightarrow> h_queue h' = h_queue h @ map (\<lambda>i. (i, b)) (list_slave (h_table h)) \<and>
     h_aof h' = map_option (\<lambda>a. fst (aof_write b a)) (h_aof h) \<and>
     h_states h' = host_add_bytes_count (int (length b)) (h_states h)"

lemma before_states_write:
  "to_be_broadcast c \<Longrightarrow> \<not> m \<Longrightarrow>
   h_states (before_cmd c b m h) = host_add_bytes_count (int (length b)) (h_states h)"
  by (simp add: before_cmd_def count_bytes_def on_reg_def Let_def)

lemma write_success:
  assumes "handler_inv h" and "to_be_broadcast c" and "\<not> is_master client (h_table h)"
    and "snd (execute n X c b client ep s h) = Ok out" and "out \<noteq> CoNone"
  shows "fed b h (fst (execute n X c b client ep s h))"
proof (cases "is_subscriber client h")
  case True
  obtain ex where "execute n X c b client ep s h = execute_with X ex c b client ep s h"
    using execute_suc_with by blast
  with True subscriber_no_write [OF assms(2)] assms(4) show ?thesis by (simp add: execute_with_def Let_def)
next
  case False
  have st: "host_stats (h_states h) \<noteq> None"
    using assms(1) by (auto simp: handler_inv_def states_inv_def split: option.splits)
  from False have "\<not> (is_subscriber client h \<and> \<not> is_cmd_subscriber_allowed c)" by simp
  from this st show ?thesis
  proof (cases rule: execute_cases [where n = n and X = X and b = b and ep = ep and s = s])
    case (ok h1 r)
    from ok(2) obtain ex where
      d: "dispatch X ex c client ep (before_cmd c b (is_master client (h_table h)) h) = (h1, Ok (Some r))" ..
    from write_dispatch [OF assms(2), of _ X ex client ep] have
      "write_frame (before_cmd c b (is_master client (h_table h)) h) h1" by (metis d fst_conv)
    with ok assms(2,3) before_states_write [OF assms(2,3), of b h]
    show ?thesis by (simp add: write_frame_def fed_def after_ok_def Let_def)
  next
    case (error h1 e)
    with assms(4) show ?thesis by (simp add: after_err_def split: if_splits)
  qed (use assms(4,5) in simp_all)
qed

text \<open>A failed write sends nothing, but has been counted.\<close>

lemma write_failure:
  assumes "handler_inv h" and "to_be_broadcast c" and "\<not> is_master client (h_table h)"
    and "\<not> is_subscriber client h" and "snd (execute n X c b client ep s h) = Err out"
  shows "h_queue (fst (execute n X c b client ep s h)) = h_queue h"
    and "h_aof (fst (execute n X c b client ep s h)) = h_aof h"
    and "h_states (fst (execute n X c b client ep s h)) = host_add_bytes_count (int (length b)) (h_states h)"
proof -
  have st: "host_stats (h_states h) \<noteq> None"
    using assms(1) by (auto simp: handler_inv_def states_inv_def split: option.splits)
  from assms(4) have "\<not> (is_subscriber client h \<and> \<not> is_cmd_subscriber_allowed c)" by simp
  from this st obtain h1 e where
    e: "execute n X c b client ep s h = after_err b (is_master client (h_table h)) s e h1" and
    d: "\<exists>ex. dispatch X ex c client ep (before_cmd c b (is_master client (h_table h)) h) = (h1, Err e)"
    using assms(5) after_ok_not_err
    by (cases rule: execute_cases [where n = n and X = X and b = b and ep = ep and s = s]) auto
  from d obtain ex where
    d: "dispatch X ex c client ep (before_cmd c b (is_master client (h_table h)) h) = (h1, Err e)" ..
  from write_dispatch [OF assms(2), of _ X ex client ep] have
    "write_frame (before_cmd c b (is_master client (h_table h)) h) h1" by (metis d fst_conv)
  with e assms(3) before_states_write [OF assms(2,3), of b h]
  show "h_queue (fst (execute n X c b client ep s h)) = h_queue h"
    "h_aof (fst (execute n X c b client ep s h)) = h_aof h"
    "h_states (fst (execute n X c b client ep s h)) = host_add_bytes_count (int (length b)) (h_states h)"
    by (simp_all add: write_frame_def after_err_def)
qed

section \<open>Commands of the master\<close>

lemma master_silent:
  assumes "is_master client (h_table h)" and "\<not> always_response c"
    and "snd (execute n X c b client ep s h) = Ok out"
  shows "out = CoNone"
proof -
  obtain ex where e: "execute n X c b client ep s h = execute_with X ex c b client ep s h"
    using execute_suc_with by blast
  obtain h1 r where "dispatch X ex c client ep (before_cmd c b True h) = (h1, r)" by fastforce
  with e assms show ?thesis
    by (auto simp: execute_with_def Let_def after_ok_def after_err_def split: if_splits result.splits option.splits)
qed

section \<open>Serving blocked clients\<close>

text \<open>
  A success of any other command takes the flag back that a push has raised, so that the
  next round serves nobody.
\<close>

lemma success_sets_flag:
  assumes "\<not> (is_subscriber client h \<and> \<not> is_cmd_subscriber_allowed c)"
    and "host_stats (h_states h) \<noteq> None"
    and "snd (execute n X c b client ep True h) = Ok out" and "out \<noteq> CoNone"
  shows "h_flag_list (fst (execute n X c b client ep True h)) = is_flag_list c"
  using assms
proof (cases rule: execute_cases [where n = n and X = X and b = b and ep = ep and s = True])
  case (ok h1 r)
  then show ?thesis by (simp add: after_ok_def Let_def)
next
  case (error h1 e)
  with assms(3) show ?thesis by (simp add: after_err_def split: if_splits)
qed (use assms(3,4) in simp_all)

lemma lost_wake_up:
  assumes "handler_inv h" and "\<not> is_subscriber client h" and "\<not> is_flag_list c"
    and "snd (execute n X c b client ep True h) = Ok out" and "out \<noteq> CoNone"
  shows "serve_backlog_list (fst (execute n X c b client ep True h)) = fst (execute n X c b client ep True h)"
proof -
  have "host_stats (h_states h) \<noteq> None"
    using assms(1) by (auto simp: handler_inv_def states_inv_def split: option.splits)
  with success_sets_flag [of client h c n X b ep out] assms show ?thesis
    by (simp add: serve_backlog_list_def)
qed

text \<open>BLPOP blocks whatever the list holds: a key nobody waits on has no queue at all.\<close>

lemma blpop_always_waits:
  assumes "handler_inv h" and "list_at k h = Some xs"
  shows "snd (cmd_blpop k t client h) = Ok None" and "list_at k (fst (cmd_blpop k t client h)) = Some xs"
proof -
  have "\<not> is_backlog_list_empty k (h_reg h)"
    using assms(1) by (auto simp: handler_inv_def no_empty_queue_def is_backlog_list_empty_def split: option.splits)
  from cmd_blpop_waits [OF assms(2) this]
  show "snd (cmd_blpop k t client h) = Ok None" "list_at k (fst (cmd_blpop k t client h)) = Some xs" .
qed

section \<open>Between the rounds\<close>

lemma callback_without_deadline:
  "rg_deadline (h_reg h) = [] \<Longrightarrow> callback_deadline_expire h = Panic"
  by (simp add: callback_deadline_expire_def get_nearest_deadline_def bt_first_def)

lemma served_not_propagated:
  "h_aof (blpop_backlog_task k client ts h) = h_aof h \<and>
   (\<forall>i b. (i, b) \<in> set (h_queue (blpop_backlog_task k client ts h)) \<longrightarrow> (i, b) \<in> set (h_queue h) \<or> i = client)"
  by (auto simp: blpop_backlog_task_def remove_request_def tick_def push_def put_value_def put_def
      case_prod_beta split: option.splits store_value.splits list.splits)

section \<open>A whole transaction\<close>

lemma inv_fresh: "handler_inv (fresh_master clk)"
  unfolding fresh_master_def
  by (rule inv_new) (simp add: states_inv_def start_bytes_count_def repl_stats_new_def i64_range_def)

lemma inv_put: "handler_inv h \<Longrightarrow> value_inv (item_value i) \<Longrightarrow> handler_inv (put k i h)"
  by (simp add: handler_inv_def pubsub_inv_def put_def store_inv_insert)

lemma handle_exec:
  assumes "hm_get (rg_txn (h_reg h)) client = Some q"
  shows "handle X (Ok CEXEC) b client ep h = txn_answer (cmd_exec X client h)"
  using assms by (simp add: handle_def is_transaction_def hm_contains_def)

lemma transaction_runs:
  assumes "hm_get (rg_txn (h_reg h)) client = Some []" and "\<not> is_any_dirty client (h_reg h)"
    and "list_all (\<lambda>(c, _). queueable c) cbs"
    and "snd (handle X (Ok CEXEC) b client ep (enter_all X client ep' cbs h)) \<noteq> Panic"
  shows "fst (handle X (Ok CEXEC) b client ep (enter_all X client ep' cbs h)) =
    close_txn client (fold (\<lambda>(c, b) h. fst (execute 1 X c b client None False h)) cbs h)"
proof -
  let ?h = "enter_all X client ep' cbs h"
  have q: "hm_get (rg_txn (h_reg ?h)) client = Some cbs" and d: "is_any_dirty client (h_reg ?h) = is_any_dirty client (h_reg h)"
    using enter_all_state [OF assms(1,3), of X ep'] by (simp_all add: on_reg_def is_any_dirty_def)
  have "snd (cmd_exec X client ?h) \<noteq> Panic"
    using assms(4) unfolding handle_exec [OF q] by (cases "cmd_exec X client ?h") (auto simp: txn_answer_def)
  from cmd_exec_runs [OF q _ this] d assms(2) drain_entered [OF assms(1,3), of X ep'] show ?thesis
    unfolding handle_exec [OF q] by simp
qed

text \<open>The commands on sorted sets are writes that go nowhere: neither queued nor logged nor counted.\<close>

lemma sorted_sets_not_propagated:
  assumes "c = CZADD k s m \<or> c = CZREM k m \<or> c = CGEOADD k x y m"
    and "\<not> is_subscriber client h" and "\<not> is_master client (h_table h)" and "host_stats (h_states h) \<noteq> None"
  shows "h_queue (fst (execute n X c b client ep sr h)) = h_queue h \<and>
    h_aof (fst (execute n X c b client ep sr h)) = h_aof h \<and>
    h_states (fst (execute n X c b client ep sr h)) = h_states h"
proof -
  have nb: "\<not> to_be_broadcast c" using assms(1) by (auto simp: to_be_broadcast_def)
  let ?g = "before_cmd c b False h"
  have m: "is_master client (h_table h) = False" using assms(3) by simp
  have "h_states ?g = h_states h" using nb by (simp add: before_cmd_def on_reg_def Let_def)
  then have g: "h_queue ?g = h_queue h" "h_aof ?g = h_aof h" "h_states ?g = h_states h" by simp_all
  have d: "only_data ?g (fst (dispatch X ex c client ep ?g))" for ex
    using assms(1) zadd_cmd.data_only zrem_cmd.data_only geoadd_cmd.data_only
    by (elim disjE) (simp_all add: dispatch_def)
  have k: "h_queue h1 = h_queue h" "h_aof h1 = h_aof h" "h_states h1 = h_states h"
    if "dispatch X ex c client ep ?g = (h1, r)" for ex h1 r
    using only_dataD(2,5,8) [OF d [of ex]] g that by simp_all
  have "\<not> (is_subscriber client h \<and> \<not> is_cmd_subscriber_allowed c)" using assms(2) by simp
  from this assms(4) show ?thesis
  proof (cases rule: execute_cases [where n = n and X = X and b = b and ep = ep and s = sr])
    case (ok h1 v)
    then obtain ex where "dispatch X ex c client ep ?g = (h1, Ok (Some v))" by (auto simp: m)
    note k [OF this]
    with ok(1) nb show ?thesis by (simp add: m after_ok_def Let_def)
  next
    case (quiet h1)
    with k show ?thesis by (auto simp: m)
  next
    case (error h1 e)
    then obtain ex where "dispatch X ex c client ep ?g = (h1, Err e)" by (auto simp: m)
    note k [OF this]
    with error(1) show ?thesis by (simp add: m after_err_def)
  next
    case (panic h1)
    with k show ?thesis by (auto simp: m)
  qed
qed

end
