(* ===== verification/ClientCorrect.thy ===== *)
theory ClientCorrect
  imports Client CmdCorrect WriteCorrect
begin

text \<open>
  What a connection does: commands of clients that have not authenticated, the RDB file of the
  full resynchronisation, and the handshake of a replica with a master of this program.
\<close>

section \<open>The parser on an RDB file\<close>

lemma parse_step_header_rdb: "status p = StHeader \<Longrightarrow> parse_step rdb p = parse_step False p"
  by (simp add: parse_step_def pop_completed_def Let_def split: prod.split)

lemma step_rdb_bytes:
  assumes "b \<noteq> []" and "length b < 2 ^ 64"
  shows "parse_step True (at_start (b @ r) [RDB None] (StRDB (length b))) =
    Continue (at_start r [RDB (Some b)] StType)"
proof -
  let ?p = "at_start (b @ r) [RDB None] StType"
  have "read_bytes (length b) True ?p = (Ok (Some (OutBytes b)), ?p\<lparr>buf_cur := length b\<rparr>)"
    using assms(2)
    by (simp add: read_bytes_def read_total_def read_cursor_def read_token_def at_start_def
        usize_add_def usize_sub_def wrap_usize_def slice_def Let_def)
  then have "parse_rdb (length b) ?p = Continue (at_start r [RDB (Some b)] StType)"
    by (simp add: parse_rdb_def deliver_def drain_till_buf_def)
      (simp add: at_start_def get_or_insert_def)
  then show ?thesis
    using assms(1) by (simp add: parse_step_def pop_completed_stable) (simp add: at_start_def Let_def)
qed

text \<open>\<open>rdb_frame\<close> is how a master sends the file: a length and no CR LF after the bytes.\<close>

definition rdb_frame :: "bytes \<Rightarrow> bytes" where
  "rdb_frame b = ser (RDB (Some b))"

lemma step_type_rdb:
  "parse_step True (at_start (CHR ''$'' # b) [] StType) = Continue (after_prefix CHR ''$'' b [RDB None] StHeader)"
proof -
  have "pop_completed (at_start (CHR ''$'' # b) [] StType) = at_start (CHR ''$'' # b) [] StType"
    by (rule pop_completed_stable) (simp add: stable_def)
  then show ?thesis
    by (simp add: parse_step_def)
      (simp add: at_start_def after_prefix_def parse_type_def next_till_type_def match_prefix_def
        status_after_type_def)
qed

lemma step_header_rdb:
  assumes "n < 2 ^ 64"
  shows "parse_step True (after_prefix CHR ''$'' (show_nat n @ delimiter @ b) [RDB None] StHeader) =
    Continue (at_start b [RDB None] (StRDB n))"
proof -
  have "status (after_prefix CHR ''$'' (show_nat n @ delimiter @ b) [RDB None] StHeader) = StHeader"
    by (simp add: after_prefix_def)
  from parse_step_header_rdb [OF this, of True] step_header [OF _ assms, of "RDB None" "CHR ''$''" b "[]"]
  show ?thesis by (simp add: status_after_header_def)
qed

lemma parse_rdb_frame:
  assumes "b \<noteq> []" and "length b < 2 ^ 64"
  shows "parse True (at_start (rdb_frame b @ r) [] StType) =
    Some (Return ((at_start r [] StType)\<lparr>completed := [RDB (Some b)]\<rparr>))"
proof -
  have "rdb_frame b @ r = CHR ''$'' # show_nat (length b) @ delimiter @ b @ r" by (simp add: rdb_frame_def)
  then have "parse True (at_start (rdb_frame b @ r) [] StType) =
      parse True (after_prefix CHR ''$'' (show_nat (length b) @ delimiter @ b @ r) [RDB None] StHeader)"
    using parse_continue [OF step_type_rdb] by simp
  also have "\<dots> = parse True (at_start (b @ r) [RDB None] (StRDB (length b)))"
    by (rule parse_continue [OF step_header_rdb [OF assms(2)]])
  also have "\<dots> = parse True (at_start r [RDB (Some b)] StType)"
    by (rule parse_continue [OF step_rdb_bytes [OF assms]])
  also have "\<dots> = Some (Return ((at_start r [] StType)\<lparr>completed := [RDB (Some b)]\<rparr>))"
    by (subst parse.simps) (simp add: parse_step_def pop_completed_def at_start_def)
  finally show ?thesis .
qed

lemma parse_empty: "parse rdb (at_start [] [] StType) = Some (Return (at_start [] [] StType))"
  by (subst parse.simps) (simp add: parse_step_def pop_completed_def at_start_def)

section \<open>The loop, value by value\<close>

text \<open>A connection between two commands.\<close>

definition idle :: "tcp_client \<Rightarrow> bool" where
  "idle c \<longleftrightarrow> tc_parser c = new_parser \<and> \<not> tc_parse_rdb c"

lemma new_parser_at_start: "new_parser = at_start [] [] StType"
  by (simp add: new_parser_def at_start_def)

lemma serve_loop_value:
  assumes "parse (tc_parse_rdb c) (tc_parser c) = Some (Return ((at_start b [] StType)\<lparr>completed := [t]\<rparr>))"
    and "serve_value X t (c\<lparr>tc_parser := at_start b [] StType\<rparr>) h = ((c1, h1), Ok ())"
  shows "serve_loop X c h = serve_loop X c1 h1"
  using assms by (subst serve_loop.simps) (simp add: get_completed_def at_start_def)

lemma serve_loop_empty:
  assumes "tc_parser c = at_start [] [] StType"
  shows "serve_loop X c h = Some ((c, h), Ok ())"
proof -
  have "c\<lparr>tc_parser := at_start [] [] StType\<rparr> = c" using assms [symmetric] by simp
  moreover have "get_completed (at_start [] [] StType) = (None, at_start [] [] StType)"
    by (simp add: get_completed_def at_start_def)
  ultimately show ?thesis
    using assms by (subst serve_loop.simps) (simp add: parse_empty)
qed

lemma wf_ser_nonempty: "wf_resp t \<Longrightarrow> ser t \<noteq> []"
  by (cases t rule: wf_resp.cases) auto

text \<open>A value that arrives alone on an idle connection.\<close>

lemma read_value:
  assumes "idle c" and "wf_resp t" and "ser t \<noteq> []"
    and "serve_value X t c h = ((c1, h1), Ok ())"
  shows "read_socket X (Some (ser t)) c h = Some ((c1, h1), Ok ())"
proof -
  have c: "c\<lparr>tc_parser := at_start [] [] StType\<rparr> = c"
    using assms(1) by (simp add: idle_def new_parser_at_start [symmetric])
  have p: "feed_buf (ser t) (tc_parser c) = at_start (ser t) [] StType"
    using assms(1) by (simp add: idle_def at_start_new_parser)
  let ?c = "c\<lparr>tc_parser := feed_buf (ser t) (tc_parser c)\<rparr>"
  have "parse (tc_parse_rdb ?c) (tc_parser ?c) = Some (Return ((at_start [] [] StType)\<lparr>completed := [t]\<rparr>))"
    using parse_serialized [OF assms(2), of "[]"] assms(1) p by (simp add: idle_def)
  from serve_loop_value [OF this, of X h c1 h1] have "serve_loop X ?c h = serve_loop X c1 h1"
    using assms(4) c by simp
  moreover have "tc_parser c1 = at_start [] [] StType"
    using serve_value_parser [OF assms(4)] assms(1) by (simp add: idle_def new_parser_at_start)
  ultimately show ?thesis
    using assms(3) serve_loop_empty [of c1 X h1] by (auto simp: read_socket_def split: list.split)
qed

section \<open>Authentication comes first\<close>

lemma set_dirty_none: "dirty_key c = None \<Longrightarrow> set_dirty c r = r"
  by (simp add: set_dirty_def)

text \<open>What a successful AUTH changes, and what it has to name.\<close>

definition logged_in :: "externals \<Rightarrow> u64 \<Rightarrow> string \<Rightarrow> string \<Rightarrow> cmd_handler \<Rightarrow> cmd_handler \<Rightarrow> bool" where
  "logged_in X client u p h h' \<longleftrightarrow>
     (\<exists>cr. hm_get (au_credentials (h_auth h)) u = Some cr \<and> x_hash X p \<in> set (cr_passwords cr)) \<and>
     h' = h\<lparr>h_auth := (h_auth h)\<lparr>au_clients := hm_insert client u (au_clients (h_auth h))\<rparr>,
       h_flag_list := False, h_flag_stream := False\<rparr>"

lemma auth_command:
  assumes "\<not> is_transaction client (h_reg h)" and "\<not> is_subscriber client h"
    and "\<not> is_master client (h_table h)"
    and "handle X (Ok (CAUTH u p)) b client ep h = (h1, r)"
  shows "h1 = h \<or> logged_in X client u p h h1"
proof -
  have "before_cmd (CAUTH u p) b False h = h"
    by (simp add: before_cmd_def set_dirty_none dirty_key_def to_be_broadcast_def on_reg_def)
  moreover obtain h2 r2 where a: "cmd_auth X u p client h = (h2, r2)" by fastforce
  ultimately have h1: "h1 = fst (case r2 of Ok (Some v) \<Rightarrow> after_ok (CAUTH u p) b False True v h2
      | Ok None \<Rightarrow> (h2, Ok CoNone) | Err e \<Rightarrow> after_err b False True e h2 | Panic \<Rightarrow> (h2, Panic))"
    using assms
    by (auto simp: handle_def numeral_2_eq_2 execute_with_def Let_def stats_missing_def to_be_broadcast_def
        dispatch_def split: result.splits option.splits prod.splits)
  obtain a' q where au: "authenticate (x_hash X) client (Some u) (Some p) (h_auth h) = (a', q)" by fastforce
  show ?thesis
  proof (cases "q = Ok ()")
    case True
    with au obtain cr where "hm_get (au_credentials (h_auth h)) u = Some cr"
      "x_hash X p \<in> set (cr_passwords cr)"
      "a' = (h_auth h)\<lparr>au_clients := hm_insert client u (au_clients (h_auth h))\<rparr>"
      by (auto simp: authenticate_def check_password_def split: option.splits if_splits)
    moreover from True au a have "h2 = h\<lparr>h_auth := a'\<rparr>" "r2 = reply response_ok"
      by (auto simp: cmd_auth_def)
    ultimately show ?thesis
      using h1
      by (simp add: after_ok_def Let_def to_be_broadcast_def reply_def is_flag_list_def is_flag_stream_def logged_in_def)
  next
    case False
    with au authenticate_failed_unchanged [of "x_hash X" client "Some u" "Some p" "h_auth h"]
    have "a' = h_auth h" by simp
    with False au a have "h2 = h" "\<exists>e. r2 = Err e \<or> r2 = Panic"
      by (auto simp: cmd_auth_def split: result.splits)
    with h1 show ?thesis by (auto simp: after_err_def)
  qed
qed

lemma respond_unauthenticated:
  assumes "\<not> check_auth (tc_fd c) (h_auth h)" and "\<not> is_transaction (tc_fd c) (h_reg h)"
    and "\<not> is_subscriber (tc_fd c) h" and "\<not> is_master (tc_fd c) (h_table h)"
    and "rp_status (tc_repl c) \<noteq> Some Master"
    and "respond X cr b c h = ((c1, h1), r)"
  shows "h1 = h \<or> (\<exists>u p. cr = Ok (CAUTH u p) \<and> logged_in X (tc_fd c) u p h h1)"
proof (cases cr)
  case (Ok cd)
  show ?thesis
  proof (cases "is_auth_cmd cd")
    case True
    then obtain u p where cd: "cd = CAUTH u p" by (cases cd) (simp_all add: is_auth_cmd_def)
    with assms(5,6) Ok obtain r' where "handle X (Ok (CAUTH u p)) b (tc_fd c) True h = (h1, r')"
      by (auto simp: respond_def is_auth_cmd_def split: prod.splits)
    from auth_command [OF assms(2-4) this] Ok cd show ?thesis by simp
  qed (use assms Ok in \<open>simp add: respond_def\<close>)
qed (use assms(6) in \<open>simp_all add: respond_def handle_def\<close>)

lemma serve_unauthenticated:
  assumes "\<not> check_auth (tc_fd c) (h_auth h)" and "\<not> is_transaction (tc_fd c) (h_reg h)"
    and "\<not> is_subscriber (tc_fd c) h" and "\<not> is_master (tc_fd c) (h_table h)"
    and "rp_status (tc_repl c) \<noteq> Some Master"
    and "serve_value X t c h = ((c1, h1), r)"
  shows "h1 = h \<or> (\<exists>u p. from_resp t = Ok (CAUTH u p) \<and> logged_in X (tc_fd c) u p h h1)"
proof -
  obtain c2 h2 q where r: "respond X (from_resp t) (case serialize t of Ok b \<Rightarrow> b | _ \<Rightarrow> []) c h = ((c2, h2), q)"
    by (metis surj_pair)
  with assms(6) have "h1 = h \<or> h1 = h2"
    by (auto simp: serve_value_def split: result.splits prod.splits)
  with respond_unauthenticated [OF assms(1-5) r] show ?thesis by blast
qed

section \<open>The handshake\<close>

lemma from_resp_handshake:
  "from_resp (SimpleStr (Some ''PONG'')) = Ok CPONG" "from_resp (SimpleStr (Some ''OK'')) = Ok COK"
  by (simp_all add: from_resp_def from_simple_def)

lemma show_nat_no_space: "CHR '' '' \<notin> set (show_nat n)"
  by (auto dest!: show_nat_digits simp: is_digit_def)

lemma from_resp_fullresync:
  assumes "i64_range (rs_offset s)"
  shows "from_resp (SimpleStr (Some (fullresync_line s))) = Ok (CFULLRESYNC repl_id (max (rs_offset s) 0))"
proof -
  define off where "off = max (rs_offset s) 0"
  have r: "i64_range off" using assms by (simp add: off_def i64_range_def)
  have sh: "show_int off = show_nat (nat off)" by (simp add: off_def show_int_def)
  have "split_on CHR '' '' (''FULLRESYNC'' @ CHR '' '' # repl_id @ CHR '' '' # show_int off) =
      [''FULLRESYNC'', repl_id, show_int off]"
    by (subst split_on_append_sep, simp, subst split_on_append_sep, simp add: repl_id_def)
      (simp add: sh split_on_no_sep show_nat_no_space)
  then have "b_fullresync (''FULLRESYNC '' @ repl_id @ '' '' @ show_int off) = Ok (CFULLRESYNC repl_id off)"
    using parse_i64_show_int [OF r] by (simp add: b_fullresync_def)
  moreover have "str_prefix 10 (''FULLRESYNC '' @ x) = Some ''FULLRESYNC''" for x
    by (simp add: str_prefix_def in_range_def)
  ultimately show ?thesis
    by (simp add: from_resp_def from_simple_def fullresync_line_def off_def)
qed

lemma handshake_read:
  assumes "idle c" and "check_auth (tc_fd c) (h_auth h)" and "rp_status (tc_repl c) = Some Master"
    and "wf_resp t" and "ser t \<noteq> []" and "from_resp t = Ok cd"
    and "handshake_to_master X cd (ser t) c h = ((c1, h1), Ok v)" and "tc_stream c1 = []"
  shows "read_socket X (Some (ser t)) c h = Some ((c1\<lparr>tc_sent := tc_sent c1 @ v\<rparr>, h1), Ok ())"
  using assms(2-8)
  by (intro read_value [OF assms(1)])
    (simp_all add: serve_value_def serialize_ok wf_resp_serializable respond_def write_all_ok)

text \<open>The answer to PSYNC is one buffer: the line, then the file.\<close>

lemma psync_read:
  assumes "idle c" and "check_auth (tc_fd c) (h_auth h)" and "rp_status (tc_repl c) = Some Master"
    and "tc_hs c = HsPsync" and "host_stats (h_states h) \<noteq> None" and "tc_stream c = []"
    and "i64_range (rs_offset s)" and "rdb \<noteq> []" and "length rdb < 2 ^ 64"
  shows "\<exists>c1 h1. read_socket X (Some (ser (SimpleStr (Some (fullresync_line s))) @ rdb_frame rdb)) c h =
      Some ((c1, h1), Ok ()) \<and> tc_hs c1 = HsEstablished \<and> idle c1 \<and> is_master (tc_fd c) (h_table h1) \<and>
    h_data h1 = h_data h \<and> tc_sent c1 = tc_sent c"
proof -
  let ?t = "SimpleStr (Some (fullresync_line s))"
  let ?b = "at_start (rdb_frame rdb) [] StType" and ?e = "at_start [] [] StType"
  let ?c0 = "c\<lparr>tc_parser := at_start (ser ?t @ rdb_frame rdb) [] StType\<rparr>"
  define h1 where "h1 = h\<lparr>h_table := set_master (tc_fd c) (h_table h)\<rparr>"
  define c1 where "c1 = c\<lparr>tc_parser := ?b, tc_hs := HsEstablished, tc_parse_rdb := True\<rparr>"
  define c2 where "c2 = c1\<lparr>tc_parser := ?e, tc_parse_rdb := False\<rparr>"
  note idl = assms(1) [unfolded idle_def]
  have wf: "wf_resp ?t"
    using show_nat_no_cr [of "nat (max (rs_offset s) 0)"]
    by (auto simp: fullresync_line_def repl_id_def show_int_def utf8_valid_show_nat in_range_def)
  have "serve_value X ?t (c\<lparr>tc_parser := ?b\<rparr>) h = ((c1, h1), Ok ())"
    using assms(2-4,6) idl from_resp_fullresync [OF assms(7)]
    by (simp add: serve_value_def serialize_ok respond_def handshake_to_master_def is_fullresync_def
        write_all_ok c1_def h1_def)
  then have "serve_loop X ?c0 h = serve_loop X c1 h1"
    using parse_serialized [OF wf, of "rdb_frame rdb"] idl by (intro serve_loop_value) simp_all
  moreover have "serve_value X (RDB (Some rdb)) (c1\<lparr>tc_parser := ?e\<rparr>) h1 = ((c2, set_started h1), Ok ())"
    using assms(2,3,5,6) idl
    by (auto simp: serve_value_def respond_def handshake_to_master_def is_rdb_def is_fullresync_def
        from_resp_def b_rdb_def write_all_ok c1_def c2_def h1_def stats_of_def)
  then have "serve_loop X c1 h1 = serve_loop X c2 (set_started h1)"
    using parse_rdb_frame [OF assms(8,9), of "[]"] by (intro serve_loop_value) (simp_all add: c1_def)
  moreover have "serve_loop X c2 (set_started h1) = Some ((c2, set_started h1), Ok ())"
    by (rule serve_loop_empty) (simp add: c2_def)
  moreover have "feed_buf (ser ?t @ rdb_frame rdb) (tc_parser c) = tc_parser ?c0"
    using idl at_start_new_parser by simp
  moreover have "idle c2"
    using idl by (simp add: idle_def c2_def c1_def new_parser_at_start)
  ultimately show ?thesis
    by (intro exI [of _ c2] exI [of _ "set_started h1"])
      (simp add: read_socket_def c2_def c1_def h1_def set_started_def is_master_def set_master_def)
qed

text \<open>The four reads in a row, from the PING a new replica sends to the established link.\<close>

definition status_line :: "string \<Rightarrow> bytes" where
  "status_line s = ser (SimpleStr (Some s))"

definition handshake_sent :: "nat \<Rightarrow> bytes" where
  "handshake_sent port =
     concat (map (\<lambda>ws. ser (arr (map bulk ws)))
       [[''PING''], [''REPLCONF'', ''listening-port'', show_nat port], [''REPLCONF'', ''capa'', ''psync2''],
        [''PSYNC'', ''?'', ''-1'']])"

lemma psync_out:
  assumes "host_stats (h_states hm) = Some s" and "x_base64 Xm empty_rdb_b64 = Some rdb"
  shows "snd (cmd_psync Xm ''?'' (- 1) client hm) =
    reply (RBytes (Some (ser (SimpleStr (Some (fullresync_line s))) @ rdb_frame rdb)))"
  using assms by (simp add: cmd_psync_def stats_of_def rdb_frame_def)

lemma handshake_whole:
  assumes "check_auth fd (h_auth h)" and "host_stats (h_states h) = Some s0" and "rs_port s0 = Some port"
    and "i64_range (rs_offset s)" and "rdb \<noteq> []" and "length rdb < 2 ^ 64"
  shows "\<exists>c1 c2 c3 c4 h4.
    read_socket X (Some (status_line ''PONG'')) (init_handshake (client_new fd [])) h = Some ((c1, h), Ok ()) \<and>
    read_socket X (Some (status_line ''OK'')) c1 h = Some ((c2, h), Ok ()) \<and>
    read_socket X (Some (status_line ''OK'')) c2 h = Some ((c3, h), Ok ()) \<and>
    read_socket X (Some (ser (SimpleStr (Some (fullresync_line s))) @ rdb_frame rdb)) c3 h =
      Some ((c4, h4), Ok ()) \<and>
    tc_hs c4 = HsEstablished \<and> idle c4 \<and> is_master fd (h_table h4) \<and> h_data h4 = h_data h \<and>
    tc_sent c4 = handshake_sent port"
proof -
  define p1 where "p1 = ser (arr (map bulk [''REPLCONF'', ''listening-port'', show_nat port]))"
  define c0 where "c0 = init_handshake (client_new fd [])"
  define c1 where "c1 = c0\<lparr>tc_hs := HsReplconf1, tc_sent := tc_sent c0 @ p1\<rparr>"
  define c2 where "c2 = c1\<lparr>tc_hs := HsReplconf2, tc_sent := tc_sent c1 @ get_replconf2\<rparr>"
  define c3 where "c3 = c2\<lparr>tc_hs := HsPsync, tc_sent := tc_sent c2 @ get_psync c2\<rparr>"
  note cs = c3_def c2_def c1_def c0_def init_handshake_def client_new_def write_all_ok
  have wf: "wf_resp (SimpleStr (Some ''PONG''))" "wf_resp (SimpleStr (Some ''OK''))"
    by (simp_all add: in_range_def)
  have r1: "get_replconf1 h = Ok p1"
    using assms(2,3) by (simp add: get_replconf1_def stats_of_def p1_def built_eq arr_def numeral_3_eq_3)
  have "read_socket X (Some (status_line ''PONG'')) c0 h = Some ((c1, h), Ok ())"
    unfolding status_line_def c1_def
    using handshake_read [OF _ _ _ wf(1) _ from_resp_handshake(1), of c0 h X "c0\<lparr>tc_hs := HsReplconf1\<rparr>" h p1]
      assms(1) r1
    by (simp add: handshake_to_master_def idle_def cs)
  moreover have "read_socket X (Some (status_line ''OK'')) c1 h = Some ((c2, h), Ok ())"
    unfolding status_line_def c2_def
    using handshake_read [OF _ _ _ wf(2) _ from_resp_handshake(2), of c1 h X "c1\<lparr>tc_hs := HsReplconf2\<rparr>" h get_replconf2]
      assms(1)
    by (simp add: handshake_to_master_def idle_def cs)
  moreover have "read_socket X (Some (status_line ''OK'')) c2 h = Some ((c3, h), Ok ())"
    unfolding status_line_def c3_def
    using handshake_read [OF _ _ _ wf(2) _ from_resp_handshake(2), of c2 h X "c2\<lparr>tc_hs := HsPsync\<rparr>" h "get_psync c2"]
      assms(1)
    by (simp add: handshake_to_master_def idle_def cs)
  moreover obtain c4 h4 where
    "read_socket X (Some (ser (SimpleStr (Some (fullresync_line s))) @ rdb_frame rdb)) c3 h = Some ((c4, h4), Ok ())"
    "tc_hs c4 = HsEstablished" "idle c4" "is_master fd (h_table h4)" "h_data h4 = h_data h" "tc_sent c4 = tc_sent c3"
    using psync_read [of c3 h s rdb X] assms by (auto simp: idle_def cs)
  moreover have "tc_sent c3 = handshake_sent port"
    by (simp add: cs p1_def get_replconf2_def get_psync_def repl_state_new_def handshake_sent_def built_eq
        arr_def numeral_3_eq_3)
  ultimately show ?thesis unfolding c0_def by metis
qed

section \<open>A command in pieces\<close>

text \<open>
  \<open>read_bytes\<close> bounds its step by the length of the whole buffer. When a bulk string needs a
  third read, the cursor has often moved past the end of the second; if the third ends with
  the command, it does not wake the parser up.
\<close>

definition waiting :: "bytes \<Rightarrow> nat \<Rightarrow> resp_type list \<Rightarrow> nat \<Rightarrow> resp_parser" where
  "waiting b cur stk n =
     \<lparr>buf = b, buf_cur = cur, tmp_start = 0, stack = BulkStr n None # stk, completed = [], status = StBulk n\<rparr>"

lemma parse_return: "parse_step rdb p = Return p' \<Longrightarrow> parse rdb p = Some (Return p')"
  by (subst parse.simps) simp

lemma waiting_seen: "length b \<le> cur \<Longrightarrow> parse False (waiting b cur stk n) = Some (Return (waiting b cur stk n))"
  by (rule parse_return) (simp add: parse_step_def pop_completed_def waiting_def)

lemma waiting_step:
  assumes "cur < length b" and "n + 2 < 2 ^ 64"
    and "cur' = cur + min (n + 2 - cur) (length b)" and "cur' \<noteq> n + 2 \<or> length b < cur'"
  shows "parse_step False (waiting b cur stk n) = Continue (waiting b cur' stk n)"
proof -
  have m: "wrap_usize (n + 2) = n + 2" using assms(2) by (simp add: wrap_usize_def)
  have "read_bytes n False ((waiting b cur stk n)\<lparr>status := StType\<rparr>) =
      (Ok None, (waiting b cur' stk n)\<lparr>status := StType\<rparr>)"
    using assms m by (auto simp: read_bytes_def read_total_def read_cursor_def usize_add_def usize_sub_def
        waiting_def Let_def)
  then have "parse_bulk n ((waiting b cur stk n)\<lparr>status := StType\<rparr>) = Continue (waiting b cur' stk n)"
    by (simp add: parse_bulk_def waiting_def)
  with assms(1) show ?thesis
    by (auto simp: parse_step_def pop_completed_def waiting_def Let_def)
qed

text \<open>The words of a command before the last one.\<close>

definition words_header :: "resp_type list \<Rightarrow> bytes" where
  "words_header ys = ''*'' @ show_nat (length ys + 1) @ delimiter @ concat (map ser ys)"

definition bulk_header :: "nat \<Rightarrow> bytes" where
  "bulk_header n = CHR ''$'' # show_nat n @ delimiter"

lemma words_command: "words_header ys @ bulk_header (length s) @ s @ delimiter = ser (arr (ys @ [bulk s]))"
  by (simp add: words_header_def bulk_header_def arr_def bulk_def)

lemma parse_first_words:
  assumes "list_all wf_resp ys" and "length ys < n" and "n < 2 ^ 64"
  shows "parse False (at_start (''*'' @ show_nat n @ delimiter @ concat (map ser ys) @ b) [] StType) =
    parse False (at_start b [Array n (if ys = [] then None else Some ys)] StType)"
  using assms
proof (induction ys arbitrary: b rule: rev_induct)
  case Nil
  then show ?case using parse_array_header [of "[]" n b] by (simp add: stable_def)
next
  case (snoc y ys)
  let ?v = "if ys = [] then None else Some ys"
  have "parse False (at_start (''*'' @ show_nat n @ delimiter @ concat (map ser (ys @ [y])) @ b) [] StType) =
      parse False (at_start (ser y @ b) [Array n ?v] StType)"
    using snoc.IH [of "ser y @ b"] snoc.prems by simp
  also have "\<dots> = parse False (at_start b [y, Array n ?v] StType)"
    using snoc.prems by (intro parse_value) auto
  also have "\<dots> = parse False (at_start b [add_item (Array n ?v) y] StType)"
    using snoc.prems by (intro pop_into_array_last wf_resp_completed) simp
  finally show ?case by (simp split: if_splits)
qed

text \<open>A command in three reads that is never answered.\<close>

lemma fragmented_command:
  assumes "idle c" and "list_all wf_resp ys" and "length ys + 1 < 2 ^ 64" and "length s + 2 < 2 ^ 64"
    and "d1 @ d2 @ d3 = s @ delimiter" and "d1 \<noteq> []" and "d2 \<noteq> []" and "d3 \<noteq> []"
    and "length s + 2 \<le> 2 * length d1 + length d2"
  shows "\<exists>c1 c2 c3.
    read_socket X (Some (words_header ys @ bulk_header (length s) @ d1)) c h = Some ((c1, h), Ok ()) \<and>
    read_socket X (Some d2) c1 h = Some ((c2, h), Ok ()) \<and>
    read_socket X (Some d3) c2 h = Some ((c3, h), Ok ()) \<and> tc_sent c3 = tc_sent c"
proof -
  let ?n = "length s" and ?v = "if ys = [] then None else Some ys"
  let ?stk = "[Array (length ys + 1) ?v]"
  have len: "length d1 + length d2 + length d3 = ?n + 2"
    using arg_cong [OF assms(5), of length] by (simp add: delimiter_def)
  then have lt: "length d1 + length d2 < ?n + 2" using assms(8) by (cases d3) auto
  have stay: "read_socket X (Some d) c' h = Some ((c'\<lparr>tc_parser := p\<rparr>, h), Ok ())"
    if "d \<noteq> []" "\<not> tc_parse_rdb c'" "parse False (feed_buf d (tc_parser c')) = Some (Return p)" "completed p = []"
    for d c' p
    using that by (cases d) (auto simp: read_socket_def get_completed_def, subst serve_loop.simps, simp add: get_completed_def)
  have "parse False (feed_buf (words_header ys @ bulk_header ?n @ d1) (tc_parser c)) =
      parse False (at_start (bulk_header ?n @ d1) ?stk StType)"
    using assms(1) parse_first_words [OF assms(2) _ assms(3), of "bulk_header ?n @ d1"]
    by (simp add: idle_def at_start_new_parser words_header_def)
  also have "\<dots> = parse False (at_start d1 (BulkStr ?n None # ?stk) (StBulk ?n))"
    using assms(4) by (simp add: bulk_header_def parse_continue [OF step_type] parse_continue [OF step_header]
        match_prefix_def status_after_type_def status_after_header_def)
  also have "at_start d1 (BulkStr ?n None # ?stk) (StBulk ?n) = waiting d1 0 ?stk ?n"
    by (simp add: at_start_def waiting_def)
  also have "parse False \<dots> = parse False (waiting d1 (length d1) ?stk ?n)"
    using assms(4,6-8) len by (intro parse_continue waiting_step) auto
  also have "\<dots> = Some (Return (waiting d1 (length d1) ?stk ?n))" by (rule waiting_seen) simp
  finally have 1: "parse False (feed_buf (words_header ys @ bulk_header ?n @ d1) (tc_parser c)) = \<dots>" .
  have "feed_buf d2 (waiting d1 (length d1) ?stk ?n) = waiting (d1 @ d2) (length d1) ?stk ?n"
    by (simp add: feed_buf_def waiting_def)
  moreover have "parse False (waiting (d1 @ d2) (length d1) ?stk ?n) = parse False (waiting (d1 @ d2) (?n + 2) ?stk ?n)"
    using assms(4,7-9) len lt by (intro parse_continue waiting_step) auto
  ultimately have 2: "parse False (feed_buf d2 (waiting d1 (length d1) ?stk ?n)) =
      Some (Return (waiting (d1 @ d2) (?n + 2) ?stk ?n))"
    using len by (simp add: waiting_seen)
  have 3: "parse False (feed_buf d3 (waiting (d1 @ d2) (?n + 2) ?stk ?n)) =
      Some (Return (waiting (d1 @ d2 @ d3) (?n + 2) ?stk ?n))"
    using waiting_seen [of "d1 @ d2 @ d3" "?n + 2" ?stk ?n] len by (simp add: feed_buf_def waiting_def)
  let ?c1 = "c\<lparr>tc_parser := waiting d1 (length d1) ?stk ?n\<rparr>"
  let ?c2 = "?c1\<lparr>tc_parser := waiting (d1 @ d2) (?n + 2) ?stk ?n\<rparr>"
  have "read_socket X (Some (words_header ys @ bulk_header ?n @ d1)) c h = Some ((?c1, h), Ok ())"
    using assms(1,6) 1 by (intro stay) (simp_all add: idle_def waiting_def)
  moreover have "read_socket X (Some d2) ?c1 h = Some ((?c2, h), Ok ())"
    using assms(1,7) 2 by (intro stay) (simp_all add: idle_def waiting_def)
  moreover have "read_socket X (Some d3) ?c2 h =
      Some ((?c2\<lparr>tc_parser := waiting (d1 @ d2 @ d3) (?n + 2) ?stk ?n\<rparr>, h), Ok ())"
    using assms(1,8) 3 by (intro stay) (simp_all add: idle_def waiting_def)
  ultimately show ?thesis by fastforce
qed

end
