(* ===== verification/ReplayCorrect.thy ===== *)
theory ReplayCorrect
  imports AofReplay ClientCorrect
begin

text \<open>
  Replaying a log: the commands whose effect depends on the stored data alone, why running the
  successful ones again gives the same data, and the way from the bytes of the log to them.
\<close>

section \<open>Commands that can be repeated\<close>

locale replayable_command = keyed_command +
  assumes same_data:
      "h_data h = h_data g \<Longrightarrow> h_data (fst (run h)) = h_data (fst (run g)) \<and> snd (run h) = snd (run g)"
    and failure_keeps: "snd (run h) = Err e \<Longrightarrow> h_data (fst (run h)) = h_data h"
    and answers: "case snd (run h) of Ok (Some r) \<Rightarrow> serializable r | Err _ \<Rightarrow> True | _ \<Rightarrow> False"
begin

text \<open>A failed run may be left out, a successful one repeated elsewhere.\<close>

lemma repeat_run:
  assumes "h_data h = h_data g"
  shows "h_data (fst (run h)) = h_data (if \<exists>r. snd (run h) = Ok r then fst (run g) else g)"
proof (cases "snd (run h)")
  case (Err e)
  with failure_keeps assms show ?thesis by simp
next
  case Panic
  with answers [of h] show ?thesis by simp
qed (use same_data [OF assms] in simp)

end

interpretation set_again: replayable_command key "cmd_set key v None" for key v
  by unfold_locales (simp_all add: cmd_set_plain put_def reply_def response_ok_def)

lemma put_value_data [simp]: "h_data (put_value k i v h) = hm_insert k (i\<lparr>item_value := v\<rparr>) (h_data h)"
  by (simp add: put_value_def put_def)

lemma or_insert_data:
  "h_data h = h_data g \<Longrightarrow>
   h_data (fst (or_insert k v h)) = h_data (fst (or_insert k v g)) \<and> snd (or_insert k v h) = snd (or_insert k v g)"
  by (auto simp: or_insert_def look_def put_def split: option.splits)

lemma or_insert_old: "look k h = Some i \<Longrightarrow> or_insert k v h = (h, i)"
  by (simp add: or_insert_def)

lemma look_data: "h_data h = h_data g \<Longrightarrow> look k h = look k g"
  by (simp add: look_def)

lemma serializable_replies [simp]: "serializable (int_reply i)" "serializable response_ok"
  by (simp_all add: int_reply_def response_ok_def)

text \<open>The shape of RPUSH, LPUSH and INCR: make the key exist, then change its value or fail.\<close>

lemma replayable_create:
  assumes "keyed_command key run"
    and run: "\<And>h. run h = (case or_insert key v h of (h1, i) \<Rightarrow>
        (case act (item_value i) of Ok (x, r) \<Rightarrow> (put_value key i x h1, Ok (Some r))
         | Err e \<Rightarrow> (h1, Err e) | Panic \<Rightarrow> (h1, Panic)))"
    and ok: "\<And>x. case act x of Ok (y, r) \<Rightarrow> serializable r | Err _ \<Rightarrow> True | Panic \<Rightarrow> False" and first: "\<exists>y. act v = Ok y"
  shows "replayable_command key run"
proof -
  have "replayable_command_axioms run"
  proof (rule replayable_command_axioms.intro)
    fix h g :: cmd_handler assume "h_data h = h_data g"
    from or_insert_data [OF this, of key v]
    show "h_data (fst (run h)) = h_data (fst (run g)) \<and> snd (run h) = snd (run g)"
      by (auto simp: run case_prod_beta split: result.split)
  next
    fix h :: cmd_handler and e assume "snd (run h) = Err e"
    with first show "h_data (fst (run h)) = h_data h"
      by (cases "look key h") (auto simp: run or_insert_def split: result.splits)
  next
    fix h :: cmd_handler show "case snd (run h) of Ok (Some r) \<Rightarrow> serializable r | Err _ \<Rightarrow> True | _ \<Rightarrow> False"
      using ok [of "item_value (snd (or_insert key v h))"]
      by (auto simp: run case_prod_beta split: result.splits)
  qed
  with assms(1) show ?thesis by (rule replayable_command.intro)
qed

interpretation rpush_again: replayable_command key "cmd_rpush key vs" for key vs
  by (rule replayable_create [where v = "VList []" and act = "\<lambda>x. case x of
        VList xs \<Rightarrow> Ok (VList (xs @ vs), int_reply (int (length (xs @ vs)))) | _ \<Rightarrow> Err (unsupported key)"])
    (auto simp: rpush_cmd.keyed_command_axioms cmd_rpush_def reply_def case_prod_beta split: store_value.split)

interpretation lpush_again: replayable_command key "cmd_lpush key vs" for key vs
  by (rule replayable_create [where v = "VList []" and act = "\<lambda>x. case x of
        VList xs \<Rightarrow> Ok (VList (fold (\<lambda>v l. v # l) vs xs), int_reply (int (length (fold (\<lambda>v l. v # l) vs xs))))
      | _ \<Rightarrow> Err (unsupported key)"])
    (auto simp: lpush_cmd.keyed_command_axioms cmd_lpush_def reply_def case_prod_beta Let_def split: store_value.split)

definition incr_act :: "store_value \<Rightarrow> (store_value \<times> resp_type) cres" where
  "incr_act x =
     (case x of
        VStr s \<Rightarrow>
          (case parse_i64 s of
             Ok n \<Rightarrow>
               (if n < 2 ^ 63 - 1 then Ok (VStr (show_int (n + 1)), int_reply (n + 1))
                else Err (UnprocessableError ''Integer overflow''))
           | _ \<Rightarrow> Err incr_error)
      | _ \<Rightarrow> Err incr_error)"

interpretation incr_again: replayable_command key "cmd_incr key" for key
proof (rule replayable_create [where v = "VStr ''0''" and act = incr_act])
  have "parse_i64 ''0'' = Ok 0" by code_simp
  then show "\<exists>y. incr_act (VStr ''0'') = Ok y" by (simp add: incr_act_def)
qed (auto simp: incr_cmd.keyed_command_axioms cmd_incr_def incr_act_def reply_def case_prod_beta
    split: store_value.split result.split)

interpretation lpop_again: replayable_command key "cmd_lpop key n" for key n
proof
  fix h g :: cmd_handler
  assume "h_data h = h_data g"
  then show "h_data (fst (cmd_lpop key n h)) = h_data (fst (cmd_lpop key n g)) \<and>
      snd (cmd_lpop key n h) = snd (cmd_lpop key n g)"
    using look_data [of h g key]
    by (auto simp: cmd_lpop_def Let_def split: option.split store_value.split list.split)
next
  fix h :: cmd_handler and e
  show "snd (cmd_lpop key n h) = Err e \<Longrightarrow> h_data (fst (cmd_lpop key n h)) = h_data h"
    by (auto simp: cmd_lpop_def Let_def reply_def split: option.splits store_value.splits list.splits)
next
  fix h :: cmd_handler
  show "case snd (cmd_lpop key n h) of Ok (Some r) \<Rightarrow> serializable r | Err _ \<Rightarrow> True | _ \<Rightarrow> False"
    by (auto simp: cmd_lpop_def Let_def reply_def built_eq list_all_iff
        split: option.splits store_value.splits list.splits)
qed

interpretation bitop_again: replayable_command "bitop_dest a" "cmd_bitop a" for a
proof
  have op: "h_data h = h_data g \<Longrightarrow> bitop_operand k h = bitop_operand k g" for h g :: cmd_handler and k
    using look_data [of h g k] by (simp add: bitop_operand_def)
  fix h g :: cmd_handler
  assume "h_data h = h_data g"
  with op [OF this] show "h_data (fst (cmd_bitop a h)) = h_data (fst (cmd_bitop a g)) \<and>
      snd (cmd_bitop a h) = snd (cmd_bitop a g)"
    by (auto simp: cmd_bitop_def bitop_run_def bitop_store_def put_def split: cmd_arg.split result.split)
next
  fix h :: cmd_handler and e
  show "snd (cmd_bitop a h) = Err e \<Longrightarrow> h_data (fst (cmd_bitop a h)) = h_data h"
    by (auto simp: cmd_bitop_def bitop_run_def reply_def split: cmd_arg.splits result.splits)
next
  fix h :: cmd_handler
  have "bitop_operand k h \<noteq> Panic" for k
    by (auto simp: bitop_operand_def bits_of_value_def split: option.split store_value.split)
  then show "case snd (cmd_bitop a h) of Ok (Some r) \<Rightarrow> serializable r | Err _ \<Rightarrow> True | _ \<Rightarrow> False"
    by (auto simp: cmd_bitop_def bitop_run_def reply_def split: cmd_arg.splits result.splits)
qed

section \<open>The commands of a log\<close>

text \<open>
  Writes that depend on the data alone: not SET with a deadline, XADD or SETBIT, whose effect
  depends on the clock or which leave something behind when they fail.
\<close>

definition plain_write :: "cmd \<Rightarrow> bool" where
  "plain_write c =
     (case c of
        CSET _ _ None \<Rightarrow> True | CRPUSH _ _ \<Rightarrow> True | CLPUSH _ _ \<Rightarrow> True | CLPOP _ _ \<Rightarrow> True
      | CINCR _ \<Rightarrow> True | CBITOP _ \<Rightarrow> True | _ \<Rightarrow> False)"

lemma plain_is_broadcast: "plain_write c \<Longrightarrow> to_be_broadcast c"
  by (cases c) (simp_all add: plain_write_def to_be_broadcast_def)

lemma plain_queueable: "plain_write c \<Longrightarrow> queueable c"
  by (cases c) (simp_all add: plain_write_def queueable_def)

lemma plain_run:
  assumes "plain_write c"
  obtains key run where "replayable_command key run" "\<And>X ex cl ep h. dispatch X ex c cl ep h = run h"
proof (cases c)
  case (CSET k v a)
  with assms have "\<And>X ex cl ep h. dispatch X ex c cl ep h = cmd_set k v None h"
    by (simp add: dispatch_def plain_write_def split: option.splits)
  with that set_again.replayable_command_axioms show thesis by blast
next
  case (CRPUSH k vs)
  then have "\<And>X ex cl ep h. dispatch X ex c cl ep h = cmd_rpush k vs h" by (simp add: dispatch_def)
  with that rpush_again.replayable_command_axioms show thesis by blast
next
  case (CLPUSH k vs)
  then have "\<And>X ex cl ep h. dispatch X ex c cl ep h = cmd_lpush k vs h" by (simp add: dispatch_def)
  with that lpush_again.replayable_command_axioms show thesis by blast
next
  case (CLPOP k n)
  then have "\<And>X ex cl ep h. dispatch X ex c cl ep h = cmd_lpop k n h" by (simp add: dispatch_def)
  with that lpop_again.replayable_command_axioms show thesis by blast
next
  case (CINCR k)
  then have "\<And>X ex cl ep h. dispatch X ex c cl ep h = cmd_incr k h" by (simp add: dispatch_def)
  with that incr_again.replayable_command_axioms show thesis by blast
next
  case (CBITOP a)
  then have "\<And>X ex cl ep h. dispatch X ex c cl ep h = cmd_bitop a h" by (simp add: dispatch_def)
  with that bitop_again.replayable_command_axioms show thesis by blast
qed (use assms in \<open>simp_all add: plain_write_def\<close>)

text \<open>What executing a plain write does to the data, and when it succeeds.\<close>

definition succeeds :: "(cmd_output, cmd_output) result \<Rightarrow> bool" where
  "succeeds r = (case r of Ok _ \<Rightarrow> True | _ \<Rightarrow> False)"

lemma after_fields [simp]:
  "h_data (fst (after_ok c b m s r h)) = h_data h" "h_data (fst (after_err b m s e h)) = h_data h"
proof -
  have "h_data (fold (\<lambda>i. push i b) is h) = h_data h" for "is" and h :: cmd_handler
    by (induction "is" arbitrary: h) (simp_all add: push_def)
  then show "h_data (fst (after_ok c b m s r h)) = h_data h"
    by (simp add: after_ok_def broadcast_def Let_def)
qed (simp add: after_err_def)

lemma before_data [simp]: "h_data (before_cmd c b m h) = h_data h"
  by (simp add: before_cmd_def on_reg_def Let_def)

lemma plain_execute:
  assumes "plain_write c" and "\<not> is_subscriber cl h" and "host_stats (h_states h) \<noteq> None"
  obtains key run where "replayable_command key run" "\<And>X ex cl ep h. dispatch X ex c cl ep h = run h"
    "h_data (fst (execute n X c b cl ep s h)) = h_data (fst (run (before_cmd c b (is_master cl (h_table h)) h)))"
    "succeeds (snd (execute n X c b cl ep s h)) \<longleftrightarrow>
      (\<exists>r. snd (run (before_cmd c b (is_master cl (h_table h)) h)) = Ok r)"
proof -
  obtain key run where r: "replayable_command key run" "\<And>X ex cl ep h. dispatch X ex c cl ep h = run h"
    using plain_run [OF assms(1)] by blast
  note repeat = replayable_command.repeat_run [OF r(1)] and answers = replayable_command.answers [OF r(1)]
  let ?g = "before_cmd c b (is_master cl (h_table h)) h"
  have "\<not> (is_subscriber cl h \<and> \<not> is_cmd_subscriber_allowed c)" using assms(2) by simp
  from this assms(3) show thesis
  proof (cases rule: execute_cases [where n = n and X = X and b = b and ep = ep and s = s])
    case (ok h1 v)
    with r(2) have g: "run ?g = (h1, Ok (Some v))" by auto
    with answers [of ?g] have "serializable v" by simp
    then have "succeeds (snd (after_ok c b (is_master cl (h_table h)) s v h1))"
      by (simp add: succeeds_def after_ok_def to_output_def serialize_ok Let_def)
    with ok(1) g show thesis by (intro that [OF r]) simp_all
  next
    case (quiet h1)
    with r(2) answers [of ?g] show thesis by auto
  next
    case (error h1 e)
    with r(2) have "run ?g = (h1, Err e)" by auto
    with error(1) show thesis by (intro that [OF r]) (simp_all add: succeeds_def after_err_def)
  next
    case (panic h1)
    with r(2) answers [of ?g] show thesis by auto
  qed
qed

section \<open>The log of a session\<close>

text \<open>Writes of clients, in the order the event loop runs them, and those of them that succeed.\<close>

type_synonym session = "(u64 \<times> cmd \<times> bytes) list"

fun session_run :: "externals \<Rightarrow> session \<Rightarrow> cmd_handler \<Rightarrow> cmd_handler" where
  "session_run X [] h = h"
| "session_run X ((cl, c, b) # ss) h = session_run X ss (fst (handle X (Ok c) b cl True h))"

fun logged :: "externals \<Rightarrow> session \<Rightarrow> cmd_handler \<Rightarrow> (cmd \<times> bytes) list" where
  "logged X [] h = []"
| "logged X ((cl, c, b) # ss) h =
     (case handle X (Ok c) b cl True h of
        (h1, Ok _) \<Rightarrow> (c, b) # logged X ss h1
      | (h1, _) \<Rightarrow> logged X ss h1)"

definition replay_run :: "externals \<Rightarrow> u64 \<Rightarrow> bool \<Rightarrow> (cmd \<times> bytes) list \<Rightarrow> cmd_handler \<Rightarrow> cmd_handler" where
  "replay_run X cl ep l h = fold (\<lambda>(c, b) h. fst (handle X (Ok c) b cl ep h)) l h"

text \<open>A client that may write: in no transaction, no subscriber.\<close>

definition free_client :: "u64 \<Rightarrow> cmd_handler \<Rightarrow> bool" where
  "free_client cl h \<longleftrightarrow> \<not> is_transaction cl (h_reg h) \<and> \<not> is_subscriber cl h \<and> host_stats (h_states h) \<noteq> None"

lemma handle_free:
  assumes "free_client cl h"
  shows "fst (handle X (Ok c) b cl ep h) = fst (execute 2 X c b cl (Some ep) True h)"
    and "(\<exists>v. snd (handle X (Ok c) b cl ep h) = Ok v) \<longleftrightarrow> succeeds (snd (execute 2 X c b cl (Some ep) True h))"
  using assms
  by (auto simp: handle_def free_client_def succeeds_def case_prod_beta split: prod.splits result.splits)

definition same_clients :: "cmd_handler \<Rightarrow> cmd_handler \<Rightarrow> bool" where
  "same_clients h h' \<longleftrightarrow> rg_txn (h_reg h') = rg_txn (h_reg h) \<and> h_subs h' = h_subs h \<and>
     h_table h' = h_table h \<and> h_auth h' = h_auth h \<and> (host_stats (h_states h) \<noteq> None \<longrightarrow> host_stats (h_states h') \<noteq> None)"

lemma same_clients_trans: "same_clients h h' \<Longrightarrow> same_clients h' h'' \<Longrightarrow> same_clients h h''"
  by (simp add: same_clients_def)

lemma same_clients_count: "same_clients h (count_bytes n h)"
  by (simp add: same_clients_def count_bytes_def host_add_bytes_count_def)

lemma same_clients_before: "same_clients h (before_cmd c b m h)"
  by (simp add: before_cmd_def same_clients_def on_reg_def count_bytes_def host_add_bytes_count_def Let_def)

lemma same_clients_write: "write_frame h h' \<Longrightarrow> same_clients h h'"
  by (simp add: write_frame_def same_clients_def)

lemma same_clients_broadcast: "same_clients h (broadcast b h)"
proof -
  have "same_clients h (fold (\<lambda>i. push i b) is h)" for "is" and h :: cmd_handler
  proof (induction "is" arbitrary: h)
    case (Cons i "is")
    have "same_clients h (push i b h)" by (simp add: same_clients_def push_def)
    from same_clients_trans [OF this Cons.IH] show ?case by simp
  qed (simp add: same_clients_def)
  from this [of "h\<lparr>h_aof := map_option (\<lambda>a. fst (aof_write b a)) (h_aof h)\<rparr>"]
  show ?thesis by (simp add: broadcast_def same_clients_def Let_def)
qed

lemma same_clients_after:
  "same_clients h (fst (after_ok c b m s r h))" "same_clients h (fst (after_err b m s e h))"
proof -
  let ?h = "h\<lparr>h_flag_list := is_flag_list c, h_flag_stream := is_flag_stream c\<rparr>"
  have "same_clients h ?h" by (simp add: same_clients_def)
  then have "same_clients h (if to_be_broadcast c then broadcast b ?h else ?h)"
    using same_clients_trans same_clients_broadcast by presburger
  then show "same_clients h (fst (after_ok c b m s r h))"
    using same_clients_trans same_clients_count by (simp add: after_ok_def Let_def)
  show "same_clients h (fst (after_err b m s e h))"
    using same_clients_count [of h "length b"] by (simp add: after_err_def same_clients_def)
qed

lemma write_same_clients:
  assumes "to_be_broadcast c" and "free_client cl h"
  shows "same_clients h (fst (handle X (Ok c) b cl ep h))"
proof -
  let ?g = "before_cmd c b (is_master cl (h_table h)) h"
  have d: "same_clients h h1" if "dispatch X ex c cl (Some ep) ?g = (h1, r)" for ex h1 r
    using write_dispatch [OF assms(1), of ?g X ex cl "Some ep"] that
      same_clients_trans [OF same_clients_before same_clients_write] by fastforce
  have "\<not> (is_subscriber cl h \<and> \<not> is_cmd_subscriber_allowed c)" "host_stats (h_states h) \<noteq> None"
    using assms(2) by (simp_all add: free_client_def)
  then have "same_clients h (fst (execute 2 X c b cl (Some ep) True h))"
  proof (cases rule: execute_cases [where n = 2 and X = X and b = b and ep = "Some ep" and s = True])
    case (ok h1 r)
    then show ?thesis using same_clients_trans [OF _ same_clients_after(1)] d by auto
  next
    case (quiet h1)
    then show ?thesis using d by auto
  next
    case (error h1 e)
    then show ?thesis using same_clients_trans [OF _ same_clients_after(2)] d by auto
  next
    case (panic h1)
    then show ?thesis using d by auto
  qed
  with handle_free(1) [OF assms(2)] show ?thesis by simp
qed

lemma free_same: "same_clients h h' \<Longrightarrow> free_client cl h \<Longrightarrow> free_client cl h'"
  by (simp add: same_clients_def free_client_def is_transaction_def is_subscriber_def)

section \<open>Replaying the log gives the data back\<close>

lemma handle_repeats:
  assumes "plain_write c" and "free_client cl h" and "free_client cl' g" and "h_data h = h_data g"
  shows "h_data (fst (handle X (Ok c) b cl ep h)) =
    h_data (if \<exists>v. snd (handle X (Ok c) b cl ep h) = Ok v then fst (handle X' (Ok c) b' cl' ep' g) else g)"
proof -
  have s: "\<not> is_subscriber cl h" "host_stats (h_states h) \<noteq> None"
    "\<not> is_subscriber cl' g" "host_stats (h_states g) \<noteq> None"
    using assms(2,3) by (simp_all add: free_client_def)
  obtain key run where r: "replayable_command key run" "\<And>X ex cl ep h. dispatch X ex c cl ep h = run h"
    and h: "h_data (fst (execute 2 X c b cl (Some ep) True h)) =
      h_data (fst (run (before_cmd c b (is_master cl (h_table h)) h)))"
      "succeeds (snd (execute 2 X c b cl (Some ep) True h)) \<longleftrightarrow>
      (\<exists>v. snd (run (before_cmd c b (is_master cl (h_table h)) h)) = Ok v)"
    using that by (rule plain_execute [OF assms(1) s(1,2), where n = 2 and X = X and b = b and ep = "Some ep" and s = True])
  obtain key' run' where r': "replayable_command key' run'" "\<And>X ex cl ep h. dispatch X ex c cl ep h = run' h"
    and g: "h_data (fst (execute 2 X' c b' cl' (Some ep') True g)) =
      h_data (fst (run' (before_cmd c b' (is_master cl' (h_table g)) g)))"
      "succeeds (snd (execute 2 X' c b' cl' (Some ep') True g)) \<longleftrightarrow>
      (\<exists>v. snd (run' (before_cmd c b' (is_master cl' (h_table g)) g)) = Ok v)"
    using that by (rule plain_execute [OF assms(1) s(3,4), where n = 2 and X = X' and b = b' and ep = "Some ep'" and s = True])
  have "run' = run" proof
    fix h' show "run' h' = run h'" using r(2) [of X' undefined 0 None h'] r'(2) [of X' undefined 0 None h'] by simp
  qed
  note repeat = replayable_command.repeat_run [OF r(1)] and answers = replayable_command.answers [OF r(1)]
  have "h_data (before_cmd c b (is_master cl (h_table h)) h) = h_data (before_cmd c b' (is_master cl' (h_table g)) g)"
    by (simp add: assms(4))
  note rep = repeat [OF this]
  have succ: "(\<exists>v. snd (handle X (Ok c) b cl ep h) = Ok v) \<longleftrightarrow>
      (\<exists>v. snd (run (before_cmd c b (is_master cl (h_table h)) h)) = Ok v)"
    unfolding handle_free(2) [OF assms(2)] by (rule h(2))
  have g': "h_data (fst (handle X' (Ok c) b' cl' ep' g)) =
      h_data (fst (run (before_cmd c b' (is_master cl' (h_table g)) g)))"
    unfolding handle_free(1) [OF assms(3)] g(1) \<open>run' = run\<close> ..
  have "h_data (fst (handle X (Ok c) b cl ep h)) = h_data (fst (run (before_cmd c b (is_master cl (h_table h)) h)))"
    unfolding handle_free(1) [OF assms(2)] by (rule h(1))
  also note rep
  also have "h_data (if \<exists>v. snd (run (before_cmd c b (is_master cl (h_table h)) h)) = Ok v
        then fst (run (before_cmd c b' (is_master cl' (h_table g)) g))
        else before_cmd c b' (is_master cl' (h_table g)) g) =
      h_data (if \<exists>v. snd (handle X (Ok c) b cl ep h) = Ok v then fst (handle X' (Ok c) b' cl' ep' g) else g)"
    unfolding succ by (simp add: g')
  finally show ?thesis .
qed

lemma replay_restores:
  assumes "h_data h = h_data g" and "free_client cl' g"
    and "\<forall>(cl, c, b) \<in> set ss. plain_write c \<and> free_client cl h"
  shows "h_data (replay_run X' cl' ep' (logged X ss h) g) = h_data (session_run X ss h)"
  using assms
proof (induction ss arbitrary: h g)
  case Nil
  then show ?case by (simp add: replay_run_def)
next
  case (Cons s ss)
  obtain cl c b where s: "s = (cl, c, b)" by (cases s) auto
  with Cons.prems(3) have p: "plain_write c" "free_client cl h" by auto
  obtain h1 r where h1: "handle X (Ok c) b cl True h = (h1, r)" by fastforce
  define g1 where "g1 = (if \<exists>v. r = Ok v then fst (handle X' (Ok c) b cl' ep' g) else g)"
  have "h_data h1 = h_data g1"
    using handle_repeats [OF p Cons.prems(2,1), of X b True X' b ep'] h1 by (simp add: g1_def)
  moreover have "free_client cl' g1"
    using free_same [OF write_same_clients [OF plain_is_broadcast [OF p(1)] Cons.prems(2)] Cons.prems(2)]
      Cons.prems(2) by (simp add: g1_def)
  moreover have sc: "same_clients h h1"
    using write_same_clients [OF plain_is_broadcast [OF p(1)] p(2), of X b True] h1 by simp
  then have "\<forall>(cl, c, b) \<in> set ss. plain_write c \<and> free_client cl h1"
    using Cons.prems(3) free_same [OF sc] by auto
  ultimately have "h_data (replay_run X' cl' ep' (logged X ss h1) g1) = h_data (session_run X ss h1)"
    using Cons.IH by blast
  moreover have "replay_run X' cl' ep' (logged X (s # ss) h) g = replay_run X' cl' ep' (logged X ss h1) g1"
    using h1 s by (cases r) (simp_all add: g1_def replay_run_def)
  ultimately show ?case using h1 s by simp
qed

section \<open>What the log and the replicas receive\<close>

lemma plain_outcome:
  assumes "plain_write c" and "free_client cl h" and "\<not> is_master cl (h_table h)"
  shows "(\<exists>v. snd (execute 2 X c b cl ep True h) = Ok (CoBytes v)) \<or> (\<exists>e. snd (execute 2 X c b cl ep True h) = Err e)"
proof -
  obtain key run where r: "replayable_command key run" "\<And>X ex cl ep h. dispatch X ex c cl ep h = run h"
    using that plain_run [OF assms(1)] by blast
  note repeat = replayable_command.repeat_run [OF r(1)] and answers = replayable_command.answers [OF r(1)]
  let ?g = "before_cmd c b (is_master cl (h_table h)) h"
  have "\<not> (is_subscriber cl h \<and> \<not> is_cmd_subscriber_allowed c)" "host_stats (h_states h) \<noteq> None"
    using assms(2) by (simp_all add: free_client_def)
  then show ?thesis
  proof (cases rule: execute_cases [where n = 2 and X = X and b = b and ep = ep and s = True])
    case (ok h1 v)
    with r(2) answers [of ?g] have "serializable v" by auto
    with ok(1) assms(3) show ?thesis by (simp add: after_ok_def to_output_def serialize_ok Let_def)
  next
    case (quiet h1)
    with r(2) answers [of ?g] show ?thesis by auto
  next
    case (error h1 e)
    then show ?thesis by (simp add: after_err_def)
  next
    case (panic h1)
    with r(2) answers [of ?g] show ?thesis by auto
  qed
qed

text \<open>The bytes a client has in the queue of replies.\<close>

definition queued_for :: "u64 \<Rightarrow> cmd_handler \<Rightarrow> bytes" where
  "queued_for i h = concat (map snd (filter (\<lambda>(j, _). j = i) (h_queue h)))"

definition log_of :: "cmd_handler \<Rightarrow> bytes" where
  "log_of h = (case h_aof h of Some a \<Rightarrow> aof_log a | None \<Rightarrow> [])"

definition log_open :: "cmd_handler \<Rightarrow> bool" where
  "log_open h \<longleftrightarrow> (\<exists>a. h_aof h = Some a \<and> ao_writer a \<noteq> None)"

lemma queued_broadcast:
  "distinct is \<Longrightarrow> concat (map snd (filter (\<lambda>(j, _). j = i) (map (\<lambda>i. (i, b)) is))) = (if i \<in> set is then b else [])"
  by (induction "is") auto

lemma log_open_write: "ao_writer a \<noteq> None \<Longrightarrow> ao_writer (fst (aof_write b a)) \<noteq> None"
  by (auto simp: aof_write_def)

lemma handle_feeds:
  assumes "plain_write c" and "free_client cl h" and "\<not> is_master cl (h_table h)" and "handler_inv h"
    and "log_open h"
  shows "log_open (fst (handle X (Ok c) b cl ep h))"
    and "log_of (fst (handle X (Ok c) b cl ep h)) =
      log_of h @ (if \<exists>v. snd (handle X (Ok c) b cl ep h) = Ok v then b else [])"
    and "i \<in> set (list_slave (h_table h)) \<Longrightarrow> queued_for i (fst (handle X (Ok c) b cl ep h)) =
      queued_for i h @ (if \<exists>v. snd (handle X (Ok c) b cl ep h) = Ok v then b else [])"
proof -
  let ?e = "execute 2 X c b cl (Some ep) True h"
  have bc: "to_be_broadcast c" and sub: "\<not> is_subscriber cl h"
    using plain_is_broadcast [OF assms(1)] assms(2) by (simp_all add: free_client_def)
  have d: "distinct (list_slave (h_table h))" using assms(4) by (simp add: handler_inv_def table_inv_def)
  obtain a where a: "h_aof h = Some a" "ao_writer a \<noteq> None" using assms(5) by (auto simp: log_open_def)
  have all: "log_open (fst ?e) \<and> log_of (fst ?e) = log_of h @ (if succeeds (snd ?e) then b else []) \<and>
    (i \<in> set (list_slave (h_table h)) \<longrightarrow>
       queued_for i (fst ?e) = queued_for i h @ (if succeeds (snd ?e) then b else []))"
    using plain_outcome [OF assms(1-3), of X b "Some ep"]
  proof
    assume "\<exists>v. snd ?e = Ok (CoBytes v)"
    then obtain v where v: "snd ?e = Ok (CoBytes v)" ..
    have "fed b h (fst ?e)" by (rule write_success [OF assms(4) bc assms(3) v]) simp
    with v a d log_open_write [OF a(2), of b] show ?thesis
      by (simp add: fed_def log_open_def log_of_def aof_log_write queued_for_def
          queued_broadcast succeeds_def)
  next
    assume "\<exists>x. snd ?e = Err x"
    then obtain x where x: "snd ?e = Err x" ..
    from write_failure [OF assms(4) bc assms(3) sub x] x assms(5) show ?thesis
      by (simp add: log_open_def log_of_def queued_for_def succeeds_def)
  qed
  then show "log_open (fst (handle X (Ok c) b cl ep h))"
    "log_of (fst (handle X (Ok c) b cl ep h)) =
      log_of h @ (if \<exists>v. snd (handle X (Ok c) b cl ep h) = Ok v then b else [])"
    "i \<in> set (list_slave (h_table h)) \<Longrightarrow> queued_for i (fst (handle X (Ok c) b cl ep h)) =
      queued_for i h @ (if \<exists>v. snd (handle X (Ok c) b cl ep h) = Ok v then b else [])"
    using handle_free [OF assms(2)] by simp_all
qed

definition writers :: "session \<Rightarrow> cmd_handler \<Rightarrow> bool" where
  "writers ss h \<longleftrightarrow> list_all (\<lambda>(cl, c, b). plain_write c \<and> free_client cl h \<and> \<not> is_master cl (h_table h)) ss"

lemma session_feeds:
  assumes "writers ss h" and "handler_inv h" and "log_open h"
  shows "log_of (session_run X ss h) = log_of h @ concat (map snd (logged X ss h)) \<and>
    (i \<in> set (list_slave (h_table h)) \<longrightarrow>
       queued_for i (session_run X ss h) = queued_for i h @ concat (map snd (logged X ss h)))"
  using assms
proof (induction ss arbitrary: h)
  case (Cons s ss)
  obtain cl c b where s: "s = (cl, c, b)" by (cases s) auto
  with Cons.prems(1) have p: "plain_write c" "free_client cl h" "\<not> is_master cl (h_table h)"
    by (simp_all add: writers_def)
  obtain h1 r where h1: "handle X (Ok c) b cl True h = (h1, r)" by fastforce
  have sc: "same_clients h h1"
    using write_same_clients [OF plain_is_broadcast [OF p(1)] p(2), of X b True] h1 by simp
  then have "writers ss h1"
    using Cons.prems(1) free_same [OF sc] by (auto simp: writers_def s list_all_iff same_clients_def)
  moreover have "handler_inv h1" using inv_handle [OF Cons.prems(2), of X "Ok c" b cl True] h1 by simp
  moreover note handle_feeds [OF p Cons.prems(2,3), where X = X and b = b and ep = True]
  ultimately show ?case
    using Cons.IH [of h1] h1 s sc by (cases r) (simp_all add: same_clients_def)
qed (simp add: writers_def)

section \<open>From bytes to commands\<close>

text \<open>\<open>b\<close> is how \<open>c\<close> travels.\<close>

definition travels :: "cmd \<Rightarrow> bytes \<Rightarrow> bool" where
  "travels c b \<longleftrightarrow> (\<exists>t. wf_resp t \<and> ser t = b \<and> from_resp t = Ok c)"

lemma travels_request:
  assumes "requestable c" and "request c \<noteq> []" and "length (request c) < 2 ^ 64"
    and "\<And>s. s \<in> set (request c) \<Longrightarrow> utf8_valid s \<and> length s + 2 < 2 ^ 64"
  shows "travels c (ser (arr (map bulk (request c))))"
proof -
  have "wf_resp (arr (map bulk (request c)))"
    using assms by (auto simp: arr_def bulk_def list_all_iff)
  with from_resp_request [OF assms(1)] show ?thesis by (auto simp: travels_def)
qed

lemma replay_values_log:
  assumes "\<forall>(c, b) \<in> set l. travels c b \<and> plain_write c" and "free_client 0 g" and "\<not> is_master 0 (h_table g)"
  shows "replay_values X (at_start (concat (map snd l)) [] StType) g =
    Some ((at_start [] [] StType, replay_run X 0 False l g), Ok ())"
  using assms
proof (induction l arbitrary: g)
  case Nil
  have "get_completed (at_start [] [] StType) = (None, at_start [] [] StType)"
    by (simp add: get_completed_def at_start_def)
  then show ?case by (subst replay_values.simps) (simp add: parse_empty replay_run_def)
next
  case (Cons x l)
  obtain c b where x: "x = (c, b)" by (cases x)
  with Cons.prems(1) obtain t where t: "wf_resp t" "ser t = b" "from_resp t = Ok c" and p: "plain_write c"
    by (auto simp: travels_def)
  let ?rest = "at_start (concat (map snd l)) [] StType"
  obtain g1 r where g1: "handle X (Ok c) b 0 False g = (g1, r)" by fastforce
  have "r \<noteq> Panic"
    using plain_outcome [OF p Cons.prems(2,3), of X b "Some False"] g1 Cons.prems(2)
    by (auto simp: handle_def free_client_def split: prod.splits result.splits)
  have "get_completed (?rest\<lparr>completed := [t]\<rparr>) = (Some t, ?rest)"
    by (simp add: get_completed_def at_start_def)
  moreover have "parse False (at_start (concat (map snd (x # l))) [] StType) = Some (Return (?rest\<lparr>completed := [t]\<rparr>))"
    using parse_serialized [OF t(1), of "concat (map snd l)"] t(2) x by simp
  ultimately have "replay_values X (at_start (concat (map snd (x # l))) [] StType) g = replay_values X ?rest g1"
    using t g1 \<open>r \<noteq> Panic\<close> wf_resp_serializable [OF t(1)]
    by (subst replay_values.simps) (auto simp: serialize_ok split: result.split)
  moreover have sc: "same_clients g g1"
    using write_same_clients [OF plain_is_broadcast [OF p] Cons.prems(2), of X b False] g1 by simp
  moreover have "replay_run X 0 False (x # l) g = replay_run X 0 False l g1"
    using g1 x by (simp add: replay_run_def)
  ultimately show ?case
    using Cons.IH [of g1] Cons.prems free_same [OF sc] by (simp add: same_clients_def)
qed

lemma logged_sub: "set (logged X ss h) \<subseteq> (\<lambda>(cl, c, b). (c, b)) ` set ss"
proof (induction ss arbitrary: h)
  case (Cons s ss)
  obtain cl c b where s: "s = (cl, c, b)" by (cases s)
  obtain h' r where e: "handle X (Ok c) b cl True h = (h', r)" by (cases "handle X (Ok c) b cl True h")
  from Cons.IH [of h'] show ?case by (cases r) (auto simp: s e)
qed simp

text \<open>
  The log of a session, read back at start-up into a handler with the data the session began
  with, gives the data it ended with, as long as it fits into one read.
\<close>

lemma log_restores:
  assumes "writers ss h" and "handler_inv h" and "log_open h" and "log_of h = []"
    and "\<forall>(cl, c, b) \<in> set ss. travels c b" and "h_data g = h_data h" and "free_client 0 g"
    and "\<not> is_master 0 (h_table g)" and "length (log_of (session_run X ss h)) \<le> buffer_size"
  shows "\<exists>p g'. replay_chunks X' (chunks buffer_size (log_of (session_run X ss h))) new_parser g =
      Some ((p, g'), Ok ()) \<and> h_data g' = h_data (session_run X ss h)"
proof -
  let ?l = "logged X ss h"
  have log: "log_of (session_run X ss h) = concat (map snd ?l)"
    using session_feeds [OF assms(1-3), of X] assms(4) by simp
  have ok: "\<forall>(c, b) \<in> set ?l. travels c b \<and> plain_write c"
    using logged_sub [of X ss h] assms(1,5) by (fastforce simp: writers_def list_all_iff)
  have data: "h_data (replay_run X' 0 False ?l g) = h_data (session_run X ss h)"
    using assms(1) by (intro replay_restores [OF _ assms(7)]) (auto simp: assms(6) writers_def list_all_iff)
  show ?thesis
  proof (cases "concat (map snd ?l) = []")
    case True
    have ne: "\<forall>(c, b) \<in> set ?l. b \<noteq> []"
      using ok wf_ser_nonempty by (fastforce simp: travels_def)
    have "?l = []" using True ne by (cases ?l) auto
    with data show ?thesis unfolding log by (simp add: chunks.simps replay_run_def)
  next
    case False
    then have ch: "chunks buffer_size (concat (map snd ?l)) = [concat (map snd ?l)]"
      using assms(9) by (intro length_chunks) (simp_all add: log buffer_size_def)
    have "feed_buf (concat (map snd ?l)) new_parser = at_start (concat (map snd ?l)) [] StType"
      by (rule at_start_new_parser)
    with replay_values_log [OF ok assms(7,8), of X'] data show ?thesis unfolding log ch by simp
  qed
qed

section \<open>From the files back to the data\<close>

text \<open>A name for the log that the manifest, words between spaces on one line, can hold.\<close>

definition plain_name :: "string \<Rightarrow> bool" where
  "plain_name s \<longleftrightarrow> list_all (in_range 0x21 0x7E) s"

lemma plain_name_append: "plain_name (a @ b) \<longleftrightarrow> plain_name a \<and> plain_name b"
  by (simp add: plain_name_def)

lemma plain_name_number: "plain_name (show_u64 i)"
  by (auto simp: plain_name_def list_all_iff show_u64_def in_range_def is_digit_def dest!: show_nat_digits)

lemma plain_nameD:
  assumes "plain_name s"
  shows "utf8_valid s" "CHR '' '' \<notin> set s" "CHR 0x0A \<notin> set s"
proof -
  show "utf8_valid s"
    using assms by (intro utf8_valid_ascii) (fastforce simp: plain_name_def list_all_iff in_range_def)
  show "CHR '' '' \<notin> set s" "CHR 0x0A \<notin> set s"
    using assms by (auto simp: plain_name_def list_all_iff in_range_def)
qed

lemma plain_name_incr: "plain_name (cf_appendfilename cf) \<Longrightarrow> plain_name (incr_name cf i)"
  using plain_name_number [of i] by (simp add: incr_name_def plain_name_def) (simp add: in_range_def)

lemma incr_name_last: "incr_name cf i \<noteq> []" "last (incr_name cf i) = CHR ''f''"
  by (simp_all add: incr_name_def)

lemma manifest_roundtrip:
  assumes "plain_name (cf_appendfilename cf)"
  shows "read_manifest (manifest_line cf i) = Ok (incr_name cf i)"
proof -
  let ?sp = "CHR '' ''" and ?n = "incr_name cf i" and ?i = "show_u64 i"
  note n = plain_name_incr [OF assms, of i] and d = plain_name_number [of i]
  let ?l = "''file'' @ ?sp # ?n @ ?sp # ''seq'' @ ?sp # ?i @ ?sp # ''type'' @ ?sp # ''i''"
  have l: "manifest_line cf i = ?l @ CHR 0x0A # []" by (simp add: manifest_line_def)
  have "CHR 0x0A \<notin> set ?l" using plain_nameD(3) [OF n] plain_nameD(3) [OF d] by simp
  then have "split_on (CHR 0x0A) (manifest_line cf i) = [?l, []]"
    unfolding l by (subst split_on_append_sep) simp_all
  then have lines: "file_lines (manifest_line cf i) = [?l]" by (simp add: file_lines_def strip_cr_def)
  have "split_on ?sp ?l = [''file'', ?n, ''seq'', ?i, ''type'', ''i'']"
    using plain_nameD(2) [OF n] plain_nameD(2) [OF d] by (simp add: split_on_append_sep split_on_no_sep)
  moreover have "utf8_valid ?l"
    using n d by (intro utf8_valid_ascii) (fastforce simp: plain_name_def list_all_iff in_range_def)
  moreover have "?n \<noteq> ''file''" "?n \<noteq> ''seq''" "?n \<noteq> ''type''"
    using incr_name_last [of cf i] by auto
  moreover have "CHR ''e'' \<notin> set ?i" using show_nat_digits [of "CHR ''e''" "unat i"]
    by (auto simp: show_u64_def is_digit_def)
  then have "?i \<noteq> ''file''" "?i \<noteq> ''seq''" "?i \<noteq> ''type''" by auto
  ultimately show ?thesis
    using lines by (simp add: read_manifest_def parse_u64_show_u64)
qed

text \<open>What \<open>init_aof_files\<close> sets up at one start, \<open>aof_replay\<close> finds at the next.\<close>

lemma init_files_found:
  assumes "init_aof_files cf a fs = Ok (a1, fs1)" and "cf_appendonly cf"
  shows "\<exists>d i. append_dir cf = Ok d \<and> ao_path a1 = Some (d @ ''/'' @ incr_name cf i) \<and>
    hm_get (hm_insert (the (ao_path a1)) b (fs_files fs1)) (d @ ''/'' @ cf_appendfilename cf @ ''.manifest'') =
      Some (manifest_line cf i)"
proof -
  obtain d l where d: "append_dir cf = Ok d" "get_latest_aof_id cf fs = Ok l"
    using assms by (auto simp: init_aof_files_def rbind_Ok_iff)
  let ?i = "case l of Some i \<Rightarrow> i | None \<Rightarrow> 1"
  have "last (cf_appendfilename cf @ ''.manifest'') \<noteq> last (incr_name cf ?i)"
    by (simp add: incr_name_last)
  then have "cf_appendfilename cf @ ''.manifest'' \<noteq> incr_name cf ?i" by metis
  with d assms show ?thesis
    by (intro exI [of _ d] exI [of _ ?i]) (auto simp: init_aof_files_def Let_def)
qed

lemma restart_restores:
  assumes "writers ss h" and "handler_inv h" and "log_open h" and "log_of h = []"
    and "\<forall>(cl, c, b) \<in> set ss. travels c b" and "h_data g = h_data h" and "free_client 0 g"
    and "\<not> is_master 0 (h_table g)" and "length (log_of (session_run X ss h)) \<le> buffer_size"
    and "cf_appendonly cf" and "plain_name (cf_appendfilename cf)"
    and "init_aof_files cf a fs = Ok (a1, fs1)"
  shows "\<exists>g'. aof_replay X' cf
      (fs1\<lparr>fs_files := hm_insert (the (ao_path a1)) (log_of (session_run X ss h)) (fs_files fs1)\<rparr>) g =
        Some (g', Ok ()) \<and> h_data g' = h_data (session_run X ss h)"
proof -
  let ?b = "log_of (session_run X ss h)"
  obtain d i where d: "append_dir cf = Ok d" "ao_path a1 = Some (d @ ''/'' @ incr_name cf i)"
    "hm_get (hm_insert (the (ao_path a1)) ?b (fs_files fs1)) (d @ ''/'' @ cf_appendfilename cf @ ''.manifest'') =
      Some (manifest_line cf i)"
    using init_files_found [OF assms(12,10), of ?b] by blast
  obtain p g' where "replay_chunks X' (chunks buffer_size ?b) new_parser g = Some ((p, g'), Ok ())"
    "h_data g' = h_data (session_run X ss h)"
    using log_restores [OF assms(1-9), of X'] by blast
  with d manifest_roundtrip [OF assms(11), of i] show ?thesis by (simp add: aof_replay_def)
qed
section \<open>The stream of writes, read by a replica\<close>

definition established :: "tcp_client \<Rightarrow> cmd_handler \<Rightarrow> bool" where
  "established c g \<longleftrightarrow> rp_status (tc_repl c) = Some Master \<and> tc_hs c = HsEstablished \<and>
     \<not> tc_parse_rdb c \<and> tc_stream c = [] \<and> is_master (tc_fd c) (h_table g) \<and>
     check_auth (tc_fd c) (h_auth g) \<and> free_client (tc_fd c) g"

lemma plain_no_panic:
  assumes "plain_write c" and "free_client cl h"
  shows "snd (handle X (Ok c) b cl ep h) \<noteq> Panic"
proof -
  obtain key run where r: "replayable_command key run" "\<And>X ex cl ep h. dispatch X ex c cl ep h = run h"
    using that plain_run [OF assms(1)] by blast
  note repeat = replayable_command.repeat_run [OF r(1)] and answers = replayable_command.answers [OF r(1)]
  let ?g = "before_cmd c b (is_master cl (h_table h)) h"
  have "\<not> (is_subscriber cl h \<and> \<not> is_cmd_subscriber_allowed c)" "host_stats (h_states h) \<noteq> None"
    using assms(2) by (simp_all add: free_client_def)
  then have "snd (execute 2 X c b cl (Some ep) True h) \<noteq> Panic"
  proof (cases rule: execute_cases [where n = 2 and X = X and b = b and ep = "Some ep" and s = True])
    case (ok h1 v)
    with r(2) answers [of ?g] have "serializable v" by auto
    with ok(1) show ?thesis by (simp add: after_ok_def to_output_def serialize_ok Let_def)
  next
    case (panic h1)
    with r(2) answers [of ?g] show ?thesis by auto
  qed (simp_all add: after_err_def)
  with assms(2) show ?thesis
    by (auto simp: handle_def free_client_def split: prod.splits result.splits)
qed

lemma replica_loop:
  assumes "\<forall>(cd, b) \<in> set l. travels cd b \<and> plain_write cd" and "established c g"
    and "tc_parser c = at_start (concat (map snd l)) [] StType"
  shows "\<exists>s. serve_loop X c g =
    Some ((c\<lparr>tc_parser := at_start [] [] StType, tc_sent := s\<rparr>, replay_run X (tc_fd c) True l g), Ok ())"
  using assms
proof (induction l arbitrary: c g)
  case Nil
  then have "c\<lparr>tc_parser := at_start [] [] StType, tc_sent := tc_sent c\<rparr> = c" by simp
  with Nil serve_loop_empty [of c X g] show ?case
    by (intro exI [of _ "tc_sent c"]) (simp add: replay_run_def)
next
  case (Cons x l)
  obtain cd b where x: "x = (cd, b)" by (cases x)
  with Cons.prems(1) obtain t where t: "wf_resp t" "ser t = b" "from_resp t = Ok cd" and p: "plain_write cd"
    by (auto simp: travels_def)
  note est = Cons.prems(2) [unfolded established_def]
  let ?rest = "at_start (concat (map snd l)) [] StType"
  obtain g1 r where g1: "handle X (Ok cd) b (tc_fd c) True g = (g1, r)" by fastforce
  have "r \<noteq> Panic" using plain_no_panic [OF p, of "tc_fd c" g X b True] est g1 by simp
  then obtain v where v: "r = Ok v \<or> r = Err v" by (cases r) auto
  define c1 where "c1 = c\<lparr>tc_parser := ?rest, tc_sent := tc_sent c @ v\<rparr>"
  have "\<not> is_rdb cd" "cd \<noteq> CPONG" "cd \<noteq> COK" "\<not> is_auth_cmd cd"
    using p by (cases cd; simp add: plain_write_def is_rdb_def is_auth_cmd_def)+
  then have "serve_value X t (c\<lparr>tc_parser := ?rest\<rparr>) g = ((c1, g1), Ok ())"
    using t wf_resp_serializable [OF t(1)] est g1 v
    by (auto simp: serve_value_def serialize_ok respond_def handshake_to_master_def write_all_ok c1_def)
  moreover have "parse (tc_parse_rdb c) (tc_parser c) = Some (Return (?rest\<lparr>completed := [t]\<rparr>))"
    using parse_serialized [OF t(1), of "concat (map snd l)"] t(2) x est Cons.prems(3) by simp
  ultimately have "serve_loop X c g = serve_loop X c1 g1" by (intro serve_loop_value)
  moreover have sc: "same_clients g g1"
    using write_same_clients [OF plain_is_broadcast [OF p], of "tc_fd c" g X b True] est g1 by simp
  then have "established c1 g1"
    using est free_same [OF sc] by (simp add: established_def c1_def same_clients_def)
  moreover have "replay_run X (tc_fd c) True (x # l) g = replay_run X (tc_fd c1) True l g1"
    using g1 x by (simp add: replay_run_def c1_def)
  moreover obtain s where "serve_loop X c1 g1 =
      Some ((c1\<lparr>tc_parser := at_start [] [] StType, tc_sent := s\<rparr>, replay_run X (tc_fd c1) True l g1), Ok ())"
    using Cons.IH [of c1 g1] Cons.prems(1) \<open>established c1 g1\<close> by (auto simp: c1_def)
  ultimately show ?case by (intro exI [of _ s]) (simp add: c1_def)
qed

text \<open>
  Reads one after the other. A read delivers at most \<open>buffer_size\<close> bytes; the bytes of a session
  arrive in pieces of whole requests.
\<close>

fun read_all :: "externals \<Rightarrow> bytes list \<Rightarrow> tcp_client \<Rightarrow> cmd_handler \<Rightarrow> ((tcp_client \<times> cmd_handler) \<times> io) option" where
  "read_all X [] c h = Some ((c, h), Ok ())"
| "read_all X (d # ds) c h =
     (case read_socket X (Some d) c h of
        Some ((c1, h1), Ok _) \<Rightarrow> read_all X ds c1 h1
      | r \<Rightarrow> r)"

definition log_bytes :: "(cmd \<times> bytes) list \<Rightarrow> bytes" where
  "log_bytes l = concat (map snd l)"

lemma established_run:
  assumes "\<forall>(cd, b) \<in> set l. plain_write cd" and "established c g"
  shows "established (c\<lparr>tc_sent := s\<rparr>) (replay_run X (tc_fd c) ep l g)"
  using assms
proof (induction l arbitrary: g)
  case Nil
  then show ?case by (simp add: replay_run_def established_def)
next
  case (Cons x l)
  obtain cd b where x: "x = (cd, b)" by (cases x)
  let ?g = "fst (handle X (Ok cd) b (tc_fd c) ep g)"
  have "free_client (tc_fd c) g" "plain_write cd" using Cons.prems x by (auto simp: established_def)
  then have sc: "same_clients g ?g" by (intro write_same_clients plain_is_broadcast)
  have "established c ?g"
    using Cons.prems(2) free_same [OF sc] sc by (simp add: established_def same_clients_def)
  with Cons.IH [of ?g] Cons.prems(1) x show ?case by (simp add: replay_run_def)
qed

lemma replica_reads:
  assumes "\<forall>l \<in> set ls. l \<noteq> [] \<and> (\<forall>(cd, b) \<in> set l. travels cd b \<and> plain_write cd)"
    and "established c g" and "tc_parser c = new_parser"
  shows "\<exists>s. read_all X (map log_bytes ls) c g =
    Some ((c\<lparr>tc_sent := s\<rparr>, replay_run X (tc_fd c) True (concat ls) g), Ok ())"
  using assms
proof (induction ls arbitrary: c g)
  case Nil
  have "c\<lparr>tc_sent := tc_sent c\<rparr> = c" by simp
  then show ?case by (intro exI [of _ "tc_sent c"]) (simp add: replay_run_def)
next
  case (Cons l ls)
  have l: "\<forall>(cd, b) \<in> set l. travels cd b \<and> plain_write cd" "l \<noteq> []" using Cons.prems(1) by auto
  let ?c = "c\<lparr>tc_parser := feed_buf (log_bytes l) (tc_parser c)\<rparr>"
  have "established ?c g" using Cons.prems(2) by (simp add: established_def)
  from replica_loop [OF l(1) this, of X] obtain s where
    s: "serve_loop X ?c g = Some ((?c\<lparr>tc_parser := at_start [] [] StType, tc_sent := s\<rparr>,
      replay_run X (tc_fd c) True l g), Ok ())"
    by (auto simp: Cons.prems(3) log_bytes_def at_start_new_parser)
  have "log_bytes l \<noteq> []"
    using l wf_ser_nonempty by (cases l) (fastforce simp: log_bytes_def travels_def)+
  then have rd: "read_socket X (Some (log_bytes l)) c g =
      Some ((c\<lparr>tc_sent := s\<rparr>, replay_run X (tc_fd c) True l g), Ok ())"
    using s Cons.prems(3) by (auto simp: read_socket_def new_parser_at_start split: list.split)
  have "established (c\<lparr>tc_sent := s\<rparr>) (replay_run X (tc_fd c) True l g)"
    by (rule established_run [OF _ Cons.prems(2)]) (use l(1) in auto)
  moreover have "\<forall>l \<in> set ls. l \<noteq> [] \<and> (\<forall>(cd, b) \<in> set l. travels cd b \<and> plain_write cd)"
    using Cons.prems(1) by simp
  moreover have "tc_parser (c\<lparr>tc_sent := s\<rparr>) = new_parser" using Cons.prems(3) by simp
  ultimately obtain s' where
    "read_all X (map log_bytes ls) (c\<lparr>tc_sent := s\<rparr>) (replay_run X (tc_fd c) True l g) =
      Some ((c\<lparr>tc_sent := s'\<rparr>, replay_run X (tc_fd c) True (concat ls) (replay_run X (tc_fd c) True l g)), Ok ())"
    using Cons.IH [of "c\<lparr>tc_sent := s\<rparr>" "replay_run X (tc_fd c) True l g"] by auto
  with rd show ?case by (intro exI [of _ s']) (simp add: replay_run_def)
qed

lemma replica_converges:
  assumes "writers ss h" and "handler_inv h" and "log_open h" and "i \<in> set (list_slave (h_table h))"
    and "queued_for i h = []" and "\<forall>(cl, c, b) \<in> set ss. travels c b"
    and "established c g" and "tc_parser c = new_parser" and "h_data g = h_data h"
    and "concat ls = logged X ss h" and "[] \<notin> set ls"
  shows "concat (map log_bytes ls) = queued_for i (session_run X ss h) \<and>
    (\<exists>c' g'. read_all X' (map log_bytes ls) c g = Some ((c', g'), Ok ()) \<and>
      h_data g' = h_data (session_run X ss h))"
proof
  let ?l = "logged X ss h"
  have "concat (map log_bytes ls) = concat (map snd (concat ls))"
    by (induction ls) (simp_all add: log_bytes_def)
  then show "concat (map log_bytes ls) = queued_for i (session_run X ss h)"
    using session_feeds [OF assms(1-3), of X i] assms(4,5,10) by simp
  have ok: "\<forall>(c, b) \<in> set ?l. travels c b \<and> plain_write c"
    using logged_sub [of X ss h] assms(1,6) by (fastforce simp: writers_def list_all_iff)
  have fr: "free_client (tc_fd c) g" using assms(7) by (simp add: established_def)
  have data: "h_data (replay_run X' (tc_fd c) True ?l g) = h_data (session_run X ss h)"
    using assms(1) by (intro replay_restores [OF _ fr]) (auto simp: assms(9) writers_def list_all_iff)
  have "\<forall>l \<in> set ls. l \<noteq> [] \<and> (\<forall>(cd, b) \<in> set l. travels cd b \<and> plain_write cd)"
    using ok assms(11) unfolding assms(10) [symmetric] by auto
  from replica_reads [OF this assms(7,8), of X'] data
  show "\<exists>c' g'. read_all X' (map log_bytes ls) c g = Some ((c', g'), Ok ()) \<and>
      h_data g' = h_data (session_run X ss h)" by (auto simp: assms(10))
qed

end
