(* ===== verification/Pipelining.thy ===== *)
theory Pipelining
  imports ClientCorrect
begin

text \<open>
  A client may send many requests at once. What a socket read does with the bytes of complete
  values is what handing the values to the server one by one does, until one of them ends the
  connection.
\<close>

section \<open>One by one\<close>

fun serve_values ::
  "externals \<Rightarrow> resp_type list \<Rightarrow> tcp_client \<Rightarrow> cmd_handler \<Rightarrow> (tcp_client \<times> cmd_handler) \<times> io" where
  "serve_values X [] c h = ((c, h), Ok ())"
| "serve_values X (t # ts) c h =
     (case serve_value X t c h of
        ((c1, h1), Ok _) \<Rightarrow> serve_values X ts c1 h1
      | (ch, r) \<Rightarrow> (ch, r))"

text \<open>The state of the parser is nothing to the command.\<close>

definition with_parser :: "resp_parser \<Rightarrow> (tcp_client \<times> cmd_handler) \<times> 'r \<Rightarrow> (tcp_client \<times> cmd_handler) \<times> 'r" where
  "with_parser p x = (case x of ((c, h), r) \<Rightarrow> ((c\<lparr>tc_parser := p\<rparr>, h), r))"

lemma with_parser_simp [simp]: "with_parser p ((c, h), r) = ((c\<lparr>tc_parser := p\<rparr>, h), r)"
  by (simp add: with_parser_def)

lemma write_all_parser:
  "write_all v (c\<lparr>tc_parser := p\<rparr>) = (case write_all v c of (c1, r) \<Rightarrow> (c1\<lparr>tc_parser := p\<rparr>, r))"
  by (simp add: write_all_def split: list.split)

lemma handshake_any_parser: "handshake_to_master X cd b (c\<lparr>tc_parser := p\<rparr>) h = with_parser p (handshake_to_master X cd b c h)"
  by (simp add: handshake_to_master_def get_psync_def with_parser_def split: prod.split)

lemma respond_parser: "respond X cr b (c\<lparr>tc_parser := p\<rparr>) h = with_parser p (respond X cr b c h)"
  by (simp add: respond_def handshake_any_parser split: prod.split result.split)

lemma serve_value_any_parser: "serve_value X t (c\<lparr>tc_parser := p\<rparr>) h = with_parser p (serve_value X t c h)"
  by (simp add: serve_value_def respond_parser write_all_parser with_parser_def split: prod.split result.split)

lemma with_parser_twice [simp]: "with_parser p (with_parser q x) = with_parser p x"
  by (simp add: with_parser_def split: prod.split)

lemma serve_values_parser: "serve_values X ts (c\<lparr>tc_parser := p\<rparr>) h = with_parser p (serve_values X ts c h)"
proof (induction ts arbitrary: c h)
  case (Cons t ts)
  obtain c1 h1 r where v: "serve_value X t c h = ((c1, h1), r)" by (metis surj_pair)
  with Cons.IH [of c1 h1] show ?case by (cases r) (simp_all add: serve_value_any_parser)
qed simp

text \<open>An ordinary connection stays one: only a connection to a master switches to the RDB file.\<close>

definition ordinary :: "tcp_client \<Rightarrow> bool" where
  "ordinary c \<longleftrightarrow> rp_status (tc_repl c) \<noteq> Some Master \<and> \<not> tc_parse_rdb c"

lemma serve_value_ordinary:
  assumes "serve_value X t c h = ((c1, h1), r)" and "ordinary c"
  shows "ordinary c1"
proof -
  have "tc_repl (fst (fst (serve_value X t c h))) = tc_repl c \<and>
      tc_parse_rdb (fst (fst (serve_value X t c h))) = tc_parse_rdb c"
    using assms(2) by (simp add: serve_value_def respond_def ordinary_def case_prod_beta split: result.split)
  with assms show ?thesis by (simp add: ordinary_def)
qed

section \<open>All at once\<close>

lemma serve_loop_values:
  assumes "list_all wf_resp ts" and "ordinary c" and "tc_parser c = at_start (concat (map ser ts)) [] StType"
  shows "\<exists>p. serve_loop X c h = Some (with_parser p (serve_values X ts c h))"
  using assms
proof (induction ts arbitrary: c h)
  case Nil
  have "c\<lparr>tc_parser := at_start [] [] StType\<rparr> = c" using Nil.prems(3) by simp
  then show ?case
    using serve_loop_empty [of c X h] Nil.prems(3) by (intro exI [of _ "at_start [] [] StType"]) simp
next
  case (Cons t ts)
  let ?rest = "at_start (concat (map ser ts)) [] StType"
  have pr: "parse (tc_parse_rdb c) (tc_parser c) = Some (Return (?rest\<lparr>completed := [t]\<rparr>))"
    using parse_serialized [of t "concat (map ser ts)"] Cons.prems by (simp add: ordinary_def)
  obtain c1 h1 r where v: "serve_value X t c h = ((c1, h1), r)" by (metis surj_pair)
  have vp: "serve_value X t (c\<lparr>tc_parser := ?rest\<rparr>) h = ((c1\<lparr>tc_parser := ?rest\<rparr>, h1), r)"
    by (simp add: serve_value_any_parser v)
  show ?case
  proof (cases r)
    case (Ok u)
    have "ordinary (c1\<lparr>tc_parser := ?rest\<rparr>)" using serve_value_ordinary [OF v Cons.prems(2)] by (simp add: ordinary_def)
    then obtain p where "serve_loop X (c1\<lparr>tc_parser := ?rest\<rparr>) h1 =
        Some (with_parser p (serve_values X ts (c1\<lparr>tc_parser := ?rest\<rparr>) h1))"
      using Cons.IH [of "c1\<lparr>tc_parser := ?rest\<rparr>" h1] Cons.prems(1) by auto
    moreover have "serve_loop X c h = serve_loop X (c1\<lparr>tc_parser := ?rest\<rparr>) h1"
      using pr vp Ok by (intro serve_loop_value) simp_all
    ultimately show ?thesis
      using v Ok by (intro exI [of _ p]) (simp add: serve_values_parser)
  next
    case (Err e)
    then have "serve_loop X c h = Some ((c1\<lparr>tc_parser := ?rest\<rparr>, h1), r)"
      using pr vp by (subst serve_loop.simps) (simp add: get_completed_def at_start_def)
    with v Err show ?thesis by (intro exI [of _ ?rest]) simp
  next
    case Panic
    then have "serve_loop X c h = Some ((c1\<lparr>tc_parser := ?rest\<rparr>, h1), r)"
      using pr vp by (subst serve_loop.simps) (simp add: get_completed_def at_start_def)
    with v Panic show ?thesis by (intro exI [of _ ?rest]) simp
  qed
qed

lemma read_socket_values:
  assumes "list_all wf_resp ts" and "ts \<noteq> []" and "idle c" and "rp_status (tc_repl c) \<noteq> Some Master"
  shows "\<exists>p. read_socket X (Some (concat (map ser ts))) c h = Some (with_parser p (serve_values X ts c h))"
proof -
  let ?b = "concat (map ser ts)"
  have "?b \<noteq> []" using assms(1,2) wf_ser_nonempty by (cases ts) auto
  then obtain x xs where "?b = x # xs" by (cases ?b) simp_all
  then have "read_socket X (Some ?b) c h = serve_loop X (c\<lparr>tc_parser := feed_buf ?b (tc_parser c)\<rparr>) h"
    by (simp only: read_socket_def option.case list.case)
  moreover have "feed_buf ?b (tc_parser c) = at_start ?b [] StType"
    using assms(3) by (simp add: idle_def new_parser_at_start feed_buf_def at_start_def)
  ultimately have "read_socket X (Some ?b) c h = serve_loop X (c\<lparr>tc_parser := at_start ?b [] StType\<rparr>) h" by simp
  moreover have "ordinary (c\<lparr>tc_parser := at_start ?b [] StType\<rparr>)"
    using assms(3,4) by (simp add: ordinary_def idle_def)
  ultimately show ?thesis
    using serve_loop_values [OF assms(1), of "c\<lparr>tc_parser := at_start ?b [] StType\<rparr>" X h]
    by (simp add: serve_values_parser)
qed

end
