(* ===== verification/KeySpaceCorrect.thy ===== *)
theory KeySpaceCorrect
  imports KeySpaceRefined ReplayCorrect Pipelining
begin

text \<open>
  The server as the specification of theory \<open>KeySpace\<close> sees it: every data command that a free
  client sends changes the abstract key space and answers as specified, and so does a session
  of them.
\<close>

section \<open>One command\<close>

lemma spec_run:
  assumes "specified c"
  obtains key run where "refined_command key run (\<lambda>now. spec_cmd now c)"
    "\<And>X ex cl ep h. dispatch X ex c cl ep h = run h"
proof -
  show thesis
  proof (cases c)
    case (CSET k v opt)
    show thesis
      by (rule that [of k "cmd_set k v opt"])
        (simp_all add: CSET spec_cmd_def dispatch_def set_spec.refined_command_axioms)
  next
    case (CGET k)
    show thesis
      by (rule that [of k "cmd_get k"])
        (simp_all add: CGET spec_cmd_def dispatch_def get_spec.refined_command_axioms)
  next
    case (CINCR k)
    show thesis
      by (rule that [of k "cmd_incr k"])
        (simp_all add: CINCR spec_cmd_def dispatch_def incr_spec.refined_command_axioms)
  next
    case (CTYPE k)
    show thesis
      by (rule that [of k "\<lambda>h. (h, cmd_type k h)"])
        (simp_all add: CTYPE spec_cmd_def dispatch_def type_spec.refined_command_axioms)
  next
    case (CRPUSH k vs)
    show thesis
      by (rule that [of k "cmd_rpush k vs"])
        (simp_all add: CRPUSH spec_cmd_def dispatch_def rpush_spec.refined_command_axioms)
  next
    case (CLPUSH k vs)
    show thesis
      by (rule that [of k "cmd_lpush k vs"])
        (simp_all add: CLPUSH spec_cmd_def dispatch_def lpush_spec.refined_command_axioms)
  next
    case (CLPOP k n)
    show thesis
      by (rule that [of k "cmd_lpop k n"])
        (simp_all add: CLPOP spec_cmd_def dispatch_def lpop_spec.refined_command_axioms)
  next
    case (CLLEN k)
    show thesis
      by (rule that [of k "\<lambda>h. (h, cmd_llen k h)"])
        (simp_all add: CLLEN spec_cmd_def dispatch_def llen_spec.refined_command_axioms)
  next
    case (CXADD k i vs)
    show thesis
      by (rule that [of k "cmd_xadd k i vs"])
        (simp_all add: CXADD spec_cmd_def dispatch_def xadd_spec.refined_command_axioms)
  next
    case (CXRANGE k lo hi)
    show thesis
      by (rule that [of k "\<lambda>h. (h, cmd_xrange k lo hi h)"])
        (simp_all add: CXRANGE spec_cmd_def dispatch_def xrange_spec.refined_command_axioms)
  next
    case (CZADD k s m)
    show thesis
      by (rule that [of k "cmd_zadd k s m"])
        (simp_all add: CZADD spec_cmd_def dispatch_def zadd_spec.refined_command_axioms)
  next
    case (CGEOADD k x y m)
    show thesis
      by (rule that [of k "cmd_geoadd k x y m"])
        (simp_all add: CGEOADD spec_cmd_def dispatch_def geoadd_spec.refined_command_axioms)
  next
    case (CZREM k m)
    show thesis
      by (rule that [of k "cmd_zrem k m"])
        (simp_all add: CZREM spec_cmd_def dispatch_def zrem_spec.refined_command_axioms)
  next
    case (CZCARD k)
    show thesis
      by (rule that [of k "\<lambda>h. (h, cmd_zcard k h)"])
        (simp_all add: CZCARD spec_cmd_def dispatch_def zcard_spec.refined_command_axioms)
  next
    case (CZSCORE k m)
    show thesis
      by (rule that [of k "\<lambda>h. (h, cmd_zscore k m h)"])
        (simp_all add: CZSCORE spec_cmd_def dispatch_def zscore_spec.refined_command_axioms)
  next
    case (CGETBIT k j)
    show thesis
      by (rule that [of k "\<lambda>h. (h, cmd_getbit k j h)"])
        (simp_all add: CGETBIT spec_cmd_def dispatch_def getbit_spec.refined_command_axioms)
  next
    case (CBITCOUNT k r)
    show thesis
      by (rule that [of k "\<lambda>h. (h, cmd_bitcount k r h)"])
        (simp_all add: CBITCOUNT spec_cmd_def dispatch_def bitcount_spec.refined_command_axioms)
  next
    case (CSTRLEN k)
    show thesis
      by (rule that [of k "\<lambda>h. (h, cmd_strlen k h)"])
        (simp_all add: CSTRLEN spec_cmd_def dispatch_def strlen_spec.refined_command_axioms)
  next
    case (CSETBIT k j b)
    with assms have "j + 1 < 2 ^ 64" by (simp add: specified_def)
    then show thesis
      by (intro that [of k "cmd_setbit k j b"]) (simp_all add: CSETBIT spec_cmd_def dispatch_def setbit_refined)
  next
    case (CBITOP a)
    show thesis
    proof (cases a)
      case (ArgAND d k1 k2)
      show thesis
        by (rule that [of d "cmd_bitop (ArgAND d k1 k2)"])
          (simp_all add: CBITOP ArgAND spec_cmd_def dispatch_def bitand_spec.refined_command_axioms)
    next
      case (ArgOR d k1 k2)
      show thesis
        by (rule that [of d "cmd_bitop (ArgOR d k1 k2)"])
          (simp_all add: CBITOP ArgOR spec_cmd_def dispatch_def bitor_spec.refined_command_axioms)
    qed (use assms CBITOP in \<open>simp_all add: specified_def\<close>)
  qed (use assms in \<open>simp_all add: specified_def\<close>)
qed

text \<open>What goes back over the wire.\<close>

definition wire :: "reply \<Rightarrow> (bytes, bytes) result" where
  "wire r =
     (case r of
        Ok (Some v) \<Rightarrow> Ok (ser v)
      | Ok None \<Rightarrow> Ok []
      | Err e \<Rightarrow> Err (into_error_bytes e)
      | Panic \<Rightarrow> Panic)"

lemma abs_data_cong: "h_data h = h_data g \<Longrightarrow> abs_data h = abs_data g"
  by (simp add: abs_data_def look_def fun_eq_iff)

lemma before_clock [simp]: "h_clock (before_cmd c b m h) = h_clock h" "h_reads (before_cmd c b m h) = h_reads h"
  by (simp_all add: before_cmd_def on_reg_def count_bytes_def Let_def)

text \<open>A data command leaves the clients as they are.\<close>

definition steady :: "cmd_handler \<Rightarrow> cmd_handler \<Rightarrow> bool" where
  "steady h h' \<longleftrightarrow> same_clients h h' \<and> h_clock h' = h_clock h"

lemma steady_trans: "steady h g \<Longrightarrow> steady g k \<Longrightarrow> steady h k"
  by (auto simp: steady_def intro: same_clients_trans)

lemma steady_after: "steady h (fst (after_ok c b m s r h))" "steady h (fst (after_err b m s e h))"
proof -
  have "h_clock (fold (\<lambda>i. push i b) is h) = h_clock h" for "is" and h :: cmd_handler
    by (induction "is" arbitrary: h) (simp_all add: push_def)
  then show "steady h (fst (after_ok c b m s r h))" "steady h (fst (after_err b m s e h))"
    by (simp_all add: steady_def same_clients_after)
      (simp_all add: after_ok_def after_err_def broadcast_def count_bytes_def Let_def)
qed

lemma spec_handle:
  assumes "specified c" and "handler_inv h" and "free_client cl h" and "\<not> is_master cl (h_table h)"
    and "snd (handle X (Ok c) b cl ep h) \<noteq> Panic"
  shows "spec_cmd (h_clock h (h_reads h)) c (abs_data h) = (K, r) \<Longrightarrow>
      abs_data (fst (handle X (Ok c) b cl ep h)) = K \<and> snd (handle X (Ok c) b cl ep h) = wire r"
    and "steady h (fst (handle X (Ok c) b cl ep h))"
proof -
  obtain key run where r: "refined_command key run (\<lambda>now. spec_cmd now c)"
    "\<And>X ex cl ep h. dispatch X ex c cl ep h = run h"
    using spec_run [OF assms(1)] by blast
  let ?g = "before_cmd c b False h"
  note run = refined_command.refines [OF r(1), of ?g]
  have inv: "store_inv (h_data ?g)" using assms(2) by (simp add: handler_inv_def)
  have g: "abs_data ?g = abs_data h" by (rule abs_data_cong) simp
  have sg: "steady h ?g" by (simp add: steady_def same_clients_before)
  have sr: "steady ?g (fst (run ?g))"
    using keyed_command.data_only [OF refined_command.axioms(1) [OF r(1)], of ?g]
    by (auto simp: steady_def same_clients_def dest: only_dataD)
  have m: "is_master cl (h_table h) = False" using assms(4) by simp
  have "\<not> is_transaction cl (h_reg h)" using assms(3) by (simp add: free_client_def)
  then have hd: "handle X (Ok c) b cl ep h =
      (case execute 2 X c b cl (Some ep) True h of
         (h1, Ok out) \<Rightarrow> (h1, Ok (bytes_or_none out))
       | (h1, Err out) \<Rightarrow> (h1, Err (bytes_or_none out))
       | (h1, Panic) \<Rightarrow> (h1, Panic))"
    by (simp add: handle_def)
  have "\<not> (is_subscriber cl h \<and> \<not> is_cmd_subscriber_allowed c)" "host_stats (h_states h) \<noteq> None"
    using assms(3) by (simp_all add: free_client_def)
  then have "(spec_cmd (h_clock h (h_reads h)) c (abs_data h) = (K, r) \<longrightarrow>
      abs_data (fst (handle X (Ok c) b cl ep h)) = K \<and> snd (handle X (Ok c) b cl ep h) = wire r) \<and>
      steady h (fst (handle X (Ok c) b cl ep h))"
  proof (cases rule: execute_cases [where n = 2 and X = X and b = b and ep = "Some ep" and s = True])
    case (ok h1 v)
    with r(2) m have d: "run ?g = (h1, Ok (Some v))" by auto
    with run inv g have sp: "spec_cmd (h_clock h (h_reads h)) c (abs_data h) = (abs_data h1, Ok (Some v))" by simp
    obtain h2 z where a: "after_ok c b False True v h1 = (h2, z)" by fastforce
    have h2: "abs_data h2 = abs_data h1" using after_fields(1) [of c b False True v h1] a by (intro abs_data_cong) simp
    have "serializable v"
    proof (rule ccontr)
      assume "\<not> serializable v"
      then have "\<exists>e. serialize v = Err e \<or> serialize v = Panic"
        using serialize_Ok_serializable by (cases "serialize v") auto
      then have "z = Panic" using a by (auto simp: after_ok_def to_output_def Let_def)
      with assms(5) hd ok(1) m a show False by simp
    qed
    then have "z = Ok (CoBytes (ser v))"
      using a by (auto simp: after_ok_def to_output_def serialize_ok Let_def)
    then show ?thesis
      using sp h2 hd ok(1) m a steady_trans [OF sg steady_trans [OF sr]] steady_after(1) [of h1 c b False True v] d
      by (auto simp: wire_def bytes_or_none_def extract_bytes_def)
  next
    case (quiet h1)
    with r(2) m have d: "run ?g = (h1, Ok None)" by auto
    with run inv g have sp: "spec_cmd (h_clock h (h_reads h)) c (abs_data h) = (abs_data h1, Ok None)" by simp
    then show ?thesis
      using hd quiet(1) steady_trans [OF sg sr] d by (auto simp: wire_def bytes_or_none_def extract_bytes_def)
  next
    case (error h1 e)
    with r(2) m have d: "run ?g = (h1, Err e)" by auto
    with run inv g have sp: "spec_cmd (h_clock h (h_reads h)) c (abs_data h) = (abs_data h1, Err e)" by simp
    have "abs_data (fst (after_err b False True e h1)) = abs_data h1" by (intro abs_data_cong) simp
    then show ?thesis
      using sp hd error(1) m steady_trans [OF sg steady_trans [OF sr]] steady_after(2) [of h1 b False True e] d
      by (auto simp: wire_def after_err_def bytes_or_none_def extract_bytes_def)
  next
    case (panic h1)
    with assms(5) hd show ?thesis by simp
  qed
  then show "spec_cmd (h_clock h (h_reads h)) c (abs_data h) = (K, r) \<Longrightarrow>
      abs_data (fst (handle X (Ok c) b cl ep h)) = K \<and> snd (handle X (Ok c) b cl ep h) = wire r"
    and "steady h (fst (handle X (Ok c) b cl ep h))" by auto
qed

section \<open>Sessions\<close>

text \<open>
  The requests of a session on the real handler, with what each of them is answered and what the
  clock shows when it starts; and the same session on the specification.
\<close>

fun session_replies :: "externals \<Rightarrow> session \<Rightarrow> cmd_handler \<Rightarrow> (bytes, bytes) result list" where
  "session_replies X [] h = []"
| "session_replies X ((cl, c, b) # ss) h =
     (case handle X (Ok c) b cl True h of (h1, r) \<Rightarrow> r # session_replies X ss h1)"

fun session_times :: "externals \<Rightarrow> session \<Rightarrow> cmd_handler \<Rightarrow> u64 list" where
  "session_times X [] h = []"
| "session_times X ((cl, c, b) # ss) h =
     h_clock h (h_reads h) # session_times X ss (fst (handle X (Ok c) b cl True h))"

fun spec_session :: "(u64 \<times> cmd) list \<Rightarrow> keyspace \<Rightarrow> keyspace \<times> (bytes, bytes) result list" where
  "spec_session [] K = (K, [])"
| "spec_session ((now, c) # cs) K =
     (case spec_cmd now c K of (K1, r) \<Rightarrow> map_prod id (Cons (wire r)) (spec_session cs K1))"

definition session_cmds :: "session \<Rightarrow> cmd list" where
  "session_cmds ss = map (\<lambda>(cl, c, b). c) ss"

definition data_session :: "session \<Rightarrow> cmd_handler \<Rightarrow> bool" where
  "data_session ss h \<longleftrightarrow>
     list_all (\<lambda>(cl, c, b). specified c \<and> free_client cl h \<and> \<not> is_master cl (h_table h)) ss"

lemma data_session_steady:
  assumes "steady h h'" and "data_session ss h"
  shows "data_session ss h'"
proof -
  have "same_clients h h'" and t: "h_table h' = h_table h" using assms(1) by (simp_all add: steady_def same_clients_def)
  with assms(2) show ?thesis by (auto simp: data_session_def list_all_iff t intro: free_same)
qed

lemma session_refined:
  assumes "handler_inv h" and "data_session ss h" and "Panic \<notin> set (session_replies X ss h)"
  shows "spec_session (zip (session_times X ss h) (session_cmds ss)) (abs_data h) =
    (abs_data (session_run X ss h), session_replies X ss h)"
  using assms
proof (induction ss arbitrary: h)
  case (Cons s ss)
  obtain cl c b where s: "s = (cl, c, b)" by (cases s)
  obtain h1 r where h1: "handle X (Ok c) b cl True h = (h1, r)" by fastforce
  obtain K v where K: "spec_cmd (h_clock h (h_reads h)) c (abs_data h) = (K, v)" by fastforce
  from Cons.prems(2) s have p: "specified c" "free_client cl h" "\<not> is_master cl (h_table h)"
    and ss: "data_session ss h" by (simp_all add: data_session_def)
  from Cons.prems(3) s h1 have n: "snd (handle X (Ok c) b cl True h) \<noteq> Panic"
    and ns: "Panic \<notin> set (session_replies X ss h1)" by auto
  note one = spec_handle [OF p(1) Cons.prems(1) p(2,3) n]
  from inv_handle [OF Cons.prems(1), of X "Ok c" b cl True] h1 have "handler_inv h1" by simp
  moreover from one(2) h1 ss have "data_session ss h1" by (auto intro: data_session_steady)
  ultimately have "spec_session (zip (session_times X ss h1) (session_cmds ss)) (abs_data h1) =
      (abs_data (session_run X ss h1), session_replies X ss h1)" using ns by (rule Cons.IH)
  then show ?case using one(1) [OF K] h1 K s by (simp add: session_cmds_def)
qed (simp add: session_cmds_def)

section \<open>From bytes to bytes\<close>

text \<open>The requests of one connection, as a session, and the bytes of a reply.\<close>

definition conn_session :: "u64 \<Rightarrow> resp_type list \<Rightarrow> cmd list \<Rightarrow> session" where
  "conn_session fd ts cs = map (\<lambda>(t, c). (fd, c, ser t)) (zip ts cs)"

definition reply_bytes :: "(bytes, bytes) result \<Rightarrow> bytes" where
  "reply_bytes r = (case r of Ok b \<Rightarrow> b | Err b \<Rightarrow> b | Panic \<Rightarrow> [])"

text \<open>A client in the usual state: logged in, free to run any command, no master, a socket that takes everything.\<close>

definition data_client :: "tcp_client \<Rightarrow> cmd_handler \<Rightarrow> bool" where
  "data_client c h \<longleftrightarrow> check_auth (tc_fd c) (h_auth h) \<and> free_client (tc_fd c) h \<and>
     \<not> is_master (tc_fd c) (h_table h) \<and> rp_status (tc_repl c) \<noteq> Some Master \<and> tc_stream c = []"

lemma data_client_steady: "steady h h' \<Longrightarrow> data_client c h \<Longrightarrow> data_client (c\<lparr>tc_sent := b\<rparr>) h'"
  using free_same [of h h'] by (auto simp: data_client_def steady_def same_clients_def)

lemma serve_spec_value:
  assumes "wf_resp t" and "from_resp t = Ok cd" and "data_client c h"
    and "handle X (Ok cd) (ser t) (tc_fd c) True h = (h1, r)"
  shows "serve_value X t c h =
    (if r = Panic then ((c, h1), Panic) else ((c\<lparr>tc_sent := tc_sent c @ reply_bytes r\<rparr>, h1), Ok ()))"
  using assms
  by (cases r)
    (simp_all add: serve_value_def serialize_ok wf_resp_serializable respond_def data_client_def write_all_ok reply_bytes_def)

lemma serve_values_session:
  assumes "list_all wf_resp ts" and "map from_resp ts = map Ok cs" and "list_all specified cs"
    and "handler_inv h" and "data_client c h" and "snd (serve_values X ts c h) \<noteq> Panic"
  shows "Panic \<notin> set (session_replies X (conn_session (tc_fd c) ts cs) h) \<and>
    serve_values X ts c h =
      ((c\<lparr>tc_sent := tc_sent c @ concat (map reply_bytes (session_replies X (conn_session (tc_fd c) ts cs) h))\<rparr>,
        session_run X (conn_session (tc_fd c) ts cs) h), Ok ())"
  using assms
proof (induction ts arbitrary: cs c h)
  case (Cons t ts)
  obtain cd cs' where cs: "cs = cd # cs'" using Cons.prems(2) by (cases cs) auto
  obtain h1 r where h1: "handle X (Ok cd) (ser t) (tc_fd c) True h = (h1, r)" by fastforce
  from Cons.prems(1-3) cs have p: "wf_resp t" "from_resp t = Ok cd" "specified cd"
    and q: "list_all wf_resp ts" "map from_resp ts = map Ok cs'" "list_all specified cs'" by simp_all
  note v = serve_spec_value [OF p(1,2) Cons.prems(5) h1]
  have r: "r \<noteq> Panic" using Cons.prems(6) v by auto
  let ?c = "c\<lparr>tc_sent := tc_sent c @ reply_bytes r\<rparr>"
  from Cons.prems(5) have cl: "free_client (tc_fd c) h" "\<not> is_master (tc_fd c) (h_table h)"
    by (simp_all add: data_client_def)
  have "steady h h1"
    using spec_handle(2) [OF p(3) Cons.prems(4) cl, of X "ser t" True] h1 r by simp
  then have "data_client ?c h1" using Cons.prems(5) by (rule data_client_steady)
  moreover have "handler_inv h1" using inv_handle [OF Cons.prems(4), of X "Ok cd" "ser t" "tc_fd c" True] h1 by simp
  moreover have "snd (serve_values X ts ?c h1) \<noteq> Panic" using Cons.prems(6) v r by simp
  ultimately show ?case
    using Cons.IH [OF q, of h1 ?c] v r h1 cs by (simp add: conn_session_def)
qed (simp add: conn_session_def)

lemma times_readings: "data_session ss h \<Longrightarrow> handler_inv h \<Longrightarrow> Panic \<notin> set (session_replies X ss h) \<Longrightarrow>
  set (session_times X ss h) \<subseteq> range (h_clock h) \<and> length (session_times X ss h) = length ss"
proof (induction ss arbitrary: h)
  case (Cons s ss)
  obtain cl c b where s: "s = (cl, c, b)" by (cases s)
  obtain h1 r where h1: "handle X (Ok c) b cl True h = (h1, r)" by fastforce
  from Cons.prems(1) s have p: "specified c" "free_client cl h" "\<not> is_master cl (h_table h)"
    and ss: "data_session ss h" by (simp_all add: data_session_def)
  from Cons.prems(3) s h1 have n: "snd (handle X (Ok c) b cl True h) \<noteq> Panic"
    and ns: "Panic \<notin> set (session_replies X ss h1)" by auto
  from spec_handle(2) [OF p(1) Cons.prems(2) p(2,3) n] h1 have st: "steady h h1" by simp
  moreover have "handler_inv h1" using inv_handle [OF Cons.prems(2), of X "Ok c" b cl True] h1 by simp
  ultimately show ?case
    using Cons.IH [OF data_session_steady [OF st ss] _ ns] h1 s by (auto simp: steady_def)
qed simp

lemma read_socket_refined:
  assumes "list_all wf_resp ts" and "ts \<noteq> []" and "map from_resp ts = map Ok cs" and "list_all specified cs"
    and "handler_inv h" and "idle c" and "data_client c h"
    and "read_socket X (Some (concat (map ser ts))) c h = Some ((c', h'), r)" and "r \<noteq> Panic"
  shows "\<exists>now rs. length now = length cs \<and> set now \<subseteq> range (h_clock h) \<and>
    spec_session (zip now cs) (abs_data h) = (abs_data h', rs) \<and>
    tc_sent c' = tc_sent c @ concat (map reply_bytes rs)"
proof -
  have ord: "rp_status (tc_repl c) \<noteq> Some Master" using assms(7) by (simp add: data_client_def)
  obtain c1 h1 r1 where sv: "serve_values X ts c h = ((c1, h1), r1)" by (metis surj_pair)
  with read_socket_values [OF assms(1,2,6) ord, of X h] assms(8)
  have eq: "h1 = h'" "r1 = r" "tc_sent c1 = tc_sent c'" by auto
  let ?ss = "conn_session (tc_fd c) ts cs"
  have ser: "Panic \<notin> set (session_replies X ?ss h)"
    "tc_sent c' = tc_sent c @ concat (map reply_bytes (session_replies X ?ss h))" "h' = session_run X ?ss h"
    using serve_values_session [OF assms(1,3,4,5,7), of X] sv eq assms(9) by auto
  have len: "length ts = length cs" using assms(3) by (metis length_map)
  have "data_session ?ss h"
    using assms(4,7) by (auto simp: data_session_def conn_session_def list_all_iff data_client_def set_zip)
  note ds = this
  have "session_cmds ?ss = map snd (zip ts cs)" by (auto simp: session_cmds_def conn_session_def)
  with len have cmds: "session_cmds ?ss = cs" by simp
  show ?thesis
    using session_refined [OF assms(5) ds ser(1)] times_readings [OF ds assms(5) ser(1)] ser(2,3) cmds len
    by (intro exI [of _ "session_times X ?ss h"]) (simp add: conn_session_def)
qed

section \<open>A deadline in the wrong unit\<close>

text \<open>
  \<open>spec_deadline\<close> counts EX in seconds and \<open>spec_get\<close> compares with milliseconds: with any
  realistic clock a key stored with EX is gone at the next GET.
\<close>

lemma set_ex_expired:
  assumes "1000000000000 \<le> unat (h_clock h (h_reads h))" and "unat t \<le> 10000000"
    and "h_clock h (h_reads h) \<le> h_clock h (Suc (h_reads h))"
  shows "snd (cmd_get k (fst (cmd_set k v (Some (ArgEX (Some t))) h))) = reply nil_bulk"
proof -
  define now where "now = h_clock h (h_reads h)"
  have n: "unat (now div 1000) = unat now div 1000" by (simp add: unat_div)
  have "unat (now div 1000 + t) \<le> unat (now div 1000) + unat t"
    by (simp add: unat_word_ariths(1))
  also have "\<dots> < unat now"
    using assms(1,2) div_times_less_eq_dividend [of "unat now" 1000] unfolding n now_def [symmetric] by linarith
  finally have "now div 1000 + t < now" by (simp add: word_less_nat_alt)
  then have "now div 1000 + t < h_clock h (Suc (h_reads h))"
    using assms(3) unfolding now_def by (rule less_le_trans)
  then show ?thesis using set_ex_get [of k v t h] by (simp add: now_def)
qed

end
