(* ===== verification/CalmSessions.thy ===== *)
theory CalmSessions
  imports KeySpaceCorrect
begin

text \<open>
  The data commands that cannot panic: what a request must not contain, and what the stored
  sorted sets must be free of, for a session of any length to be answered to its end.
\<close>

section \<open>Arguments and states\<close>

text \<open>A score that is not a number makes the comparisons of the ordered index panic.\<close>

definition calm_value :: "store_value \<Rightarrow> bool" where
  "calm_value v = (case v of VZSet z \<Rightarrow> zs_ordered z | _ \<Rightarrow> True)"

definition calm :: "cmd_handler \<Rightarrow> bool" where
  "calm h \<longleftrightarrow> (\<forall>k it. look k h = Some it \<longrightarrow> calm_value (item_value it))"

definition calm_args :: "cmd \<Rightarrow> bool" where
  "calm_args c =
     (case c of
        CSET _ _ (Some (ArgEX None)) \<Rightarrow> False
      | CSET _ _ (Some (ArgPX None)) \<Rightarrow> False
      | CXRANGE _ lo hi \<Rightarrow> lo \<le> hi
      | CZADD _ s _ \<Rightarrow> \<not> is_nan s
      | _ \<Rightarrow> True)"

lemma calm_cong: "h_data h' = h_data h \<Longrightarrow> calm h' = calm h"
  by (simp add: calm_def look_def)

lemma calm_fresh: "h_data h = [] \<Longrightarrow> calm h"
  by (simp add: calm_def look_def)

section \<open>The contract\<close>

locale calm_command = keyed_command +
  assumes no_panic: "calm h \<Longrightarrow> store_inv (h_data h) \<Longrightarrow> snd (run h) \<noteq> Panic"
    and key_calm: "calm h \<Longrightarrow> store_inv (h_data h) \<Longrightarrow> look key (fst (run h)) = Some it \<Longrightarrow>
      calm_value (item_value it)"
begin

lemma stays_calm:
  assumes "calm h" and "store_inv (h_data h)"
  shows "calm (fst (run h))"
  unfolding calm_def
proof (intro allI impI)
  fix k it assume "look k (fst (run h)) = Some it"
  with key_calm [OF assms] other_keys assms(1) show "calm_value (item_value it)"
    by (cases "k = key") (auto simp: calm_def)
qed

end

lemma calm_read:
  assumes "\<And>h. calm h \<Longrightarrow> store_inv (h_data h) \<Longrightarrow> f h \<noteq> Panic"
  shows "calm_command key (\<lambda>h. (h, f h))"
  using assms by (intro calm_command.intro keyed_read) (auto simp: calm_command_axioms_def calm_def)

lemma calm_create:
  assumes "keyed_command key (create_then key v act)" and "calm_value v" and "value_inv v"
    and "\<And>it h. calm_value (item_value it) \<Longrightarrow> value_inv (item_value it) \<Longrightarrow> look key h = Some it \<Longrightarrow>
      snd (act it h) \<noteq> Panic \<and> (\<forall>j. look key (fst (act it h)) = Some j \<longrightarrow> calm_value (item_value j))"
  shows "calm_command key (create_then key v act)"
proof -
  have "snd (create_then key v act h) \<noteq> Panic \<and>
      (\<forall>j. look key (fst (create_then key v act h)) = Some j \<longrightarrow> calm_value (item_value j))"
    if h: "calm h" "store_inv (h_data h)" for h
  proof -
    obtain h1 it where oi: "or_insert key v h = (h1, it)" by fastforce
    have "calm_value (item_value it)"
      using oi assms(2) h(1) by (auto simp: or_insert_def calm_def split: option.splits)
    from assms(4) [OF this or_insert_inv(2,3) [OF oi h(2) assms(3)]] oi show ?thesis
      by (simp add: create_then_def)
  qed
  with assms(1) show ?thesis
    by (intro calm_command.intro) (auto simp: calm_command_axioms_def)
qed

section \<open>The commands that fulfil it\<close>

lemmas calm_simps = calm_value_def reply_def

lemma set_calm:
  assumes "calm_args (CSET k v opt)"
  shows "calm_command k (cmd_set k v opt)"
proof (intro calm_command.intro set_cmd.keyed_command_axioms calm_command_axioms.intro)
  fix h
  have "snd (extract_deadline opt h) \<noteq> Panic"
    using assms
    by (auto simp: extract_deadline_def calm_args_def tick_def split: option.splits cmd_arg.splits)
  then obtain h1 e where "extract_deadline opt h = (h1, Ok e)"
    using deadline_spec [of opt h] by (metis prod.collapse)
  then have run: "cmd_set k v opt h = (put k (item (VStr v) e) h1, reply response_ok)" by (simp add: cmd_set_def)
  then show "snd (cmd_set k v opt h) \<noteq> Panic" by (simp add: reply_def)
  show "look k (fst (cmd_set k v opt h)) = Some it \<Longrightarrow> calm_value (item_value it)" for it
    by (auto simp: run calm_value_def)
qed

interpretation get_calm: calm_command key "cmd_get key" for key
proof (intro calm_command.intro get_cmd.keyed_command_axioms calm_command_axioms.intro)
  fix h
  show "snd (cmd_get key h) \<noteq> Panic"
    by (simp add: cmd_get_def tick_def reply_def split: option.split store_value.split)
  have "fst (cmd_get key h) = h \<or> fst (cmd_get key h) = snd (tick h)"
    by (auto simp: cmd_get_def split: option.splits store_value.splits prod.splits)
  then have "look key (fst (cmd_get key h)) = look key h" by (auto simp: look_def data_steps)
  then show "calm h \<Longrightarrow> look key (fst (cmd_get key h)) = Some it \<Longrightarrow> calm_value (item_value it)" for it
    by (simp add: calm_def)
qed

interpretation incr_calm: calm_command key "cmd_incr key" for key
  unfolding create_shapes
  by (rule calm_create [OF incr_cmd.keyed_command_axioms [unfolded create_shapes]])
    (auto simp: calm_simps split: store_value.splits result.splits)

interpretation rpush_calm: calm_command key "cmd_rpush key vs" for key vs
  unfolding create_shapes
  by (rule calm_create [OF rpush_cmd.keyed_command_axioms [unfolded create_shapes]])
    (auto simp: calm_simps split: store_value.splits)

interpretation lpush_calm: calm_command key "cmd_lpush key vs" for key vs
  unfolding cmd_lpush_shape
  by (rule calm_create [OF lpush_cmd.keyed_command_axioms [unfolded cmd_lpush_shape]])
    (auto simp: calm_simps Let_def split: store_value.splits)

interpretation lpop_calm: calm_command key "cmd_lpop key n" for key n
proof (intro calm_command.intro lpop_cmd.keyed_command_axioms calm_command_axioms.intro)
  fix h
  show "snd (cmd_lpop key n h) \<noteq> Panic"
    by (simp add: cmd_lpop_def Let_def reply_def split: option.split store_value.split list.split)
  show "calm h \<Longrightarrow> look key (fst (cmd_lpop key n h)) = Some it \<Longrightarrow> calm_value (item_value it)" for it
    by (auto simp: cmd_lpop_def Let_def calm_def calm_value_def split: option.splits store_value.splits list.splits)
qed

interpretation type_calm: calm_command key "\<lambda>h. (h, cmd_type key h)" for key
  by (rule calm_read) (simp add: cmd_type_def reply_def)

interpretation llen_calm: calm_command key "\<lambda>h. (h, cmd_llen key h)" for key
  by (rule calm_read) (simp add: cmd_llen_def reply_def split: option.split store_value.split)

lemma xadd_id_calm: "xadd_id i now b \<noteq> Panic"
  by (simp add: xadd_id_def case_prod_beta split: option.split prod.split)

interpretation xadd_calm: calm_command key "cmd_xadd key i vs" for key i vs
  unfolding xadd_setbit_shapes
proof (rule calm_create [OF xadd_cmd.keyed_command_axioms [unfolded xadd_setbit_shapes]])
  fix it h
  let ?act = "\<lambda>it h. case item_value it of
       VStream b \<Rightarrow>
         (case xadd_clock i h of
            (now, h) \<Rightarrow>
              (case xadd_id i now b of
                 Ok sid \<Rightarrow>
                   (put_value key it (VStream (bt_insert sid vs b)) h, reply (bulk (show_stream_id sid)))
               | Err e \<Rightarrow> (h, Err e)
               | Panic \<Rightarrow> (h, Panic)))
     | _ \<Rightarrow> (h, Err (unsupported key))"
  assume "calm_value (item_value it)" "look key h = Some it"
  moreover have "look key (snd (xadd_clock i h)) = look key h" by (simp add: look_def data_steps)
  ultimately show "snd (?act it h) \<noteq> Panic \<and> (\<forall>j. look key (fst (?act it h)) = Some j \<longrightarrow> calm_value (item_value j))"
    using xadd_id_calm
    by (auto simp: calm_simps case_prod_beta split: store_value.splits result.splits)
qed (simp_all add: calm_value_def)

lemma xrange_calm:
  assumes "lo \<le> hi"
  shows "calm_command key (\<lambda>h. (h, cmd_xrange key lo hi h))"
  by (rule calm_read)
    (use assms in \<open>auto simp: cmd_xrange_def bt_range_def reply_def split: option.split store_value.split\<close>)

lemma zput_calm:
  assumes "zs_ordered z" and "zs_inv z" and "\<not> is_nan s"
  obtains z' n where "zs_add s m z = Ok (z', n)" "zs_ordered z'"
  using zs_add_returns [OF assms(1,3), of m] assms(2) by (auto simp: zs_inv_def)

lemma zs_new_calm [simp]: "calm_value (VZSet zs_new)"
  by (simp add: calm_value_def zs_ordered_def zs_new_def bt_keys_def)

lemma zadd_calm:
  assumes "\<not> is_nan s"
  shows "calm_command key (cmd_zadd key s m)"
  unfolding zset_shapes
proof (rule calm_create [OF zadd_cmd.keyed_command_axioms [unfolded zset_shapes]])
  fix it h
  let ?act = "\<lambda>it h. case item_value it of
       VZSet z \<Rightarrow>
         (case zs_add s m z of
            Ok (z', n) \<Rightarrow> (put_value key it (VZSet z') h, reply (int_reply n))
          | Err e \<Rightarrow> (h, Err e)
          | Panic \<Rightarrow> (h, Panic))
     | _ \<Rightarrow> (h, Err wrong_type)"
  assume it: "calm_value (item_value it)" "value_inv (item_value it)" "look key h = Some it"
  show "snd (?act it h) \<noteq> Panic \<and> (\<forall>j. look key (fst (?act it h)) = Some j \<longrightarrow> calm_value (item_value j))"
  proof (cases "item_value it")
    case (VZSet z)
    with it(1,2) have "zs_ordered z" "zs_inv z" by (simp_all add: calm_value_def)
    then obtain z' n where "zs_add s m z = Ok (z', n)" "zs_ordered z'" using assms by (rule zput_calm)
    with VZSet show ?thesis by (simp add: calm_simps)
  qed (use it in \<open>simp_all add: calm_value_def\<close>)
qed (simp_all add: zs_inv_new)

lemma f_of_nat_calm: "\<not> is_nan (f_of_nat n)"
proof -
  have "round_mag n 1 \<le> inf_bits" by (simp add: round_mag_def Let_def)
  moreover from this have "mag_bits (f_of_nat n) = round_mag n 1"
    unfolding f_of_nat_def by (subst mag_bits_make) (auto simp: inf_bits_def)
  ultimately show ?thesis by (simp add: is_nan_def)
qed

lemma geo_score_calm: "geo_score long lat \<noteq> Panic" "geo_score long lat = Ok s \<Longrightarrow> \<not> is_nan s"
proof -
  have p: "of_parse_float (parse_f64 x) \<noteq> Panic" for x
    by (simp add: parse_f64_def Let_def split: option.split)
  have e: "geo_encode x y \<noteq> Panic" for x y by (simp add: geo_encode_def)
  show "geo_score long lat \<noteq> Panic"
  proof (cases "of_parse_float (parse_f64 long)")
    case x: (Ok x)
    show ?thesis
    proof (cases "of_parse_float (parse_f64 lat)")
      case (Ok y)
      with x e [of x y] show ?thesis by (cases "geo_encode x y") (simp_all add: geo_score_def)
    qed (use x p in \<open>simp_all add: geo_score_def\<close>)
  qed (use p in \<open>simp_all add: geo_score_def\<close>)
  show "geo_score long lat = Ok s \<Longrightarrow> \<not> is_nan s"
    by (auto simp: geo_score_def rbind_Ok_iff f_of_nat_calm)
qed

interpretation geoadd_calm: calm_command key "cmd_geoadd key long lat m" for key long lat m
  unfolding zset_shapes
proof (rule calm_create [OF geoadd_cmd.keyed_command_axioms [unfolded zset_shapes]])
  fix it h
  let ?act = "\<lambda>it h. case geo_score long lat of
       Ok score \<Rightarrow>
         (case item_value it of
            VZSet z \<Rightarrow>
              (case zs_add score m z of
                 Ok (z', n) \<Rightarrow> (put_value key it (VZSet z') h, reply (int_reply n))
               | Err e \<Rightarrow> (h, Err e)
               | Panic \<Rightarrow> (h, Panic))
          | _ \<Rightarrow> (h, Err wrong_type))
     | Err e \<Rightarrow> (h, Err e)
     | Panic \<Rightarrow> (h, Panic)"
  assume it: "calm_value (item_value it)" "value_inv (item_value it)" "look key h = Some it"
  show "snd (?act it h) \<noteq> Panic \<and> (\<forall>j. look key (fst (?act it h)) = Some j \<longrightarrow> calm_value (item_value j))"
  proof (cases "geo_score long lat")
    case (Ok s)
    show ?thesis
    proof (cases "item_value it")
      case (VZSet z)
      with it(1,2) have "zs_ordered z" "zs_inv z" by (simp_all add: calm_value_def)
      then obtain z' n where "zs_add s m z = Ok (z', n)" "zs_ordered z'"
        using geo_score_calm(2) [OF Ok] by (rule zput_calm)
      with VZSet Ok show ?thesis by (simp add: calm_simps)
    qed (use it Ok in \<open>simp_all add: calm_value_def\<close>)
  qed (use it geo_score_calm(1) in auto)
qed (simp_all add: zs_inv_new)

lemma zrem_returns:
  assumes "zs_ordered z" and "zs_inv z"
  obtains z' n where "zs_remove m z = Ok (z', n)" "zs_ordered z'"
proof (cases "hm_get (zs_members z) m")
  case None
  with that [of z] assms(1) show thesis by (simp add: zs_remove_absent)
next
  case (Some s)
  have k: "(score_key s, m) \<in> bt_keys (zs_scores z)"
    using assms(2) Some by (auto simp: zs_inv_def)
  with assms(1) have "\<not> cmp_panics (score_key s, m) (zs_scores z)"
    by (auto simp: cmp_panics_iff zs_ordered_def)
  then obtain z' n where z: "zs_remove m z = Ok (z', n)" by (auto simp: zs_remove_def Some sc_remove_def)
  with zs_remove_Ok(5) [OF z assms(2) Some] that show thesis by (simp add: zs_ordered_def)
qed

interpretation zrem_calm: calm_command key "cmd_zrem key m" for key m
proof (intro calm_command.intro zrem_cmd.keyed_command_axioms calm_command_axioms.intro)
  fix h assume h: "calm h" "store_inv (h_data h)"
  have all: "snd (cmd_zrem key m h) \<noteq> Panic \<and>
      (\<forall>j. look key (fst (cmd_zrem key m h)) = Some j \<longrightarrow> calm_value (item_value j))"
  proof (cases "look key h")
    case (Some it)
    with h have it: "calm_value (item_value it)" "value_inv (item_value it)"
      using look_in_store by (auto simp: calm_def)
    show ?thesis
    proof (cases "item_value it")
      case (VZSet z)
      with it have "zs_ordered z" "zs_inv z" by (simp_all add: calm_value_def)
      then obtain z' n where "zs_remove m z = Ok (z', n)" "zs_ordered z'" by (rule zrem_returns)
      with VZSet Some show ?thesis by (simp add: cmd_zrem_def calm_simps)
    qed (use Some in \<open>simp_all add: cmd_zrem_def calm_value_def\<close>)
  qed (simp add: cmd_zrem_def reply_def)
  then show "snd (cmd_zrem key m h) \<noteq> Panic"
    "look key (fst (cmd_zrem key m h)) = Some it \<Longrightarrow> calm_value (item_value it)" for it by simp_all
qed

lemma calm_on_zset: "(\<And>z. f z \<noteq> Panic) \<Longrightarrow> calm_command key (\<lambda>h. (h, on_zset key (reply a) f (Err wrong_type) h))"
  by (rule calm_read) (simp add: on_zset_def reply_def split: option.split store_value.split)

interpretation zcard_calm: calm_command key "\<lambda>h. (h, cmd_zcard key h)" for key
  unfolding cmd_zcard_def by (rule calm_on_zset) (simp add: reply_def)

interpretation zscore_calm: calm_command key "\<lambda>h. (h, cmd_zscore key m h)" for key m
  unfolding cmd_zscore_def by (rule calm_on_zset) (simp add: reply_def)

lemma setbit_map_calm: "setbit_map i b m \<noteq> Panic"
proof -
  have "bits_set m i v \<noteq> Panic" for m v by (simp add: bits_set_def Let_def)
  moreover have "bit_value_of b \<noteq> Panic" by (simp add: bit_value_of_def)
  ultimately show ?thesis
    by (cases "bit_value_of b") (auto simp: setbit_map_def split: result.split)
qed

interpretation setbit_calm: calm_command key "cmd_setbit key i b" for key i b
  unfolding xadd_setbit_shapes
  by (rule calm_create [OF setbit_cmd.keyed_command_axioms [unfolded xadd_setbit_shapes]])
    (auto simp: calm_simps setbit_map_calm split: store_value.splits result.splits)

lemma calm_bits:
  assumes "\<And>h. run h = rbind (bitop_operand key h) (\<lambda>m. reply (f m))"
  shows "calm_command key (\<lambda>h. (h, run h))"
proof (rule calm_read)
  fix h show "run h \<noteq> Panic"
    using operand_spec(2) [of key h] by (cases "bitop_operand key h") (simp_all add: assms reply_def)
qed

interpretation getbit_calm: calm_command key "\<lambda>h. (h, cmd_getbit key j h)" for key j
  by (rule calm_bits [where f = "\<lambda>m. int_reply (uint (unwrap_or_0 (bits_get m j)))"])
    (simp add: cmd_getbit_def bitop_operand_def unwrap_get bits_def split: option.split)

interpretation bitcount_calm: calm_command key "\<lambda>h. (h, cmd_bitcount key r h)" for key r
  by (rule calm_bits [where f = "\<lambda>m. int_reply (int (bit_count m r))"])
    (simp add: cmd_bitcount_def bitop_operand_def bit_count_spec range_set_def bits_def split: option.split)

interpretation strlen_calm: calm_command key "\<lambda>h. (h, cmd_strlen key h)" for key
  by (rule calm_read) (simp add: cmd_strlen_def reply_def split: option.split store_value.split)

interpretation bitop_calm: calm_command "bitop_dest a" "cmd_bitop a" for a
proof (intro calm_command.intro bitop_cmd.keyed_command_axioms calm_command_axioms.intro)
  fix h
  show "snd (cmd_bitop a h) \<noteq> Panic"
    using operand_spec(2)
    by (auto simp: cmd_bitop_def bitop_run_def reply_def split: cmd_arg.split result.split)
  show "calm h \<Longrightarrow> look (bitop_dest a) (fst (cmd_bitop a h)) = Some it \<Longrightarrow> calm_value (item_value it)" for it
    by (auto simp: cmd_bitop_def bitop_run_def bitop_dest_def bitop_store_def calm_def calm_value_def look_def put_def
        split: cmd_arg.splits result.splits if_splits)
qed

section \<open>One command\<close>

lemma dispatch_specified:
  "specified c \<Longrightarrow> dispatch X ex c cl ep =
   (case c of
      CSET k v a \<Rightarrow> cmd_set k v a | CGET k \<Rightarrow> cmd_get k | CINCR k \<Rightarrow> cmd_incr k
    | CTYPE k \<Rightarrow> (\<lambda>h. (h, cmd_type k h)) | CRPUSH k vs \<Rightarrow> cmd_rpush k vs | CLPUSH k vs \<Rightarrow> cmd_lpush k vs
    | CLPOP k n \<Rightarrow> cmd_lpop k n | CLLEN k \<Rightarrow> (\<lambda>h. (h, cmd_llen k h)) | CXADD k i vs \<Rightarrow> cmd_xadd k i vs
    | CXRANGE k i j \<Rightarrow> (\<lambda>h. (h, cmd_xrange k i j h)) | CZADD k s m \<Rightarrow> cmd_zadd k s m
    | CGEOADD k x y m \<Rightarrow> cmd_geoadd k x y m | CZREM k m \<Rightarrow> cmd_zrem k m
    | CZCARD k \<Rightarrow> (\<lambda>h. (h, cmd_zcard k h)) | CZSCORE k m \<Rightarrow> (\<lambda>h. (h, cmd_zscore k m h))
    | CSETBIT k i b \<Rightarrow> cmd_setbit k i b | CGETBIT k i \<Rightarrow> (\<lambda>h. (h, cmd_getbit k i h))
    | CBITCOUNT k r \<Rightarrow> (\<lambda>h. (h, cmd_bitcount k r h)) | CSTRLEN k \<Rightarrow> (\<lambda>h. (h, cmd_strlen k h))
    | CBITOP a \<Rightarrow> cmd_bitop a)"
  by (cases c) (simp_all add: specified_def dispatch_def fun_eq_iff)

lemma calm_run:
  assumes "specified c" and "calm_args c"
  shows "\<exists>key. calm_command key (dispatch X ex c cl ep)"
  unfolding dispatch_specified [OF assms(1)]
  using assms
  by (cases c)
    (auto simp: specified_def calm_args_def
      intro!: exI set_calm get_calm.calm_command_axioms incr_calm.calm_command_axioms
        type_calm.calm_command_axioms rpush_calm.calm_command_axioms lpush_calm.calm_command_axioms
        lpop_calm.calm_command_axioms llen_calm.calm_command_axioms xadd_calm.calm_command_axioms
        xrange_calm zadd_calm geoadd_calm.calm_command_axioms zrem_calm.calm_command_axioms
        zcard_calm.calm_command_axioms zscore_calm.calm_command_axioms setbit_calm.calm_command_axioms
        getbit_calm.calm_command_axioms bitcount_calm.calm_command_axioms strlen_calm.calm_command_axioms
        bitop_calm.calm_command_axioms)

text \<open>Every specified reply can be serialised.\<close>

lemma serializable_simple [simp]: "serializable empty_arr" "serializable (bulk_bytes b)"
  by (simp_all add: empty_arr_def bulk_bytes_def)

lemma spec_serializable:
  assumes "snd (spec_cmd now c K) = Ok (Some v)"
  shows "serializable v"
proof -
  have k: "snd (at_key k f K) = snd (f (K k))" for k f by (simp add: at_key_def case_prod_beta)
  have b: "snd (spec_bitop f d k1 k2 K) = Ok (Some v) \<Longrightarrow> serializable v" for f d k1 k2
    by (auto simp: spec_bitop_def reply_def Let_def split: option.splits prod.splits)
  show ?thesis
  proof (cases c)
    case (CBITOP a)
    with assms b show ?thesis by (cases a) (auto simp: spec_cmd_def)
  next
    case (CGEOADD key x y m)
    with assms show ?thesis
      by (auto simp: spec_cmd_def k spec_geoadd_def spec_zput_def reply_def
          split: result.splits prod.splits avalue.splits)
  next
    case (CXADD key i vs)
    with assms show ?thesis
      by (auto simp: spec_cmd_def k spec_xadd_def reply_def split: prod.splits avalue.splits result.splits)
  next
    case (CINCR key)
    with assms show ?thesis
      by (auto simp: spec_cmd_def k spec_incr_def reply_def split: prod.splits avalue.splits result.splits if_splits)
  next
    case (CSETBIT key i b)
    with assms show ?thesis
      by (auto simp: spec_cmd_def k spec_setbit_def reply_def Let_def split: prod.splits avalue.splits if_splits)
  next
    case (CLPOP key n)
    with assms show ?thesis
      by (auto simp: spec_cmd_def k spec_lpop_def reply_def built_eq list_all_iff split: option.splits prod.splits avalue.splits if_splits)
  qed (use assms in \<open>auto simp: spec_cmd_def k spec_set_def spec_get_def spec_type_def spec_push_def spec_llen_def
      spec_xrange_def spec_zput_def spec_zrem_def spec_zread_def spec_bits_def spec_strlen_def reply_def
      list_all_iff split: option.splits prod.splits avalue.splits if_splits\<close>)
qed

section \<open>Sessions\<close>

lemma calm_handle:
  assumes "specified c" and "calm_args c" and "handler_inv h" and "calm h" and "free_client cl h"
    and "\<not> is_master cl (h_table h)"
  shows "calm (fst (handle X (Ok c) b cl ep h))" and "snd (handle X (Ok c) b cl ep h) \<noteq> Panic"
proof -
  let ?g = "before_cmd c b False h"
  have g: "calm ?g" "store_inv (h_data ?g)"
    using assms(3,4) by (simp_all add: handler_inv_def calm_cong [of ?g h])
  have m: "is_master cl (h_table h) = False" using assms(6) by simp
  obtain key run where r: "refined_command key run (\<lambda>now. spec_cmd now c)"
    "\<And>X ex cl ep h. dispatch X ex c cl ep h = run h"
    using spec_run [OF assms(1)] by blast
  have d: "calm h1 \<and> r \<noteq> Panic \<and> (\<forall>v. r = Ok (Some v) \<longrightarrow> serializable v)"
    if "dispatch X ex c cl (Some ep) ?g = (h1, r)" for ex h1 r
  proof -
    obtain key where k: "calm_command key (dispatch X ex c cl (Some ep))"
      using calm_run [OF assms(1,2)] by blast
    have "calm h1" "r \<noteq> Panic"
      using calm_command.stays_calm [OF k g] calm_command.no_panic [OF k g] that by simp_all
    moreover have "snd (spec_cmd (h_clock ?g (h_reads ?g)) c (abs_data ?g)) = r"
      using refined_command.refines [OF r(1) g(2)] \<open>r \<noteq> Panic\<close> that r(2) by simp
    ultimately show ?thesis using spec_serializable by blast
  qed
  have "\<not> is_transaction cl (h_reg h)" using assms(5) by (simp add: free_client_def)
  moreover have "\<not> (is_subscriber cl h \<and> \<not> is_cmd_subscriber_allowed c)" "host_stats (h_states h) \<noteq> None"
    using assms(5) by (simp_all add: free_client_def)
  then have "calm (fst (execute 2 X c b cl (Some ep) True h)) \<and> snd (execute 2 X c b cl (Some ep) True h) \<noteq> Panic"
  proof (cases rule: execute_cases [where n = 2 and X = X and b = b and ep = "Some ep" and s = True])
    case (ok h1 v)
    then obtain ex where e: "dispatch X ex c cl (Some ep) ?g = (h1, Ok (Some v))" by (auto simp: m)
    have "calm (fst (after_ok c b False True v h1)) = calm h1" by (rule calm_cong) simp
    with ok(1) d [OF e] show ?thesis by (simp add: m after_ok_def to_output_def serialize_ok Let_def)
  next
    case (quiet h1)
    with d show ?thesis by (auto simp: m)
  next
    case (error h1 e)
    then obtain ex where x: "dispatch X ex c cl (Some ep) ?g = (h1, Err e)" by (auto simp: m)
    have "calm (fst (after_err b False True e h1)) = calm h1" by (rule calm_cong) simp
    with error(1) d [OF x] show ?thesis by (simp add: m) (simp add: after_err_def)
  next
    case (panic h1)
    with d show ?thesis by (auto simp: m)
  qed
  ultimately show "calm (fst (handle X (Ok c) b cl ep h))" "snd (handle X (Ok c) b cl ep h) \<noteq> Panic"
    by (auto simp: handle_def case_prod_beta split: result.split)
qed

lemma calm_session:
  assumes "handler_inv h" and "calm h" and "data_session ss h" and "list_all calm_args (session_cmds ss)"
  shows "Panic \<notin> set (session_replies X ss h) \<and> calm (session_run X ss h)"
  using assms
proof (induction ss arbitrary: h)
  case (Cons s ss)
  obtain cl c b where s: "s = (cl, c, b)" by (cases s)
  obtain h1 r where h1: "handle X (Ok c) b cl True h = (h1, r)" by fastforce
  from Cons.prems(3,4) s have p: "specified c" "free_client cl h" "\<not> is_master cl (h_table h)" "calm_args c"
    and ss: "data_session ss h" "list_all calm_args (session_cmds ss)"
    by (simp_all add: data_session_def session_cmds_def)
  note one = calm_handle [OF p(1,4) Cons.prems(1,2) p(2,3), of X b True]
  have "steady h h1" using spec_handle(2) [OF p(1) Cons.prems(1) p(2,3) one(2)] h1 by simp
  from data_session_steady [OF this ss(1)] have "data_session ss h1" .
  moreover have "handler_inv h1" using inv_handle [OF Cons.prems(1), of X "Ok c" b cl True] h1 by simp
  moreover have "calm h1" using one(1) h1 by simp
  ultimately have "Panic \<notin> set (session_replies X ss h1) \<and> calm (session_run X ss h1)"
    using Cons.IH ss(2) by blast
  with one(2) h1 s show ?case by simp
qed simp

text \<open>A session that panics nowhere is served to its end.\<close>

lemma serve_calm_values:
  assumes "list_all wf_resp ts" and "map from_resp ts = map Ok cs" and "list_all specified cs" and "list_all calm_args cs"
    and "handler_inv h" and "calm h" and "data_client c h"
  shows "snd (serve_values X ts c h) \<noteq> Panic"
  using assms
proof (induction ts arbitrary: cs c h)
  case (Cons t ts)
  obtain cd cs' where cs: "cs = cd # cs'" using Cons.prems(2) by (cases cs) auto
  obtain h1 r where h1: "handle X (Ok cd) (ser t) (tc_fd c) True h = (h1, r)" by fastforce
  from Cons.prems(1-4) cs have p: "wf_resp t" "from_resp t = Ok cd" "specified cd" "calm_args cd"
    and q: "list_all wf_resp ts" "map from_resp ts = map Ok cs'" "list_all specified cs'" "list_all calm_args cs'"
    by simp_all
  from Cons.prems(7) have cl: "free_client (tc_fd c) h" "\<not> is_master (tc_fd c) (h_table h)"
    by (simp_all add: data_client_def)
  note one = calm_handle [OF p(3,4) Cons.prems(5,6) cl, of X "ser t" True]
  have "steady h h1" using spec_handle(2) [OF p(3) Cons.prems(5) cl one(2)] h1 by simp
  then have "data_client (c\<lparr>tc_sent := tc_sent c @ reply_bytes r\<rparr>) h1" using Cons.prems(7) by (rule data_client_steady)
  moreover have "handler_inv h1" using inv_handle [OF Cons.prems(5), of X "Ok cd" "ser t" "tc_fd c" True] h1 by simp
  moreover have "calm h1" using one(1) h1 by simp
  ultimately show ?case
    using Cons.IH [OF q] serve_spec_value [OF p(1,2) Cons.prems(7) h1] one(2) h1 by simp
qed simp

lemma read_socket_answers:
  assumes "list_all wf_resp ts" and "ts \<noteq> []" and "map from_resp ts = map Ok cs"
    and "list_all specified cs" and "list_all calm_args cs"
    and "handler_inv h" and "calm h" and "idle c" and "data_client c h"
  shows "\<exists>c' h' now rs. read_socket X (Some (concat (map ser ts))) c h = Some ((c', h'), Ok ()) \<and>
    length now = length cs \<and> set now \<subseteq> range (h_clock h) \<and>
    spec_session (zip now cs) (abs_data h) = (abs_data h', rs) \<and>
    tc_sent c' = tc_sent c @ concat (map reply_bytes rs)"
proof -
  have ord: "rp_status (tc_repl c) \<noteq> Some Master" using assms(9) by (simp add: data_client_def)
  have n: "snd (serve_values X ts c h) \<noteq> Panic" by (rule serve_calm_values [OF assms(1,3-7,9)])
  from serve_values_session [OF assms(1,3,4,6,9) n] have "snd (serve_values X ts c h) = Ok ()" by simp
  then obtain c1 h1 where "serve_values X ts c h = ((c1, h1), Ok ())" by (metis prod.collapse)
  with read_socket_values [OF assms(1,2,8) ord, of X h] obtain c' where
    r: "read_socket X (Some (concat (map ser ts))) c h = Some ((c', h1), Ok ())" by auto
  from read_socket_refined [OF assms(1-4,6,8,9) r] r show ?thesis by blast
qed

end
