(* ===== verification/BlockedClients.thy ===== *)
theory BlockedClients
  imports ExecCorrect
begin

text \<open>
  The end of a turn and the clients blocked on lists: each list serves its waiting clients in
  the order they came, with its elements in order, until one of the two runs out. Two requests
  of the same millisecond share a timestamp, and the first of them is lost.
\<close>

section \<open>Waiting clients and elements\<close>

definition waiters :: "string \<Rightarrow> registry \<Rightarrow> u64 list" where
  "waiters k r = (case hm_get (rg_list r) k of Some q \<Rightarrow> q | None \<Rightarrow> [])"

definition elements :: "string \<Rightarrow> cmd_handler \<Rightarrow> string list" where
  "elements k h =
     (case look k h of
        Some it \<Rightarrow> (case item_value it of VList xs \<Rightarrow> xs | _ \<Rightarrow> [])
      | None \<Rightarrow> [])"

definition stamps_ok :: "registry \<Rightarrow> bool" where
  "stamps_ok r \<longleftrightarrow> (\<forall>t e. hm_get (rg_store r) t = Some e \<longrightarrow> re_ts e = t)"

definition client_of :: "registry \<Rightarrow> u64 \<Rightarrow> u64" where
  "client_of r t = re_client (the (hm_get (rg_store r) t))"

lemma stamps_ok_ops:
  "stamps_ok registry_new"
  "stamps_ok r \<Longrightarrow> re_ts e = ts \<Longrightarrow> stamps_ok (reg_insert now ts d e r)"
  "stamps_ok r \<Longrightarrow> stamps_ok (snd (reg_remove now ts r))"
  by (auto simp: stamps_ok_def registry_new_def reg_insert_store reg_remove_store stamp_def split: if_splits)

lemma elements_cong: "h_data h = h_data h' \<Longrightarrow> elements k h = elements k h'"
  by (simp add: elements_def look_def)

lemma elements_put [simp]:
  "elements k (put_value k' i (VList xs) h) = (if k = k' then xs else elements k h)"
  by (simp add: elements_def put_value_def put_def look_def)

lemma elements_look: "elements k h = x # xs \<Longrightarrow> \<exists>i. look k h = Some i \<and> item_value i = VList (x # xs)"
  by (auto simp: elements_def split: option.splits store_value.splits)

section \<open>Taking requests from the registry\<close>

lemma remove_request_fields:
  "fst (remove_request t h) = hm_get (rg_store (h_reg h)) t"
  "h_data (snd (remove_request t h)) = h_data h" "h_queue (snd (remove_request t h)) = h_queue h"
  "\<exists>now. h_reg (snd (remove_request t h)) = snd (reg_remove now t (h_reg h))"
  by (auto simp: remove_request_def tick_def case_prod_beta)

lemma filter_others: "t \<notin> set q \<Longrightarrow> filter (\<lambda>x. x \<noteq> t) q = q"
  by (auto intro: filter_True)

lemma waiters_remove:
  assumes "queues_ok r"
  shows "waiters k (snd (reg_remove now t r)) = filter (\<lambda>x. x \<noteq> t) (waiters k r)"
proof (cases "hm_get (rg_store r) t")
  case None
  then have "\<not> queued r k t" using assms by (auto simp: queues_ok_def)
  then have "filter (\<lambda>x. x \<noteq> t) (waiters k r) = waiters k r"
    by (auto simp: waiters_def queued_def filter_others split: option.split)
  then show ?thesis using None by (simp add: reg_remove_absent)
next
  case (Some e)
  have other: "t \<notin> set (waiters k r)" if "\<not> list_req k e"
  proof -
    have "\<not> queued r k t" using assms Some that by (auto simp: queues_ok_def)
    then show ?thesis by (auto simp: waiters_def queued_def split: option.split)
  qed
  have "hm_inv (rg_list r)" using assms by (simp add: queues_ok_def)
  then have "waiters k (reg_dequeue t e r) = filter (\<lambda>x. x \<noteq> t) (waiters k r)"
    using other by (cases e) (auto simp: waiters_def reg_dequeue_def Let_def filter_others split: option.splits)
  then show ?thesis by (simp add: waiters_def reg_remove_indexes(1) [OF Some])
qed

lemma take_requests_shrinks:
  "hm_get (rg_store (h_reg h)) t = None \<Longrightarrow> hm_get (rg_store (h_reg (snd (take_requests ts h)))) t = None"
proof (induction ts arbitrary: h)
  case (Cons t' ts)
  obtain now where "h_reg (snd (remove_request t' h)) = snd (reg_remove now t' (h_reg h))"
    using remove_request_fields(4) by blast
  then have "hm_get (rg_store (h_reg (snd (remove_request t' h)))) t = None"
    using Cons.prems by (simp add: reg_remove_store)
  from Cons.IH [OF this] show ?case by (simp add: case_prod_beta)
qed simp

text \<open>Requests under different timestamps are all found, and gone afterwards.\<close>

lemma take_requests_all:
  assumes "reg_inv (h_reg h)" and "distinct ts" and "\<And>t. t \<in> set ts \<Longrightarrow> hm_get (rg_store (h_reg h)) t \<noteq> None"
  shows "fst (take_requests ts h) = map (\<lambda>t. the (hm_get (rg_store (h_reg h)) t)) ts \<and>
    h_data (snd (take_requests ts h)) = h_data h \<and> h_queue (snd (take_requests ts h)) = h_queue h \<and>
    (\<forall>t \<in> set ts. hm_get (rg_store (h_reg (snd (take_requests ts h)))) t = None) \<and>
    (\<forall>k. waiters k (h_reg (snd (take_requests ts h))) = filter (\<lambda>x. x \<notin> set ts) (waiters k (h_reg h)))"
  using assms
proof (induction ts arbitrary: h)
  case (Cons t ts)
  obtain e h1 where r: "remove_request t h = (e, h1)" by fastforce
  note f = remove_request_fields [of t h, unfolded r fst_conv snd_conv]
  then obtain now where now: "h_reg h1 = snd (reg_remove now t (h_reg h))" by blast
  have inv: "reg_inv (h_reg h1)" using Cons.prems(1) by (simp add: now reg_inv_remove)
  have rest: "hm_get (rg_store (h_reg h1)) t' = hm_get (rg_store (h_reg h)) t'" if "t' \<in> set ts" for t'
    using that Cons.prems(2) by (auto simp: now reg_remove_store)
  have gone: "hm_get (rg_store (h_reg h1)) t = None" by (simp add: now reg_remove_store)
  note IH = Cons.IH [OF inv]
  obtain e' where "e = Some e'" using f(1) Cons.prems(3) [of t] by (cases e) auto
  moreover have "hm_get (rg_store (h_reg (snd (take_requests ts h1)))) t = None"
    by (rule take_requests_shrinks [OF gone])
  ultimately show ?case
    using IH rest r f Cons.prems waiters_remove [of "h_reg h"]
    by (auto simp: case_prod_beta now reg_inv_def)
qed simp

section \<open>Serving\<close>

lemma task_serves:
  assumes "hm_get (rg_store (h_reg h)) t = None" and "elements k h = x # xs"
  shows "elements k' (blpop_backlog_task k c t h) = (if k' = k then xs else elements k' h)"
    and "h_queue (blpop_backlog_task k c t h) = h_queue h @ [(c, ser (blpop_item k x))]"
    and "h_reg (blpop_backlog_task k c t h) = h_reg h"
proof -
  obtain i where i: "look k h = Some i" "item_value i = VList (x # xs)" using elements_look [OF assms(2)] by blast
  let ?p = "push c (ser (blpop_item k x)) (put_value k i (VList xs) h)"
  have "h_reg ?p = h_reg h" by (simp add: push_def put_value_def put_def)
  with assms(1) have "remove_request t ?p = (None, snd (tick ?p))"
    by (simp add: remove_request_def reg_remove_absent tick_def)
  with i have e: "blpop_backlog_task k c t h = snd (tick ?p)" by (simp add: blpop_backlog_task_def)
  have "elements k' (snd (tick ?p)) = elements k' (put_value k i (VList xs) h)"
    by (rule elements_cong) (simp add: tick_def push_def)
  then show "elements k' (blpop_backlog_task k c t h) = (if k' = k then xs else elements k' h)" by (simp add: e)
  show "h_queue (blpop_backlog_task k c t h) = h_queue h @ [(c, ser (blpop_item k x))]"
    "h_reg (blpop_backlog_task k c t h) = h_reg h"
    by (simp_all add: e tick_def push_def put_value_def put_def)
qed

text \<open>The messages for the clients \<open>q\<close> of one list with the elements \<open>xs\<close>.\<close>

definition handed :: "registry \<Rightarrow> string \<Rightarrow> u64 list \<Rightarrow> string list \<Rightarrow> (u64 \<times> bytes) list" where
  "handed r k q xs = map (\<lambda>(t, x). (client_of r t, ser (blpop_item k x))) (zip q xs)"

definition serve_key :: "registry \<Rightarrow> string \<Rightarrow> u64 list \<Rightarrow> cmd_handler \<Rightarrow> cmd_handler" where
  "serve_key r k q = fold (\<lambda>t. blpop_backlog_task k (client_of r t) t) q"

lemma serve_key_effect:
  assumes "\<And>t. t \<in> set q \<Longrightarrow> hm_get (rg_store (h_reg h)) t = None" and "length q \<le> length (elements k h)"
  shows "elements k' (serve_key r k q h) = (if k' = k then drop (length q) (elements k h) else elements k' h) \<and>
    h_queue (serve_key r k q h) = h_queue h @ handed r k q (elements k h) \<and>
    h_reg (serve_key r k q h) = h_reg h"
  using assms
proof (induction q arbitrary: h)
  case (Cons t q)
  obtain x xs where xs: "elements k h = x # xs" using Cons.prems(2) by (cases "elements k h") auto
  let ?h = "blpop_backlog_task k (client_of r t) t h"
  have "hm_get (rg_store (h_reg h)) t = None" by (rule Cons.prems(1)) simp
  note t = task_serves [OF this xs, where c = "client_of r t"]
  have "elements k ?h = xs" using t(1) by simp
  with Cons.IH [of ?h] Cons.prems t xs show ?case by (simp add: serve_key_def handed_def)
qed (simp add: serve_key_def handed_def)

definition serve_keys :: "registry \<Rightarrow> (string \<times> u64 list) list \<Rightarrow> cmd_handler \<Rightarrow> cmd_handler" where
  "serve_keys r gs = fold (\<lambda>(k, q). serve_key r k q) gs"

lemma serve_keys_effect:
  assumes "distinct (map fst gs)"
    and "\<And>k q t. (k, q) \<in> set gs \<Longrightarrow> t \<in> set q \<Longrightarrow> hm_get (rg_store (h_reg h)) t = None"
    and "\<And>k q. (k, q) \<in> set gs \<Longrightarrow> length q \<le> length (elements k h)"
  shows "(\<forall>k. elements k (serve_keys r gs h) =
        drop (case map_of gs k of Some q \<Rightarrow> length q | None \<Rightarrow> 0) (elements k h)) \<and>
    h_queue (serve_keys r gs h) = h_queue h @ concat (map (\<lambda>(k, q). handed r k q (elements k h)) gs) \<and>
    h_reg (serve_keys r gs h) = h_reg h"
  using assms
proof (induction gs arbitrary: h)
  case (Cons g gs)
  obtain k q where g: "g = (k, q)" by (cases g)
  let ?h = "serve_key r k q h"
  have pre: "\<And>t. t \<in> set q \<Longrightarrow> hm_get (rg_store (h_reg h)) t = None" "length q \<le> length (elements k h)"
    using Cons.prems(2) [of k q] Cons.prems(3) [of k q] g by auto
  have e: "elements k' ?h = (if k' = k then drop (length q) (elements k h) else elements k' h)"
    "h_queue ?h = h_queue h @ handed r k q (elements k h)" "h_reg ?h = h_reg h" for k'
    using serve_key_effect [OF pre] by simp_all
  have new: "k' \<noteq> k" if "(k', q') \<in> set gs" for k' q' using Cons.prems(1) g that by force
  have same: "map (\<lambda>(k, q). handed r k q (elements k ?h)) gs = map (\<lambda>(k, q). handed r k q (elements k h)) gs"
    using new e(1) by auto
  have none: "map_of gs k = None" using new by (simp add: map_of_eq_None_iff) force
  have "(\<forall>k'. elements k' (serve_keys r gs ?h) =
        drop (case map_of gs k' of Some q \<Rightarrow> length q | None \<Rightarrow> 0) (elements k' ?h)) \<and>
    h_queue (serve_keys r gs ?h) = h_queue ?h @ concat (map (\<lambda>(k, q). handed r k q (elements k ?h)) gs) \<and>
    h_reg (serve_keys r gs ?h) = h_reg ?h"
    using Cons.prems e new g by (intro Cons.IH) (auto simp: e)
  note served = this [unfolded same]
  moreover have "serve_keys r (g # gs) h = serve_keys r gs ?h" by (simp add: serve_keys_def g)
  ultimately show ?case using none e new by (auto simp: g)
qed (simp add: serve_keys_def)

text \<open>What \<open>serve_backlog_list\<close> takes, and that the tasks it runs are these.\<close>

lemma servable_take:
  "servable_list h = concat (map (\<lambda>(k, q). take (length (elements k h)) q) (rg_list (h_reg h)))"
proof -
  have "(\<lambda>(k, q :: u64 list). case look k h of
          Some it \<Rightarrow> (case item_value it of VList xs \<Rightarrow> take (min (length q) (length xs)) q | _ \<Rightarrow> [])
        | None \<Rightarrow> []) = (\<lambda>(k, q). take (length (elements k h)) q)"
    by (auto simp: fun_eq_iff elements_def min_def split: option.split store_value.split)
  then show ?thesis by (simp only: servable_list_def)
qed

definition groups :: "cmd_handler \<Rightarrow> (string \<times> u64 list) list" where
  "groups h = map (\<lambda>(k, q). (k, take (length (elements k h)) q)) (rg_list (h_reg h))"

lemma servable_groups: "servable_list h = concat (map snd (groups h))"
  by (simp add: servable_take groups_def comp_def case_prod_unfold)

lemma tasks_serve:
  assumes "stamps_ok r" and "\<And>k q t. (k, q) \<in> set gs \<Longrightarrow> t \<in> set q \<Longrightarrow> \<exists>e. hm_get (rg_store r) t = Some e \<and> list_req k e"
  shows "fold run_backlog_task (filter is_list_entry (map (\<lambda>t. the (hm_get (rg_store r) t)) (concat (map snd gs)))) h =
    serve_keys r gs h"
  using assms(2)
proof (induction gs arbitrary: h)
  case (Cons g gs)
  obtain k q where g: "g = (k, q)" by (cases g)
  have one: "fold run_backlog_task (filter is_list_entry (map (\<lambda>t. the (hm_get (rg_store r) t)) q)) h = serve_key r k q h"
    if "\<And>t. t \<in> set q \<Longrightarrow> \<exists>e. hm_get (rg_store r) t = Some e \<and> list_req k e" for q h
    using that
  proof (induction q arbitrary: h)
    case (Cons t q)
    then obtain e where e: "hm_get (rg_store r) t = Some e" "list_req k e" by fastforce
    moreover have "re_ts e = t" using assms(1) e(1) by (simp add: stamps_ok_def)
    ultimately obtain d where "e = ListReq k d (client_of r t) t"
      by (cases e) (simp_all add: client_of_def)
    with e(1) Cons show ?case by (simp add: serve_key_def is_list_entry_def run_backlog_task_def)
  qed (simp add: serve_key_def)
  have "fold run_backlog_task (filter is_list_entry (map (\<lambda>t. the (hm_get (rg_store r) t)) q)) h =
      serve_key r k q h"
    by (rule one) (use Cons.prems [of k q] g in simp)
  moreover have "fold run_backlog_task
      (filter is_list_entry (map (\<lambda>t. the (hm_get (rg_store r) t)) (concat (map snd gs)))) h' = serve_keys r gs h'" for h'
    by (rule Cons.IH, rule Cons.prems) simp_all
  ultimately show ?case by (simp add: g serve_keys_def)
qed (simp add: serve_keys_def)

section \<open>The end of a turn\<close>

lemma handed_take: "handed r k (take (length xs) q) xs = handed r k q xs"
proof -
  have "zip (take (length xs) q) xs = zip q xs"
  proof (induction xs arbitrary: q)
    case (Cons x xs)
    then show ?case by (cases q) simp_all
  qed simp
  then show ?thesis by (simp add: handed_def)
qed

lemma filter_rest: "distinct q \<Longrightarrow> filter (\<lambda>x. x \<notin> set (take n q)) q = drop n q"
proof -
  assume "distinct q"
  then have d: "set (take n q) \<inter> set (drop n q) = {}" by (rule set_take_disj_set_drop_if_distinct) simp
  have "filter (\<lambda>x. x \<notin> set (take n q)) (take n q @ drop n q) = drop n q"
    using d by (simp only: filter_append) (auto intro: filter_True)
  then show ?thesis by simp
qed

lemma distinct_groups:
  assumes "distinct (map fst gs)" and "\<And>k q. (k, q) \<in> set gs \<Longrightarrow> distinct q"
    and "\<And>k q k' q' t. (k, q) \<in> set gs \<Longrightarrow> (k', q') \<in> set gs \<Longrightarrow> t \<in> set q \<Longrightarrow> t \<in> set q' \<Longrightarrow> k = k'"
  shows "distinct (concat (map snd gs))"
  using assms
proof (induction gs)
  case (Cons g gs)
  obtain k q where g: "g = (k, q)" by (cases g)
  have "distinct (concat (map snd gs))"
    using Cons.prems by (intro Cons.IH) (auto, blast)
  moreover have "t \<notin> set q" if "(k', q') \<in> set gs" "t \<in> set q'" for k' q' t
    using Cons.prems(3) [of k q k' q' t] Cons.prems(1) that g by force
  moreover have "distinct q" using Cons.prems(2) g by auto
  ultimately show ?case by (auto simp: g)
qed simp

lemma map_of_keyed: "map_of (map (\<lambda>(k, v). (k, f k v)) m) k = map_option (f k) (map_of m k)"
  by (induction m) auto

lemma waiting_is_stored:
  assumes "queues_ok r" and "t \<in> set (waiters k r)"
  shows "\<exists>e. hm_get (rg_store r) t = Some e \<and> list_req k e"
proof -
  have "queued r k t" using assms(2) by (cases "hm_get (rg_list r) k") (auto simp: queued_def waiters_def)
  with assms(1) show ?thesis by (simp add: queues_ok_def)
qed

lemma waits_once:
  assumes "queues_ok r" and "t \<in> set (waiters k r)" and "t \<in> set (waiters k' r)"
  shows "k = k'"
proof -
  from waiting_is_stored [OF assms(1,2)] waiting_is_stored [OF assms(1,3)]
  obtain e where "list_req k e" "list_req k' e" by auto
  then show ?thesis by (cases e) simp_all
qed

lemma groups_of:
  assumes "hm_inv (rg_list (h_reg h))" and "(k, q) \<in> set (groups h)"
  shows "q = take (length (elements k h)) (waiters k (h_reg h))"
proof -
  obtain q' where "(k, q') \<in> set (rg_list (h_reg h))" "q = take (length (elements k h)) q'"
    using assms(2) by (auto simp: groups_def)
  with assms(1) show ?thesis by (simp add: hm_get_Some_in waiters_def)
qed

lemma group_member:
  assumes "hm_inv (rg_list (h_reg h))" and "(k, q) \<in> set (groups h)" and "t \<in> set q"
  shows "t \<in> set (waiters k (h_reg h))"
  using groups_of [OF assms(1,2)] assms(3) by (metis in_set_takeD)

lemma servable_members:
  assumes "queues_ok (h_reg h)"
  shows "t \<in> set (servable_list h) \<and> t \<in> set (waiters k (h_reg h)) \<longleftrightarrow>
    t \<in> set (take (length (elements k h)) (waiters k (h_reg h)))"
proof
  have hm: "hm_inv (rg_list (h_reg h))" using assms by (simp add: queues_ok_def)
  assume t: "t \<in> set (servable_list h) \<and> t \<in> set (waiters k (h_reg h))"
  then obtain k' q where q: "(k', q) \<in> set (groups h)" "t \<in> set q" by (auto simp: servable_groups)
  have "t \<in> set (waiters k' (h_reg h))" by (rule group_member [OF hm q])
  with t have "k' = k" using waits_once [OF assms] by blast
  with groups_of [OF hm q(1)] q(2) show "t \<in> set (take (length (elements k h)) (waiters k (h_reg h)))" by simp
next
  assume t: "t \<in> set (take (length (elements k h)) (waiters k (h_reg h)))"
  then obtain q where "hm_get (rg_list (h_reg h)) k = Some q" "waiters k (h_reg h) = q"
    by (cases "hm_get (rg_list (h_reg h)) k") (simp_all add: waiters_def)
  then have "(k, take (length (elements k h)) (waiters k (h_reg h))) \<in> set (groups h)"
    using map_of_SomeD unfolding groups_def by force
  with t in_set_takeD [OF t] show "t \<in> set (servable_list h) \<and> t \<in> set (waiters k (h_reg h))"
    unfolding servable_groups by force
qed

lemma servable_distinct:
  assumes "queues_ok (h_reg h)"
  shows "distinct (map fst (groups h))" "distinct (servable_list h)"
proof -
  have hm: "hm_inv (rg_list (h_reg h))" using assms by (simp add: queues_ok_def)
  then show keys: "distinct (map fst (groups h))"
    by (simp add: groups_def hm_inv_def comp_def case_prod_unfold)
  have dq: "distinct (waiters k (h_reg h))" for k
    using assms by (cases "hm_get (rg_list (h_reg h)) k") (simp_all add: queues_ok_def waiters_def)
  show "distinct (servable_list h)"
    unfolding servable_groups
  proof (rule distinct_groups [OF keys])
    show "distinct q" if "(k, q) \<in> set (groups h)" for k q
      using groups_of [OF hm that] dq by simp
    show "k = k'" if "(k, q) \<in> set (groups h)" "(k', q') \<in> set (groups h)" "t \<in> set q" "t \<in> set q'" for k q k' q' t
      by (rule waits_once [OF assms group_member [OF hm that(1,3)] group_member [OF hm that(2,4)]])
  qed
qed

lemma served_groups:
  assumes inv: "reg_inv (h_reg h)" and st: "stamps_ok (h_reg h)" and flag: "h_flag_list h"
  defines "h' \<equiv> serve_backlog_list h" and "r \<equiv> h_reg h"
  shows "elements k h' = drop (case hm_get (groups h) k of Some q \<Rightarrow> length q | None \<Rightarrow> 0) (elements k h)"
    and "h_queue h' = h_queue h @ concat (map (\<lambda>(k, q). handed r k q (elements k h)) (groups h))"
    and "waiters k (h_reg h') = filter (\<lambda>x. x \<notin> set (servable_list h)) (waiters k r)"
proof -
  have qs: "queues_ok r" and hm: "hm_inv (rg_list r)"
    using inv by (simp_all add: r_def reg_inv_def queues_ok_def)
  have req: "\<exists>e. hm_get (rg_store r) t = Some e \<and> list_req k e" if "(k, q) \<in> set (groups h)" "t \<in> set q" for k q t
    unfolding r_def
    by (rule waiting_is_stored [OF qs [unfolded r_def] group_member [OF hm [unfolded r_def] that]])
  then have found: "hm_get (rg_store r) t \<noteq> None" if "t \<in> set (servable_list h)" for t
    using that by (force simp: servable_groups)
  obtain es h1 where t: "take_requests (servable_list h) h = (es, h1)" by fastforce
  note taken = take_requests_all [OF inv servable_distinct(2) [OF qs [unfolded r_def]] found [unfolded r_def],
      unfolded t fst_conv snd_conv]
  have el: "elements k h1 = elements k h" for k using taken by (intro elements_cong) simp
  have "fold run_backlog_task (filter is_list_entry es) h1 = serve_keys r (groups h) h1"
    using taken tasks_serve [OF st, of "groups h" h1] req by (simp add: servable_groups r_def)
  then have s: "h' = (serve_keys r (groups h) h1)\<lparr>h_flag_list := False\<rparr>"
    using flag t by (simp add: h'_def serve_backlog_list_def)
  have "hm_get (rg_store (h_reg h1)) t = None" if "(k, q) \<in> set (groups h)" "t \<in> set q" for k q t
    using taken that by (force simp: servable_groups)
  moreover have "length q \<le> length (elements k h1)" if "(k, q) \<in> set (groups h)" for k q
    using groups_of [OF hm [unfolded r_def] that] by (simp add: el)
  ultimately have served: "(\<forall>k. elements k (serve_keys r (groups h) h1) =
        drop (case hm_get (groups h) k of Some q \<Rightarrow> length q | None \<Rightarrow> 0) (elements k h1)) \<and>
    h_queue (serve_keys r (groups h) h1) =
      h_queue h1 @ concat (map (\<lambda>(k, q). handed r k q (elements k h1)) (groups h)) \<and>
    h_reg (serve_keys r (groups h) h1) = h_reg h1"
    by (rule serve_keys_effect [OF servable_distinct(1) [OF qs [unfolded r_def]]])
  have "elements k h' = elements k (serve_keys r (groups h) h1)"
    unfolding s by (rule elements_cong) simp
  with served show "elements k h' = drop (case hm_get (groups h) k of Some q \<Rightarrow> length q | None \<Rightarrow> 0) (elements k h)"
    by (simp add: el)
  show "h_queue h' = h_queue h @ concat (map (\<lambda>(k, q). handed r k q (elements k h)) (groups h))"
    using served taken by (simp add: s el)
  show "waiters k (h_reg h') = filter (\<lambda>x. x \<notin> set (servable_list h)) (waiters k r)"
    using served taken by (simp add: s r_def)
qed

lemma served_in_order:
  assumes inv: "reg_inv (h_reg h)" and st: "stamps_ok (h_reg h)" and flag: "h_flag_list h"
  shows "h_queue (serve_backlog_list h) =
      h_queue h @ concat (map (\<lambda>(k, q). handed (h_reg h) k q (elements k h)) (rg_list (h_reg h)))"
    and "elements k (serve_backlog_list h) = drop (length (waiters k (h_reg h))) (elements k h)"
    and "waiters k (h_reg (serve_backlog_list h)) = drop (length (elements k h)) (waiters k (h_reg h))"
proof -
  have qs: "queues_ok (h_reg h)" using inv by (simp add: reg_inv_def)
  have "(\<lambda>(k, q). handed (h_reg h) k q (elements k h)) \<circ> (\<lambda>(k, q). (k, take (length (elements k h)) q)) =
      (\<lambda>(k, q). handed (h_reg h) k q (elements k h))"
    by (simp add: fun_eq_iff handed_take)
  then show "h_queue (serve_backlog_list h) =
      h_queue h @ concat (map (\<lambda>(k, q). handed (h_reg h) k q (elements k h)) (rg_list (h_reg h)))"
    by (simp add: served_groups(2) [OF assms] groups_def)
  show "elements k (serve_backlog_list h) = drop (length (waiters k (h_reg h))) (elements k h)"
    by (cases "hm_get (rg_list (h_reg h)) k")
      (simp_all add: served_groups(1) [OF assms] groups_def map_of_keyed waiters_def min_def)
  have "distinct (waiters k (h_reg h))"
    using qs by (cases "hm_get (rg_list (h_reg h)) k") (simp_all add: queues_ok_def waiters_def)
  moreover have "filter (\<lambda>x. x \<notin> set (servable_list h)) (waiters k (h_reg h)) =
      filter (\<lambda>x. x \<notin> set (take (length (elements k h)) (waiters k (h_reg h)))) (waiters k (h_reg h))"
    using servable_members [OF qs] by (intro filter_cong) auto
  ultimately show "waiters k (h_reg (serve_backlog_list h)) = drop (length (elements k h)) (waiters k (h_reg h))"
    by (simp add: served_groups(3) [OF assms] filter_rest)
qed

section \<open>Two requests of one millisecond\<close>

text \<open>A push to a key that is not there, by a client that is in no special mode.\<close>

lemma rpush_handled:
  fixes h :: cmd_handler and b :: bytes and v key :: string and X :: externals and g :: u64
  assumes "look key h = None" and "host_stats (h_states h) \<noteq> None" and "g \<notin> set (h_subs h)"
    and "\<not> is_transaction g (h_reg h)" and "rg_watch (h_reg h) = []"
  defines "h1 \<equiv> fst (handle X (Ok (CRPUSH key [v])) b g True h)"
  shows "h_reg h1 = h_reg h" and "look key h1 = Some (item (VList [v]) None)" and "h_flag_list h1"
proof -
  let ?m = "is_master g (h_table h)" and ?c = "CRPUSH key [v]"
  let ?g = "before_cmd ?c b ?m h"
  let ?h = "put key (item (VList [v]) None) (put key (item (VList []) None) ?g)"
  have g: "look key ?g = None" "h_reg ?g = h_reg h"
    using assms(1,5) by (simp_all add: set_dirty_def dirty_key_def)
  then have "cmd_rpush key [v] ?g = (?h, reply (int_reply 1))"
    by (simp add: cmd_rpush_def or_insert_def put_value_def item_def)
  moreover have "\<not> is_subscriber g h" "\<not> stats_missing ?c ?m h" "\<not> stats_missing ?c True h"
    using assms(2,3) by (simp_all add: is_subscriber_def stats_missing_def)
  moreover have "dispatch X ex ?c g ep ?g = cmd_rpush key [v] ?g" for ex ep by (simp add: dispatch_def)
  ultimately have "h1 = fst (after_ok ?c b ?m True (int_reply 1) ?h)"
    using assms(4) by (simp add: h1_def handle_def numeral_2_eq_2 execute_with_def reply_def Let_def
        case_prod_beta split: result.split)
  moreover have "h_flag_list (fst (after_ok ?c b m s r h'))" for m s r h'
    by (simp add: after_ok_def Let_def is_flag_list_def)
  moreover have "h_reg ?h = h_reg h" using g(2) by (simp add: put_def)
  ultimately show "h_reg h1 = h_reg h" "look key h1 = Some (item (VList [v]) None)" "h_flag_list h1"
    by simp_all
qed

text \<open>
  Clients that wait for different lists since the same millisecond: their requests have one
  timestamp, the store keeps the second only, and a push to the first list removes it without
  serving anybody.
\<close>

lemma same_millisecond:
  fixes h :: cmd_handler and k1 k2 v :: string and c1 c2 g T :: u64 and b :: bytes and X :: externals
  assumes "h_reg h = registry_new" and "look k1 h = None" and "look k2 h = None" and "k1 \<noteq> k2"
    and clock: "\<And>n. h_clock h n = T" and "host_stats (h_states h) \<noteq> None" and "g \<notin> set (h_subs h)"
  defines "h2 \<equiv> fst (cmd_blpop k2 None c2 (fst (cmd_blpop k1 None c1 h)))"
  defines "h3 \<equiv> fst (handle X (Ok (CRPUSH k1 [v])) b g True h2)"
  defines "h4 \<equiv> serve_backlog_list h3"
  shows "rg_store (h_reg h2) = [(T, ListReq k2 0 c2 T)]" and "h_queue h4 = h_queue h3"
    and "rg_store (h_reg h4) = []" and "elements k1 h4 = [v]"
proof -
  define e where "e = ListReq k2 0 c2 T"
  have h2: "h2 = h\<lparr>h_reads := 4 + h_reads h,
      h_reg := registry_new\<lparr>rg_store := [(T, e)], rg_list := [(k1, [T]), (k2, [T])]\<rparr>\<rparr>"
    using assms(1-4) unfolding h2_def
    by (simp add: cmd_blpop_def get_deadline_def tick_def Let_def look_def insert_request_def on_reg_def
        reg_insert_def reg_arm_def reg_enqueue_def e_def registry_new_def clock)
  then show "rg_store (h_reg h2) = [(T, ListReq k2 0 c2 T)]" by (simp add: e_def)
  have h3: "h_reg h3 = h_reg h2" "look k1 h3 = Some (item (VList [v]) None)" "h_flag_list h3"
    unfolding h3_def using assms(2,6,7)
    by (intro rpush_handled; subst h2; simp add: look_def is_transaction_def registry_new_def hm_contains_def)+
  have "\<not> is_transaction g (h_reg h2)" by (simp add: h2 is_transaction_def registry_new_def hm_contains_def)
  then have "h3 = fst (execute 2 X (CRPUSH k1 [v]) b g (Some True) True h2)"
    by (simp add: h3_def handle_def case_prod_beta split: result.split)
  then have "look k2 h3 = look k2 h2"
    using assms(4) by (simp add: execute_look no_exec_def written_key_def)
  then have k2: "look k2 h3 = None" using assms(3) by (simp add: h2 look_def)
  then have "servable_list h3 = [T]"
    using h3 by (simp add: servable_take elements_def h2 item_def)
  moreover obtain h5 where h5: "remove_request T h3 = (Some e, h5)" "h_data h5 = h_data h3" "h_queue h5 = h_queue h3"
    "rg_store (h_reg h5) = []"
    using h3(1) by (simp add: remove_request_def tick_def reg_remove_def Let_def h2 registry_new_def)
  moreover have "blpop_backlog_task k2 c2 T h5 = h5" using k2 h5(2) by (simp add: blpop_backlog_task_def look_def)
  ultimately have h4: "h4 = h5\<lparr>h_flag_list := False\<rparr>"
    using h3(3) by (simp add: h4_def serve_backlog_list_def e_def is_list_entry_def run_backlog_task_def)
  then show "h_queue h4 = h_queue h3" "rg_store (h_reg h4) = []" using h5 by simp_all
  have "elements k1 h4 = elements k1 h3" using h4 h5 by (intro elements_cong) simp
  then show "elements k1 h4 = [v]" using h3(2) by (simp add: elements_def item_def)
qed

end
