(* ===== verification/Server.thy ===== *)
theory Server
  imports AofReplay
begin

text \<open>
  The program of \<open>src/src/main.rs\<close>: start-up, and the event loop over the connections, the
  listener and the timer, with the interest list of \<open>src/src/epoll.rs\<close>.

  Every descriptor is registered with \<open>EPOLLONESHOT\<close>: an event disarms it until it is
  registered again. \<open>h_epoll\<close> of the handler is the set of registered descriptors and
  \<open>sv_disarmed\<close> those of them that have fired. What the kernel delivers is input: a batch of
  events per turn of the loop.

  \<open>None\<close> is a turn that does not end, \<open>Panic\<close> a panic, \<open>Err\<close> a return from \<open>main\<close>.
\<close>

section \<open>State\<close>

record server =
  sv_clients :: "(u64, tcp_client) hashmap"
  sv_handler :: cmd_handler
  sv_disarmed :: "u64 hashset"
  sv_listener :: u64
  sv_timer :: u64

type_synonym run_result = "(server, unit) result"

text \<open>Deleting a descriptor from epoll also forgets that it was disarmed.\<close>

definition forget_deleted :: "server \<Rightarrow> server" where
  "forget_deleted s =
     s\<lparr>sv_disarmed := filter (\<lambda>fd. fd \<in> set (h_epoll (sv_handler s))) (sv_disarmed s)\<rparr>"

definition epoll_add :: "u64 \<Rightarrow> server \<Rightarrow> server" where
  "epoll_add fd s = s\<lparr>sv_handler := add_interest True fd (sv_handler s)\<rparr>"

text \<open>\<open>EPOLL_CTL_MOD\<close> on a descriptor that is not registered is \<open>ENOENT\<close>.\<close>

definition modify_interest :: "u64 \<Rightarrow> server \<Rightarrow> server option" where
  "modify_interest fd s =
     (if fd \<in> set (h_epoll (sv_handler s)) then Some (s\<lparr>sv_disarmed := hs_remove fd (sv_disarmed s)\<rparr>)
      else None)"

definition epoll_del :: "u64 \<Rightarrow> server \<Rightarrow> server" where
  "epoll_del fd s = forget_deleted (s\<lparr>sv_handler := remove_interest True fd (sv_handler s)\<rparr>)"

section \<open>Start-up\<close>

text \<open>
  What the process finds: its arguments, the files, the clock, and the descriptors the kernel
  hands out; no descriptor for the master is a connection that failed.
\<close>

record world =
  wd_args :: "string list"
  wd_files :: file_system
  wd_clock :: "nat \<Rightarrow> u64"
  wd_listener :: u64
  wd_timer :: u64
  wd_master :: "(u64 \<times> tcp_stream) option"

definition set_aof :: "aof \<Rightarrow> cmd_handler \<Rightarrow> cmd_handler" where
  "set_aof a h = h\<lparr>h_aof := Some a\<rparr>"

definition load_data :: "store \<Rightarrow> cmd_handler \<Rightarrow> cmd_handler" where
  "load_data d h = h\<lparr>h_data := d\<rparr>"

definition dbfilepath :: "configs \<Rightarrow> string option \<times> string option" where
  "dbfilepath cf = (cf_path cf, cf_dbfilename cf)"

definition rdb_open :: "string \<Rightarrow> file_system \<Rightarrow> bytes option" where
  "rdb_open path fs = hm_get (fs_files fs) path"

text \<open>Opening a directory succeeds, and reading from it fails.\<close>

definition is_directory :: "string \<Rightarrow> file_system \<Rightarrow> bool" where
  "is_directory path fs \<longleftrightarrow>
     path \<in> set (fs_dirs fs) \<or> path \<noteq> [] \<and> last path = CHR ''/'' \<and> butlast path \<in> set (fs_dirs fs)"

definition load_rdb :: "configs \<Rightarrow> file_system \<Rightarrow> cmd_handler \<Rightarrow> cmd_handler cres" where
  "load_rdb cf fs h =
     (case dbfilepath cf of
        (Some path, Some name) \<Rightarrow>
          (if is_directory (path @ ''/'' @ name) fs then Panic
           else case rdb_open (path @ ''/'' @ name) fs of
             None \<Rightarrow> Ok h
           | Some b \<Rightarrow>
               (case rdb_read b of Ok d \<Rightarrow> Ok (load_data d h) | Err _ \<Rightarrow> Ok h | Panic \<Rightarrow> Panic))
      | _ \<Rightarrow> Ok h)"

text \<open>A connection is put into epoll, acts as the default user if it may, and enters the table.\<close>

definition register :: "externals \<Rightarrow> u64 \<Rightarrow> tcp_client \<Rightarrow> server \<Rightarrow> run_result" where
  "register X fd c s =
     (let s1 = epoll_add fd s; h1 = sv_handler s1 in
      case authenticate (x_hash X) fd None None (h_auth h1) of
        (a, Ok _) \<Rightarrow>
          Ok (s1\<lparr>sv_handler := h1\<lparr>h_auth := a\<rparr>, sv_clients := hm_insert fd c (sv_clients s1)\<rparr>)
      | _ \<Rightarrow> Panic)"

definition connect_master :: "externals \<Rightarrow> (u64 \<times> tcp_stream) option \<Rightarrow> server \<Rightarrow> run_result" where
  "connect_master X master s =
     (case master_stats (h_states (sv_handler s)) of
        None \<Rightarrow> Ok s
      | Some m \<Rightarrow>
          (case (rs_host m, rs_port m, master) of
             (Some _, Some _, Some (fd, stream)) \<Rightarrow> register X fd (init_handshake (client_new fd stream)) s
           | _ \<Rightarrow> Panic))"

definition server_new :: "u64 \<Rightarrow> u64 \<Rightarrow> cmd_handler \<Rightarrow> server" where
  "server_new listener timer h =
     \<lparr>sv_clients = [], sv_handler = h, sv_disarmed = [], sv_listener = listener, sv_timer = timer\<rparr>"

definition start_loop :: "externals \<Rightarrow> world \<Rightarrow> configs \<Rightarrow> file_system \<Rightarrow> cmd_handler \<Rightarrow> run_result" where
  "start_loop X w cf fs h =
     (case load_rdb cf fs h of
        Ok h1 \<Rightarrow>
          rbind (connect_master X (wd_master w) (server_new (wd_listener w) (wd_timer w) h1)) (\<lambda>s.
            Ok (epoll_add (wd_timer w) (epoll_add (wd_listener w) s)))
      | _ \<Rightarrow> Panic)"

text \<open>An error of the replay is ignored; what it has done to the handler and the log stays.\<close>

definition server_start :: "externals \<Rightarrow> world \<Rightarrow> run_result option" where
  "server_start X w =
     (case (app_init (wd_args w), configs_of_args (wd_args w)) of
        (Some st, Some cf) \<Rightarrow>
          (case init_sequence X cf aof_new (wd_files w) (handler_new st cf (wd_clock w) None) of
             None \<Rightarrow> None
           | Some (_, Panic) \<Rightarrow> Some Panic
           | Some ((a, fs, h), _) \<Rightarrow> Some (start_loop X w cf fs (set_aof a h)))
      | _ \<Rightarrow> Some Panic)"

section \<open>One event\<close>

text \<open>
  A connection is accepted with its descriptor and what its socket will do with writes, or not; the timer has expired; a
  connection can be read (the bytes, or \<open>None\<close> for an I/O error); something else happened to
  it, without \<open>EPOLLIN\<close>.
\<close>

datatype event =
    Accepted u64 tcp_stream | AcceptError | TimerFired | Readable u64 "bytes option" | OtherEvent u64

definition event_fd :: "server \<Rightarrow> event \<Rightarrow> u64" where
  "event_fd s ev =
     (case ev of
        Accepted _ _ \<Rightarrow> sv_listener s | AcceptError \<Rightarrow> sv_listener s | TimerFired \<Rightarrow> sv_timer s
      | Readable fd _ \<Rightarrow> fd | OtherEvent fd \<Rightarrow> fd)"

definition rearm_listener :: "server \<Rightarrow> run_result" where
  "rearm_listener s = (case modify_interest (sv_listener s) s of Some s' \<Rightarrow> Ok s' | None \<Rightarrow> Err ())"

text \<open>Reading the timer clears it; nothing registers it again.\<close>

definition timer_event :: "server \<Rightarrow> run_result" where
  "timer_event s =
     (case callback_deadline_expire (on_reg (\<lambda>r. r\<lparr>rg_timer := None\<rparr>) (sv_handler s)) of
        Ok h \<Rightarrow> Ok (forget_deleted (s\<lparr>sv_handler := h\<rparr>))
      | _ \<Rightarrow> Panic)"

definition disconnect :: "u64 \<Rightarrow> server \<Rightarrow> server" where
  "disconnect fd s =
     (let s1 = epoll_del fd s; h = sv_handler s1 in
      s1\<lparr>sv_handler := h\<lparr>h_table := ct_remove_client fd (h_table h), h_auth := remove_auth fd (h_auth h)\<rparr>,
         sv_clients := hm_remove fd (sv_clients s1)\<rparr>)"

definition read_event :: "externals \<Rightarrow> u64 \<Rightarrow> bytes option \<Rightarrow> server \<Rightarrow> run_result option" where
  "read_event X fd input s =
     (case hm_get (sv_clients s) fd of
        None \<Rightarrow> Some (Ok s)
      | Some c \<Rightarrow>
          (case read_socket X input c (sv_handler s) of
             None \<Rightarrow> None
           | Some (_, Panic) \<Rightarrow> Some Panic
           | Some ((c1, h1), r) \<Rightarrow>
               (let s1 = forget_deleted (s\<lparr>sv_clients := hm_insert fd c1 (sv_clients s), sv_handler := h1\<rparr>) in
                Some (Ok (case r of
                    Ok _ \<Rightarrow> (case modify_interest fd s1 of Some s2 \<Rightarrow> s2 | None \<Rightarrow> s1)
                  | _ \<Rightarrow> disconnect fd s1)))))"

definition server_event :: "externals \<Rightarrow> event \<Rightarrow> server \<Rightarrow> run_result option" where
  "server_event X ev s =
     (case ev of
        Accepted fd stream \<Rightarrow> Some (rbind (register X fd (client_new fd stream) s) rearm_listener)
      | AcceptError \<Rightarrow> Some (rearm_listener s)
      | TimerFired \<Rightarrow> Some (timer_event s)
      | Readable fd input \<Rightarrow> read_event X fd input s
      | OtherEvent fd \<Rightarrow> Some (Ok s))"

section \<open>One turn of the loop\<close>

fun server_events :: "externals \<Rightarrow> event list \<Rightarrow> server \<Rightarrow> run_result option" where
  "server_events X [] s = Some (Ok s)"
| "server_events X (ev # evs) s =
     (case server_event X ev s of Some (Ok s1) \<Rightarrow> server_events X evs s1 | r \<Rightarrow> r)"

text \<open>
  The replies gathered for other connections: \<open>unwrap\<close> panics when one of them has gone, an
  error of the write is ignored.
\<close>

fun deliver_replies :: "(u64 \<times> bytes) list \<Rightarrow> (u64, tcp_client) hashmap \<Rightarrow> ((u64, tcp_client) hashmap, unit) result" where
  "deliver_replies [] cs = Ok cs"
| "deliver_replies ((i, b) # q) cs =
     (case hm_get cs i of
        None \<Rightarrow> Panic
      | Some c \<Rightarrow> deliver_replies q (hm_insert i (fst (write_all b c)) cs))"

definition end_of_turn :: "server \<Rightarrow> run_result" where
  "end_of_turn s =
     (let h = fst (handler_aof_flush (serve_backlog_stream (serve_backlog_list (sv_handler s)))) in
      rbind (deliver_replies (h_queue h) (sv_clients s)) (\<lambda>cs.
        Ok (forget_deleted (s\<lparr>sv_clients := cs, sv_handler := h\<lparr>h_queue := []\<rparr>\<rparr>))))"

text \<open>What \<open>epoll_wait\<close> returns is disarmed before any of it is handled.\<close>

definition disarm :: "event list \<Rightarrow> server \<Rightarrow> server" where
  "disarm evs s = s\<lparr>sv_disarmed := fold (\<lambda>ev. hs_insert (event_fd s ev)) evs (sv_disarmed s)\<rparr>"

definition server_turn :: "externals \<Rightarrow> event list \<Rightarrow> server \<Rightarrow> run_result option" where
  "server_turn X evs s =
     (case server_events X evs (disarm evs s) of Some (Ok s1) \<Rightarrow> Some (end_of_turn s1) | r \<Rightarrow> r)"

text \<open>
  What the kernel may deliver: events of registered descriptors that are open (the listener, the
  timer, the streams of the clients) and have not fired, one each; the timer only when it was
  set; and a new connection only on a descriptor nobody has.
\<close>

definition may_fire :: "server \<Rightarrow> event \<Rightarrow> bool" where
  "may_fire s ev \<longleftrightarrow>
     event_fd s ev \<in> set (h_epoll (sv_handler s)) \<and> event_fd s ev \<notin> set (sv_disarmed s) \<and>
     (ev = TimerFired \<longrightarrow> rg_timer (h_reg (sv_handler s)) \<noteq> None) \<and>
     (case ev of
        Readable fd _ \<Rightarrow> fd \<notin> {sv_listener s, sv_timer s} \<and> hm_contains (sv_clients s) fd
      | OtherEvent fd \<Rightarrow> fd \<notin> {sv_listener s, sv_timer s} \<and> hm_contains (sv_clients s) fd
      | _ \<Rightarrow> True)"

definition descriptor_free :: "event \<Rightarrow> server \<Rightarrow> bool" where
  "descriptor_free ev s =
     (case ev of
        Accepted fd _ \<Rightarrow> fd \<notin> {sv_listener s, sv_timer s} \<and> \<not> hm_contains (sv_clients s) fd
      | _ \<Rightarrow> True)"

fun descriptors_free :: "externals \<Rightarrow> event list \<Rightarrow> server \<Rightarrow> bool" where
  "descriptors_free X [] s = True"
| "descriptors_free X (ev # evs) s =
     (descriptor_free ev s \<and>
      (case server_event X ev s of Some (Ok s1) \<Rightarrow> descriptors_free X evs s1 | _ \<Rightarrow> True))"

definition batch_ok :: "externals \<Rightarrow> event list \<Rightarrow> server \<Rightarrow> bool" where
  "batch_ok X evs s \<longleftrightarrow>
     list_all (may_fire s) evs \<and> distinct (map (event_fd s) evs) \<and> descriptors_free X evs (disarm evs s)"

inductive server_step :: "externals \<Rightarrow> event list \<Rightarrow> server \<Rightarrow> server \<Rightarrow> bool" for X where
  turn: "batch_ok X evs s \<Longrightarrow> server_turn X evs s = Some (Ok s') \<Longrightarrow> server_step X evs s s'"

inductive_cases server_stepE [elim!]: "server_step X evs s s'"

text \<open>The states of the running program, with the batches of events that lead to them.\<close>

inductive server_run :: "externals \<Rightarrow> world \<Rightarrow> event list list \<Rightarrow> server \<Rightarrow> bool" for X w where
  start: "server_start X w = Some (Ok s) \<Longrightarrow> server_run X w [] s"
| turn: "server_run X w bs s \<Longrightarrow> server_step X evs s s' \<Longrightarrow> server_run X w (bs @ [evs]) s'"

end
