(* ===== verification/ServerCorrect.thy ===== *)
theory ServerCorrect
  imports BlockedClients Server ClientCorrect WriteCorrect
begin

text \<open>
  The running program of theory \<open>Server\<close>: what a command does to the descriptors of the others,
  the invariant of the whole server, and the events that end it.
\<close>

section \<open>A command stops listening to its own client only\<close>

definition listens :: "u64 \<Rightarrow> cmd_handler \<Rightarrow> cmd_handler \<Rightarrow> bool" where
  "listens cl h h' \<longleftrightarrow> set (h_epoll h) - {cl} \<subseteq> set (h_epoll h')"

lemma listens_refl [simp]: "listens cl h h"
  by (auto simp: listens_def)

lemma listens_trans: "listens cl h h' \<Longrightarrow> listens cl h' h'' \<Longrightarrow> listens cl h h''"
  by (auto simp: listens_def)

lemma listens_same: "h_epoll h' = h_epoll h \<Longrightarrow> listens cl h h'"
  by (auto simp: listens_def)

lemma epoll_steps [simp]:
  "h_epoll (push c b h) = h_epoll h" "h_epoll (insert_request ts d e h) = h_epoll h"
  "h_epoll (snd (remove_request ts h)) = h_epoll h" "h_epoll (snd (tick h)) = h_epoll h"
  "h_epoll (on_reg f h) = h_epoll h" "h_epoll (put k i h) = h_epoll h"
  "h_epoll (put_value k i v h) = h_epoll h" "h_epoll (fold (\<lambda>i. push i b) is h) = h_epoll h"
  "h_epoll (close_txn client h) = h_epoll h" "h_epoll (count_bytes n h) = h_epoll h"
proof -
  show "h_epoll (fold (\<lambda>i. push i b) is h) = h_epoll h"
    by (induction "is" arbitrary: h) (simp_all add: push_def)
qed (simp_all add: push_def insert_request_def remove_request_def tick_def on_reg_def put_def
    put_value_def close_txn_def count_bytes_def case_prod_beta)

lemma epoll_deadline: "get_deadline t h = (p, h') \<Longrightarrow> h_epoll h' = h_epoll h"
  by (auto simp: get_deadline_def tick_def)

lemma listens_add: "listens cl h h' \<Longrightarrow> listens cl h (add_interest ok fd h')"
  by (auto simp: listens_def add_interest_def)

lemma listens_remove: "listens cl h h' \<Longrightarrow> listens cl h (remove_interest ok cl h')"
  by (auto simp: listens_def remove_interest_def)

context keyed_command
begin

lemma run_listens: "listens cl h (fst (run h))"
  by (simp add: listens_def keeps)

end

lemma listens_xread: "listens cl h (fst (cmd_xread n b ss client h))"
  by (rule listens_same)
    (auto simp: cmd_xread_def Let_def dest: epoll_deadline split: list.splits option.splits prod.splits)

lemma listens_blpop: "listens cl h (fst (cmd_blpop k t client h))"
  by (rule listens_same)
    (auto simp: cmd_blpop_def Let_def dest!: epoll_deadline split: option.splits prod.splits store_value.splits)

lemma listens_subscribe: "listens cl h (fst (cmd_subscribe ks client h))"
proof -
  have "h_epoll (fst (subscribe_more client ks h out)) = h_epoll h"
    "h_epoll (fst (subscribe_first client ks h out)) = h_epoll h" for h out
    by (induction ks arbitrary: h out) (simp_all add: join_channel_def Let_def)
  then show ?thesis by (intro listens_same) (simp add: cmd_subscribe_def case_prod_beta)
qed

lemma listens_others:
  "listens cl h (fst (cmd_unsubscribe k client h))" "listens cl h (fst (cmd_publish k m h))"
  "listens cl h (fst (cmd_psync X i n client h))" "listens cl h (fst (cmd_acl X a client h))"
  "listens cl h (fst (cmd_auth X u p client h))" "listens cl h (fst (cmd_multi client h))"
  "listens cl h (fst (cmd_discard client h))" "listens cl h (fst (cmd_watch ks client h))"
  "listens cl h (fst (cmd_unwatch client h))"
  by (rule listens_same;
      auto simp: cmd_unsubscribe_def cmd_publish_def cmd_psync_def cmd_acl_def cmd_acl_setuser_def cmd_auth_def
        cmd_multi_def cmd_discard_def cmd_watch_def cmd_unwatch_def Let_def
        split: option.splits result.splits prod.splits cmd_arg.splits)+

lemma listens_wait: "listens cl h (fst (cmd_wait n t cl ep h))"
proof (cases "n = 0 \<or> (\<forall>s. stats_of h = Ok s \<longrightarrow> rs_offset s = 0)")
  case False
  then obtain s where s: "n \<noteq> 0" "stats_of h = Ok s" "rs_offset s \<noteq> 0" by blast
  let ?h1 = "fold (\<lambda>k. push k getack_msg) (list_slave (h_table h)) h"
  obtain ts d h2 where d: "get_deadline t ?h1 = ((ts, d), h2)" by (metis surj_pair)
  then have "h_epoll h2 = h_epoll h" by (auto dest: epoll_deadline)
  with s d show ?thesis
    by (auto simp: cmd_wait_def Let_def listens_def remove_interest_def split: option.split)
qed (auto simp: cmd_wait_def split: result.split)

lemma epoll_ack_loop: "ack_loop off ids h sd cd = Ok (h', sd', cd') \<Longrightarrow> h_epoll h' = h_epoll h"
proof (induction ids arbitrary: h sd cd)
  case (Cons i ids)
  obtain ts where ts: "hm_get (rg_wait (h_reg h)) i = Some ts"
    using Cons.prems by (auto split: option.splits)
  show ?case
  proof (cases "hm_get (rg_store (h_reg h)) ts")
    case (Some e)
    with Cons ts show ?thesis by (cases e) (fastforce simp: Let_def split: if_splits)+
  qed (use Cons ts in simp)
qed simp

lemma listens_ack_finish: "ack_finish ep ids h tss = Ok (h', tss') \<Longrightarrow> listens cl h h'"
proof (induction ids arbitrary: h tss)
  case (Cons i ids)
  then obtain ok where "ack_finish ep ids (add_interest ok i h) (tss @ [the (hm_get (rg_wait (h_reg h)) i)]) = Ok (h', tss')"
    by (auto split: option.splits)
  from listens_trans [OF listens_add [OF listens_refl] Cons.IH [OF this]] show ?case .
qed simp

lemma listens_replconf: "listens cl h (fst (cmd_replconf a client ep h))"
proof -
  have removed: "h_epoll (fold (\<lambda>t h. snd (remove_request t h)) ts h) = h_epoll h" for ts h
    by (induction ts arbitrary: h) simp_all
  have "listens cl h (fst (replconf_ack off client ep h))" for off
  proof (cases "rbind (ack_loop off
        (case hm_get (rg_ack (h_reg h)) client of Some ids \<Rightarrow> ids | None \<Rightarrow> []) h [] [])
      (\<lambda>(h1, sdone, cdone). ack_finish ep cdone (on_reg (drop_acked client sdone) h1) [])")
    case (Ok x)
    then obtain h1 sd cd h2 tss where
      l: "ack_loop off (case hm_get (rg_ack (h_reg h)) client of Some ids \<Rightarrow> ids | None \<Rightarrow> []) h [] [] = Ok (h1, sd, cd)"
      and f: "ack_finish ep cd (on_reg (drop_acked client sd) h1) [] = Ok (h2, tss)" and x: "x = (h2, tss)"
      by (cases x) (auto simp: rbind_Ok_iff)
    have "listens cl h h2"
      using listens_trans [OF listens_same listens_ack_finish [OF f]] epoll_ack_loop [OF l] by simp
    with Ok x show ?thesis by (simp add: replconf_ack_def listens_def removed)
  qed (simp_all only: replconf_ack_def result.case fst_conv listens_refl)
  then show ?thesis by (auto simp: cmd_replconf_def split: cmd_arg.splits)
qed

lemma listens_dispatch:
  assumes "\<And>h. listens cl h (fst (exec cl h))"
  shows "listens cl h (fst (dispatch X exec c cl ep h))"
  by (cases c)
    (simp_all add: dispatch_def assms listens_xread listens_blpop listens_subscribe listens_others
      listens_wait listens_replconf set_cmd.run_listens get_cmd.run_listens incr_cmd.run_listens
      rpush_cmd.run_listens lpush_cmd.run_listens lpop_cmd.run_listens
      xadd_cmd.run_listens zadd_cmd.run_listens zrem_cmd.run_listens
      geoadd_cmd.run_listens setbit_cmd.run_listens bitop_cmd.run_listens)

lemma epoll_around [simp]:
  "h_epoll (before_cmd c b m h) = h_epoll h" "h_epoll (fst (after_ok c b m s r h)) = h_epoll h"
  "h_epoll (fst (after_err b m s e h)) = h_epoll h"
  by (simp_all add: before_cmd_def after_ok_def after_err_def broadcast_def Let_def)

lemma listens_execute_with:
  assumes "\<And>h. listens cl h (fst (exec cl h))"
  shows "listens cl h (fst (execute_with X exec c b cl ep s h))"
proof -
  let ?g = "before_cmd c b (is_master cl (h_table h)) h"
  obtain h1 r where d: "dispatch X exec c cl ep ?g = (h1, r)" by fastforce
  with listens_dispatch [of cl exec ?g X c ep, OF assms] have "listens cl h h1" by (simp add: listens_def)
  with d show ?thesis
    by (auto simp: execute_with_def Let_def listens_def split: result.split option.split)
qed

lemma listens_run_queue:
  assumes "\<And>c b h. listens cl h (fst (ex c b h))"
  shows "listens cl h (fst (run_queue ex q h))"
proof (induction q arbitrary: h)
  case (Cons x q)
  obtain c b where cb: "x = (c, b)" by (cases x)
  obtain h1 r where e: "ex c b h = (h1, r)" by fastforce
  with assms [of h c b] have "listens cl h h1" by simp
  with listens_trans [OF this Cons.IH [of h1]] cb e show ?case by (cases r) (auto simp: case_prod_beta)
qed simp

lemma listens_exec_with:
  assumes "\<And>c b h. listens cl h (fst (ex c b h))"
  shows "listens cl h (fst (exec_with ex cl h))"
proof (cases "hm_get (rg_txn (h_reg h)) cl")
  case (Some q)
  obtain h1 r where q: "run_queue ex q (drain_txn cl h) = (h1, r)" by fastforce
  have "listens cl (drain_txn cl h) (fst (run_queue ex q (drain_txn cl h)))"
    by (rule listens_run_queue) (rule assms)
  with q have "listens cl h h1" by (simp add: listens_def drain_txn_def)
  with Some q show ?thesis
    by (auto simp: exec_with_def listens_def split: result.split)
qed (simp add: exec_with_def)

lemma listens_execute: "listens cl h (fst (execute n X c b cl ep s h))"
  by (induction n arbitrary: c b ep s h) (auto intro!: listens_execute_with listens_exec_with)

lemma listens_handle: "listens cl h (fst (handle X cr b cl ep h))"
proof (cases cr)
  case (Ok c)
  have e: "listens cl h (fst (execute 2 X c b cl (Some ep) True h))" by (rule listens_execute)
  have x: "listens cl h (fst (cmd_exec X cl h))"
    unfolding cmd_exec_def by (intro listens_exec_with listens_execute)
  have d: "listens cl h (fst (cmd_discard cl h))" by (rule listens_others)
  have a: "listens cl h (on_reg (add_to_txn cl c b) h)" by (rule listens_same) simp
  show ?thesis
    using Ok e x d a by (cases c) (auto simp: handle_def split: prod.splits result.splits)
qed (simp_all add: handle_def)

section \<open>What a read of a connection leaves\<close>

definition conn_ok :: "u64 \<Rightarrow> cmd_handler \<Rightarrow> tcp_client \<times> cmd_handler \<Rightarrow> bool" where
  "conn_ok fd h0 ch \<longleftrightarrow> (case ch of (c, h) \<Rightarrow>
     tc_fd c = fd \<and> handler_inv h \<and> listens fd h0 h)"

lemma conn_handle:
  "conn_ok fd h0 (c, h) \<Longrightarrow> handle X cr b (tc_fd c) ep h = (h1, r) \<Longrightarrow> conn_ok fd h0 (c, h1)"
  using inv_handle [of h X cr b "tc_fd c" ep] listens_trans [of fd h0 h h1] listens_handle [of fd h X cr b ep]
  by (auto simp: conn_ok_def)

lemma start_bytes_inv: "states_inv s \<Longrightarrow> states_inv (s\<lparr>host_stats := map_option start_bytes_count (host_stats s)\<rparr>)"
  by (auto simp: states_inv_def start_bytes_count_def i64_range_def split: option.splits)

lemma conn_handshake: "conn_ok fd h0 (c, h) \<Longrightarrow> conn_ok fd h0 (fst (handshake_to_master X cd b c h))"
proof -
  assume ok: "conn_ok fd h0 (c, h)"
  obtain h1 r where e: "handle X (Ok cd) b (tc_fd c) True h = (h1, r)" by fastforce
  have "handler_inv (h\<lparr>h_table := set_master (tc_fd c) (h_table h)\<rparr>)" "handler_inv (set_started h)"
    using ok by (auto simp: conn_ok_def handler_inv_def pubsub_inv_def set_started_def table_inv_ops start_bytes_inv)
  with ok conn_handle [OF ok e] e show ?thesis
    by (simp add: handshake_to_master_def conn_ok_def) (auto simp: listens_def set_started_def)
qed

lemma conn_respond: "conn_ok fd h0 (c, h) \<Longrightarrow> conn_ok fd h0 (fst (respond X cr b c h))"
proof -
  assume ok: "conn_ok fd h0 (c, h)"
  obtain h1 r where e: "handle X cr b (tc_fd c) True h = (h1, r)" by fastforce
  with ok conn_handle [OF ok e] conn_handshake [OF ok] show ?thesis
    by (auto simp: respond_def split: result.split)
qed

lemma conn_write: "conn_ok fd h0 (c, h) \<Longrightarrow> conn_ok fd h0 (fst (write_all b c), h)"
  by (simp add: conn_ok_def)

lemma conn_serve_value: "conn_ok fd h0 (c, h) \<Longrightarrow> conn_ok fd h0 (fst (serve_value X t c h))"
proof (cases "serialize t")
  case (Ok b)
  assume ok: "conn_ok fd h0 (c, h)"
  obtain c1 h1 r where e: "respond X (from_resp t) b c h = ((c1, h1), r)" by (metis surj_pair)
  with conn_respond [OF ok, of X "from_resp t" b] have "conn_ok fd h0 (c1, h1)" by simp
  then show ?thesis
    using Ok e conn_write [of fd h0 c1 h1]
    by (cases r) (auto simp: serve_value_def case_prod_beta)
qed (simp_all add: serve_value_def)

lemma conn_serve_loop:
  "conn_ok fd h0 (c, h) \<Longrightarrow> parser_inv (tc_parser c) \<Longrightarrow> serve_loop X c h = Some (ch, r) \<Longrightarrow> r \<noteq> Panic \<Longrightarrow>
   conn_ok fd h0 ch \<and> (r = Ok () \<longrightarrow> parser_inv (tc_parser (fst ch)))"
proof (induction "parser_work (tc_parser c)" arbitrary: c h rule: less_induct)
  case less
  note ok = less.prems(1) and inv = less.prems(2)
  have set: "conn_ok fd h0 (c\<lparr>tc_parser := q\<rparr>, h)" for q
    using ok by (simp add: conn_ok_def)
  obtain o1 where p: "parse (tc_parse_rdb c) (tc_parser c) = Some o1" using parse_returns [OF inv] by blast
  show ?case
  proof (cases o1)
    case (Return q)
    with p have ret: "parse (tc_parse_rdb c) (tc_parser c) = Some (Return q)" by simp
    obtain t q1 where g: "get_completed q = (t, q1)" by fastforce
    have q1: "parser_inv q1" using get_completed_inv [OF g] parse_Return_inv [OF ret inv] by simp
    show ?thesis
    proof (cases t)
      case None
      with less.prems(3) ret g have "ch = (c\<lparr>tc_parser := q1\<rparr>, h)"
        by (subst (asm) serve_loop.simps) simp
      with set [of q1] q1 show ?thesis by simp
    next
      case (Some v)
      obtain c1 h1 r1 where sv: "serve_value X v (c\<lparr>tc_parser := q1\<rparr>) h = ((c1, h1), r1)"
        by (metis surj_pair)
      have c1: "conn_ok fd h0 (c1, h1)" using conn_serve_value [OF set [of q1], of X v] sv by simp
      have "parser_work (tc_parser c1) < parser_work (tc_parser c)"
        using serve_value_parser [OF sv] get_completed_work g Some parse_work [OF ret inv] by fastforce
      note IH = less.hyps [OF this c1]
      have c2: "parser_inv (tc_parser c1)" using serve_value_parser [OF sv] q1 by simp
      show ?thesis
      proof (cases r1)
        case (Ok u)
        with less.prems(3) ret g Some sv have "serve_loop X c1 h1 = Some (ch, r)"
          by (subst (asm) serve_loop.simps) simp
        with IH [OF c2] less.prems(4) show ?thesis by simp
      next
        case (Err e)
        with less.prems(3) ret g Some sv have "ch = (c1, h1)"
          by (subst (asm) serve_loop.simps) simp
        with c1 c2 show ?thesis by simp
      next
        case Panic
        with less.prems(3,4) ret g Some sv show ?thesis
          by (subst (asm) serve_loop.simps) simp
      qed
    qed
  next
    case (Fail e q)
    with p less.prems(3) have "ch = (c\<lparr>tc_parser := q\<rparr>, h)" "r = Err ()"
      by (subst (asm) serve_loop.simps, simp)+
    with set show ?thesis by simp
  qed (use p less.prems in \<open>subst (asm) serve_loop.simps, simp\<close>)+
qed

lemma conn_read_socket:
  assumes "conn_ok fd h0 (c, h)" and "parser_inv (tc_parser c)"
    and "read_socket X input c h = Some (ch, r)" and "r \<noteq> Panic"
  shows "conn_ok fd h0 ch \<and> (r = Ok () \<longrightarrow> parser_inv (tc_parser (fst ch)))"
proof (cases "\<exists>x d. input = Some (x # d)")
  case True
  then obtain x d where i: "input = Some (x # d)" by blast
  have "conn_ok fd h0 (c\<lparr>tc_parser := feed_buf (x # d) (tc_parser c)\<rparr>, h)" using assms(1) by (simp add: conn_ok_def)
  from conn_serve_loop [OF this, of X ch r] assms(2-4) i show ?thesis
    by (simp add: read_socket_def parser_inv_feed)
next
  case False
  then have "input = None \<or> input = Some []" by (metis list.exhaust option.exhaust)
  with assms(1,3) show ?thesis by (auto simp: read_socket_def)
qed

section \<open>The invariant of the server\<close>

text \<open>
  Every connection is stored under its own descriptor, which is neither the listener's nor the
  timer's; both of these stay registered.
\<close>

definition own_fds :: "server \<Rightarrow> u64 set" where
  "own_fds s = {sv_listener s, sv_timer s}"

definition clients_ok :: "server \<Rightarrow> bool" where
  "clients_ok s \<longleftrightarrow> hm_inv (sv_clients s) \<and>
     (\<forall>fd c. hm_get (sv_clients s) fd = Some c \<longrightarrow> tc_fd c = fd \<and> parser_inv (tc_parser c) \<and> fd \<notin> own_fds s)"

definition server_inv :: "server \<Rightarrow> bool" where
  "server_inv s \<longleftrightarrow> handler_inv (sv_handler s) \<and> clients_ok s \<and> sv_listener s \<noteq> sv_timer s \<and>
     own_fds s \<subseteq> set (h_epoll (sv_handler s))"

text \<open>The listener and the timer are what they were, and as armed as they were.\<close>

definition same_watch :: "server \<Rightarrow> server \<Rightarrow> bool" where
  "same_watch s s' \<longleftrightarrow> sv_listener s' = sv_listener s \<and> sv_timer s' = sv_timer s \<and>
     set (sv_disarmed s') \<inter> own_fds s = set (sv_disarmed s) \<inter> own_fds s"

lemma same_watch_refl [simp]: "same_watch s s"
  by (simp add: same_watch_def)

lemma same_watch_trans: "same_watch s s' \<Longrightarrow> same_watch s' s'' \<Longrightarrow> same_watch s s''"
  by (simp add: same_watch_def own_fds_def)

lemma forget_fields [simp]:
  "sv_handler (forget_deleted s) = sv_handler s" "sv_clients (forget_deleted s) = sv_clients s"
  "sv_listener (forget_deleted s) = sv_listener s" "sv_timer (forget_deleted s) = sv_timer s"
  by (simp_all add: forget_deleted_def)

lemma server_inv_cong:
  "sv_handler s' = sv_handler s \<Longrightarrow> sv_clients s' = sv_clients s \<Longrightarrow> sv_listener s' = sv_listener s \<Longrightarrow>
   sv_timer s' = sv_timer s \<Longrightarrow> server_inv s' = server_inv s"
  by (simp add: server_inv_def clients_ok_def own_fds_def)

lemma forget_inv [simp]: "server_inv (forget_deleted s) = server_inv s"
  by (rule server_inv_cong) simp_all

lemma disarmed_inv [simp]: "server_inv (s\<lparr>sv_disarmed := d\<rparr>) = server_inv s"
  by (rule server_inv_cong) simp_all

lemma forget_watch: "own_fds s \<subseteq> set (h_epoll (sv_handler s)) \<Longrightarrow> same_watch s (forget_deleted s)"
  by (auto simp: same_watch_def own_fds_def forget_deleted_def)

lemma same_watch_inter:
  "sv_listener s' = sv_listener s \<Longrightarrow> sv_timer s' = sv_timer s \<Longrightarrow> sv_disarmed s' = sv_disarmed s \<Longrightarrow> same_watch s s'"
  by (simp add: same_watch_def)

lemma clients_ok_cong [simp]:
  "clients_ok (s\<lparr>sv_handler := h\<rparr>) = clients_ok s"
  by (simp add: clients_ok_def own_fds_def)

text \<open>A new handler and a new table of connections, then the bookkeeping of epoll.\<close>

lemma step_forget:
  assumes "server_inv s" and "handler_inv h" and "own_fds s \<subseteq> set (h_epoll h)"
    and "clients_ok (s\<lparr>sv_clients := cs\<rparr>)"
  shows "server_inv (forget_deleted (s\<lparr>sv_clients := cs, sv_handler := h\<rparr>))"
    and "same_watch s (forget_deleted (s\<lparr>sv_clients := cs, sv_handler := h\<rparr>))"
proof -
  let ?s = "s\<lparr>sv_clients := cs, sv_handler := h\<rparr>"
  have "clients_ok ?s" using assms(4) clients_ok_cong by blast
  then have "server_inv ?s" using assms(1-3) by (simp add: server_inv_def own_fds_def)
  then show "server_inv (forget_deleted ?s)" by simp
  have "same_watch s ?s" by (simp add: same_watch_def)
  moreover have "same_watch ?s (forget_deleted ?s)"
    by (rule forget_watch) (use assms(3) in \<open>simp add: own_fds_def\<close>)
  ultimately show "same_watch s (forget_deleted ?s)" by (rule same_watch_trans)
qed

lemma clients_ok_insert:
  "clients_ok s \<Longrightarrow> tc_fd c = fd \<Longrightarrow> parser_inv (tc_parser c) \<Longrightarrow> fd \<notin> own_fds s \<Longrightarrow>
   clients_ok (s\<lparr>sv_clients := hm_insert fd c (sv_clients s)\<rparr>)"
  by (simp add: clients_ok_def own_fds_def)

lemma handler_inv_client:
  "handler_inv h \<Longrightarrow> auth_inv a \<Longrightarrow> handler_inv (h\<lparr>h_auth := a\<rparr>)"
  "handler_inv h \<Longrightarrow> handler_inv (h\<lparr>h_table := ct_remove_client fd (h_table h), h_auth := remove_auth fd (h_auth h)\<rparr>)"
  by (simp_all add: handler_inv_def pubsub_inv_def auth_inv_remove table_inv_ops)

lemma register_inv:
  assumes "server_inv s" and "fd \<notin> own_fds s" and "tc_fd c = fd" and "parser_inv (tc_parser c)"
  shows "\<exists>s1. register X fd c s = Ok s1 \<and> server_inv s1 \<and> same_watch s s1 \<and>
    h_states (sv_handler s1) = h_states (sv_handler s)"
proof -
  let ?h = "add_interest True fd (sv_handler s)"
  have h: "handler_inv ?h" using assms(1) handler_inv_requests [OF requests_steps(2)]
    by (simp add: server_inv_def)
  then have a: "auth_inv (h_auth ?h)" by (simp add: handler_inv_def)
  obtain a1 r where e: "authenticate (x_hash X) fd None None (h_auth ?h) = (a1, r)" by fastforce
  have r: "r = Ok ()" using a e by (auto simp: authenticate_def auth_inv_def split: option.splits if_splits)
  have "auth_inv a1" using auth_inv_authenticate [OF a] e by (metis fst_conv)
  then have h1: "handler_inv (?h\<lparr>h_auth := a1\<rparr>)" by (rule handler_inv_client(1) [OF h])
  let ?s = "s\<lparr>sv_handler := ?h\<lparr>h_auth := a1\<rparr>, sv_clients := hm_insert fd c (sv_clients s)\<rparr>"
  have "clients_ok (s\<lparr>sv_clients := hm_insert fd c (sv_clients s)\<rparr>)"
    using assms by (intro clients_ok_insert) (simp_all add: server_inv_def)
  then have "clients_ok ?s" by (simp add: clients_ok_def own_fds_def)
  moreover have "own_fds s \<subseteq> set (h_epoll ?h)" using assms(1) by (auto simp: server_inv_def add_interest_def)
  ultimately have "server_inv ?s" using h1 assms(1) by (simp add: server_inv_def own_fds_def)
  moreover have "register X fd c s = Ok ?s" using e r by (simp add: register_def epoll_add_def Let_def)
  moreover have "same_watch s ?s" by (rule same_watch_inter) simp_all
  ultimately show ?thesis by (simp add: add_interest_def)
qed

lemma disconnect_inv:
  assumes "handler_inv (sv_handler s)" and "fd \<notin> own_fds s" and "sv_listener s \<noteq> sv_timer s"
    and "own_fds s \<subseteq> set (h_epoll (sv_handler s))"
    and "clients_ok (s\<lparr>sv_clients := hm_remove fd (sv_clients s)\<rparr>)"
  shows "server_inv (disconnect fd s)" and "same_watch s (disconnect fd s)"
proof -
  let ?h = "remove_interest True fd (sv_handler s)"
  let ?s = "s\<lparr>sv_handler := ?h\<rparr>"
  have h: "handler_inv ?h" by (rule handler_inv_requests [OF requests_steps(3) assms(1)])
  have e: "own_fds s \<subseteq> set (h_epoll ?h)" using assms(2,4) by (auto simp: remove_interest_def)
  have "same_watch s ?s" by (rule same_watch_inter) simp_all
  moreover have "same_watch ?s (forget_deleted ?s)" by (rule forget_watch) (use e in \<open>simp add: own_fds_def\<close>)
  moreover have "same_watch (forget_deleted ?s) (disconnect fd s)"
    by (rule same_watch_inter) (simp_all add: disconnect_def epoll_del_def Let_def)
  ultimately show "same_watch s (disconnect fd s)" by (blast intro: same_watch_trans)
  show "server_inv (disconnect fd s)"
    using handler_inv_client(2) [OF h, of fd] e assms(3,5)
    by (simp add: disconnect_def epoll_del_def Let_def server_inv_def clients_ok_def own_fds_def)
qed

lemma modify_other:
  "modify_interest fd s = Some s' \<Longrightarrow> fd \<notin> own_fds s \<Longrightarrow> same_watch s s' \<and> server_inv s' = server_inv s"
  by (auto simp: modify_interest_def same_watch_def own_fds_def split: if_splits)

lemma read_event_inv:
  assumes "server_inv s" and "read_event X fd input s = Some (Ok s1)"
  shows "server_inv s1 \<and> same_watch s s1"
proof (cases "hm_get (sv_clients s) fd")
  case None
  with assms show ?thesis by (simp add: read_event_def)
next
  case (Some c)
  with assms(1) have c: "tc_fd c = fd" "parser_inv (tc_parser c)" "fd \<notin> own_fds s"
    and h: "conn_ok fd (sv_handler s) (c, sv_handler s)"
    by (auto simp: server_inv_def clients_ok_def conn_ok_def)
  obtain c1 h1 r where r: "read_socket X input c (sv_handler s) = Some ((c1, h1), r)" "r \<noteq> Panic"
    using assms(2) Some by (auto simp: read_event_def split: option.splits prod.splits result.splits)
  have ok: "conn_ok fd (sv_handler s) (c1, h1)" "r = Ok () \<longrightarrow> parser_inv (tc_parser c1)"
    using conn_read_socket [OF h c(2) r] by simp_all
  let ?s = "s\<lparr>sv_clients := hm_insert fd c1 (sv_clients s), sv_handler := h1\<rparr>"
  have h1: "handler_inv h1" "own_fds s \<subseteq> set (h_epoll h1)"
    using ok(1) assms(1) c(3) by (auto simp: conn_ok_def listens_def server_inv_def)
  have cs: "clients_ok s" using assms(1) by (simp add: server_inv_def)
  show ?thesis
  proof (cases r)
    case (Ok u)
    have "clients_ok (s\<lparr>sv_clients := hm_insert fd c1 (sv_clients s)\<rparr>)"
      using ok Ok c(3) cs by (intro clients_ok_insert) (simp_all add: conn_ok_def)
    note f = step_forget [OF assms(1) h1 this]
    have "s1 = forget_deleted ?s \<or> modify_interest fd (forget_deleted ?s) = Some s1"
      using assms(2) Some r Ok by (auto simp: read_event_def Let_def split: option.splits)
    then show ?thesis
    proof
      assume "s1 = forget_deleted ?s"
      with f show ?thesis by simp
    next
      assume "modify_interest fd (forget_deleted ?s) = Some s1"
      from modify_other [OF this] f c(3) same_watch_trans [OF f(2)] show ?thesis by (simp add: own_fds_def)
    qed
  next
    case (Err e)
    let ?t = "forget_deleted ?s"
    have "clients_ok (?t\<lparr>sv_clients := hm_remove fd (sv_clients ?t)\<rparr>)"
      using cs by (auto simp: clients_ok_def own_fds_def split: if_splits)
    moreover have "own_fds ?t = own_fds s" "sv_listener ?t \<noteq> sv_timer ?t" "h_epoll (sv_handler ?t) = h_epoll h1"
      "handler_inv (sv_handler ?t)"
      using assms(1) h1(1) by (simp_all add: own_fds_def server_inv_def)
    ultimately have d: "server_inv (disconnect fd ?t)" "same_watch ?t (disconnect fd ?t)"
      using disconnect_inv [of ?t fd] c(3) h1(2) by simp_all
    have "same_watch s ?s" by (rule same_watch_inter) simp_all
    moreover have "same_watch ?s ?t" by (rule forget_watch) (use h1 in \<open>simp add: own_fds_def\<close>)
    ultimately have "same_watch s (disconnect fd ?t)" using d(2) same_watch_trans by blast
    moreover have "s1 = disconnect fd ?t"
      using assms(2) Some r Err by (simp add: read_event_def Let_def)
    ultimately show ?thesis using d(1) by simp
  qed (use r in simp)
qed

lemma timer_event_inv:
  assumes "server_inv s" and "timer_event s = Ok s1"
  shows "server_inv s1 \<and> same_watch s s1"
proof -
  let ?g = "on_reg (\<lambda>r. r\<lparr>rg_timer := None\<rparr>) (sv_handler s)"
  obtain h where h: "callback_deadline_expire ?g = Ok h" "s1 = forget_deleted (s\<lparr>sv_handler := h\<rparr>)"
    using assms(2) by (auto simp: timer_event_def split: result.splits)
  have "handler_inv ?g"
    using assms(1) by (simp add: server_inv_def handler_inv_def on_reg_def pubsub_inv_def watch_inv_def
        txn_ok_def no_empty_queue_def)
  then have inv: "handler_inv h" by (rule handler_inv_requests [OF requests_callback [OF h(1)]])
  have "set (h_epoll ?g) \<subseteq> set (h_epoll h)"
    using h(1) by (auto simp: callback_deadline_expire_def run_deadline_task_def wait_deadline_task_def
        null_deadline_task_def add_interest_def Let_def
        dest!: arg_cong [where f = snd and x = "remove_request ts h" for ts h] arg_cong [where f = h_epoll]
        split: option.splits prod.splits request_entry.splits if_splits)
  then have "set (h_epoll (sv_handler s)) \<subseteq> set (h_epoll h)" by simp
  with assms(1) have "own_fds s \<subseteq> set (h_epoll h)" unfolding server_inv_def by blast
  moreover have "clients_ok (s\<lparr>sv_clients := sv_clients s\<rparr>)" using assms(1) by (simp add: server_inv_def)
  moreover have "s\<lparr>sv_clients := sv_clients s, sv_handler := h\<rparr> = s\<lparr>sv_handler := h\<rparr>" by simp
  ultimately show ?thesis using step_forget [OF assms(1) inv] h(2) by metis
qed

text \<open>An event of the listener arms it again; no other event touches the two.\<close>

definition listener_event :: "event \<Rightarrow> bool" where
  "listener_event ev \<longleftrightarrow> (case ev of Accepted _ _ \<Rightarrow> True | AcceptError \<Rightarrow> True | _ \<Rightarrow> False)"

definition watch_after :: "event \<Rightarrow> server \<Rightarrow> server \<Rightarrow> bool" where
  "watch_after ev s s' \<longleftrightarrow> sv_listener s' = sv_listener s \<and> sv_timer s' = sv_timer s \<and>
     set (sv_disarmed s') \<inter> own_fds s =
       set (sv_disarmed s) \<inter> own_fds s - (if listener_event ev then {sv_listener s} else {})"

lemma rearm_inv:
  assumes "server_inv s" and "listener_event ev"
  shows "\<exists>s1. rearm_listener s = Ok s1 \<and> server_inv s1 \<and> watch_after ev s s1"
  using assms by (auto simp: rearm_listener_def modify_interest_def server_inv_def own_fds_def clients_ok_def
      watch_after_def)

lemma server_event_inv:
  assumes "server_inv s" and "descriptor_free ev s" and "server_event X ev s = Some (Ok s1)"
  shows "server_inv s1 \<and> watch_after ev s s1"
proof (cases ev)
  case (Accepted fd stream)
  with assms(2) have "fd \<notin> own_fds s" by (simp add: descriptor_free_def own_fds_def)
  then obtain s2 where s2: "register X fd (client_new fd stream) s = Ok s2" "server_inv s2" "same_watch s s2"
    using register_inv [OF assms(1), of fd "client_new fd stream" X] by (auto simp: client_new_def parser_inv_new)
  with rearm_inv [OF s2(2), of ev] assms(3) Accepted show ?thesis
    by (auto simp: server_event_def listener_event_def watch_after_def same_watch_def own_fds_def)
next
  case AcceptError
  with rearm_inv [OF assms(1), of ev] assms(3) show ?thesis
    by (auto simp: server_event_def listener_event_def)
next
  case TimerFired
  with timer_event_inv [OF assms(1), of s1] assms(3) show ?thesis
    by (simp add: server_event_def listener_event_def watch_after_def same_watch_def)
next
  case (Readable fd input)
  with read_event_inv [OF assms(1), of X fd input s1] assms(3) show ?thesis
    by (simp add: server_event_def listener_event_def watch_after_def same_watch_def)
qed (use assms in \<open>simp add: server_event_def listener_event_def watch_after_def\<close>)

lemma server_events_inv:
  assumes "server_inv s" and "descriptors_free X evs s" and "server_events X evs s = Some (Ok s1)"
  shows "server_inv s1 \<and> sv_listener s1 = sv_listener s \<and> sv_timer s1 = sv_timer s \<and>
    set (sv_disarmed s1) \<inter> own_fds s =
      set (sv_disarmed s) \<inter> own_fds s - (if list_ex listener_event evs then {sv_listener s} else {})"
  using assms
proof (induction evs arbitrary: s)
  case (Cons ev evs)
  then obtain s2 where s2: "server_event X ev s = Some (Ok s2)" "server_events X evs s2 = Some (Ok s1)"
    by (auto split: option.splits result.splits)
  with Cons.prems(2) have "descriptor_free ev s" "descriptors_free X evs s2" by simp_all
  with server_event_inv [OF Cons.prems(1) _ s2(1)] Cons.IH [OF _ _ s2(2)] show ?case
    by (auto simp: watch_after_def own_fds_def split: if_splits)
qed simp

lemma deliver_clients:
  assumes "deliver_replies q cs = Ok cs'" and "clients_ok (s\<lparr>sv_clients := cs\<rparr>)"
  shows "clients_ok (s\<lparr>sv_clients := cs'\<rparr>)"
  using assms
proof (induction q cs rule: deliver_replies.induct)
  case (2 i b q cs)
  then obtain c where c: "hm_get cs i = Some c" by (auto split: option.splits)
  have "clients_ok (s\<lparr>sv_clients := hm_insert i (fst (write_all b c)) cs\<rparr>)"
    using 2(3) c by (auto simp: clients_ok_def own_fds_def)
  with 2 c show ?case by simp
qed simp

lemma end_of_turn_inv:
  assumes "server_inv s" and "end_of_turn s = Ok s1"
  shows "server_inv s1 \<and> same_watch s s1"
proof -
  define h where "h = fst (handler_aof_flush (serve_backlog_stream (serve_backlog_list (sv_handler s))))"
  have inv: "handler_inv h"
    using assms(1) by (simp add: h_def inv_flush inv_serve server_inv_def)
  have "h_epoll (snd (take_requests ts g)) = h_epoll g" for ts g
    by (induction ts arbitrary: g) (simp_all add: case_prod_beta)
  moreover have "h_epoll (run_backlog_task e g) = h_epoll g" for e g
    by (auto simp: run_backlog_task_def blpop_backlog_task_def xread_backlog_task_def Let_def
        split: request_entry.split option.split store_value.split list.split)
  then have "h_epoll (fold run_backlog_task es g) = h_epoll g" for es g
    by (induction es arbitrary: g) simp_all
  ultimately have ep: "h_epoll h = h_epoll (sv_handler s)"
    by (simp add: h_def handler_aof_flush_def serve_backlog_list_def serve_backlog_stream_def case_prod_beta
        split: option.split)
  obtain cs where cs: "deliver_replies (h_queue h) (sv_clients s) = Ok cs"
    "s1 = forget_deleted (s\<lparr>sv_clients := cs, sv_handler := h\<lparr>h_queue := []\<rparr>\<rparr>)"
    using assms(2) by (auto simp: end_of_turn_def Let_def h_def rbind_Ok_iff)
  note cs(2)
  moreover have "clients_ok (s\<lparr>sv_clients := cs\<rparr>)"
    using deliver_clients [OF cs(1), of s] assms(1) by (simp add: server_inv_def)
  ultimately show ?thesis
    using step_forget [OF assms(1), of "h\<lparr>h_queue := []\<rparr>" cs] inv ep assms(1) by (simp add: server_inv_def)
qed

section \<open>Turns\<close>

lemma set_disarm:
  "set (sv_disarmed (disarm evs s)) = set (sv_disarmed s) \<union> event_fd s ` set evs"
proof -
  have "set (fold (\<lambda>ev. hs_insert (event_fd s ev)) evs d) = set d \<union> event_fd s ` set evs" for d
    by (induction evs arbitrary: d) auto
  then show ?thesis by (simp add: disarm_def)
qed

lemma disarm_fields [simp]:
  "server_inv (disarm evs s) = server_inv s" "own_fds (disarm evs s) = own_fds s"
  "sv_listener (disarm evs s) = sv_listener s" "sv_timer (disarm evs s) = sv_timer s"
  by (simp_all add: disarm_def own_fds_def)

lemma event_own_fd:
  "may_fire s ev \<Longrightarrow> sv_listener s \<noteq> sv_timer s \<Longrightarrow> (event_fd s ev = sv_listener s \<longleftrightarrow> listener_event ev)"
  "may_fire s ev \<Longrightarrow> sv_listener s \<noteq> sv_timer s \<Longrightarrow> (event_fd s ev = sv_timer s \<longleftrightarrow> ev = TimerFired)"
  by (cases ev; auto simp: may_fire_def event_fd_def listener_event_def)+

text \<open>A turn keeps the invariant, leaves the listener armed, and disarms the timer for good.\<close>

lemma server_step_inv:
  assumes "server_step X evs s s'" and "server_inv s"
  shows "server_inv s' \<and> sv_listener s' = sv_listener s \<and> sv_timer s' = sv_timer s \<and>
    (sv_listener s \<notin> set (sv_disarmed s) \<longrightarrow> sv_listener s' \<notin> set (sv_disarmed s')) \<and>
    (sv_timer s' \<in> set (sv_disarmed s') \<longleftrightarrow> sv_timer s \<in> set (sv_disarmed s) \<or> TimerFired \<in> set evs)"
proof -
  from assms(1) have b: "batch_ok X evs s" and t: "server_turn X evs s = Some (Ok s')" by auto
  obtain s1 where s1: "server_events X evs (disarm evs s) = Some (Ok s1)" "end_of_turn s1 = Ok s'"
    using t by (auto simp: server_turn_def split: option.splits result.splits)
  have fire: "may_fire s ev" if "ev \<in> set evs" for ev using b that by (simp add: batch_ok_def list_all_iff)
  have ne: "sv_listener s \<noteq> sv_timer s" using assms(2) by (simp add: server_inv_def)
  have ev: "server_inv s1 \<and> sv_listener s1 = sv_listener s \<and> sv_timer s1 = sv_timer s \<and>
      set (sv_disarmed s1) \<inter> own_fds s = (set (sv_disarmed s) \<union> event_fd s ` set evs) \<inter> own_fds s -
        (if list_ex listener_event evs then {sv_listener s} else {})"
    using server_events_inv [OF _ _ s1(1)] assms(2) b by (simp add: batch_ok_def set_disarm)
  from end_of_turn_inv [OF conjunct1 [OF ev] s1(2)] ev
  have e: "server_inv s'" "sv_listener s' = sv_listener s" "sv_timer s' = sv_timer s"
    "set (sv_disarmed s') \<inter> own_fds s = (set (sv_disarmed s) \<union> event_fd s ` set evs) \<inter> own_fds s -
        (if list_ex listener_event evs then {sv_listener s} else {})"
    by (simp_all add: same_watch_def own_fds_def)
  have mem: "x \<in> set (sv_disarmed s') \<longleftrightarrow>
      (x \<in> set (sv_disarmed s) \<or> x \<in> event_fd s ` set evs) \<and>
      \<not> (list_ex listener_event evs \<and> x = sv_listener s)" if "x \<in> own_fds s" for x
  proof -
    from e(4) have "x \<in> set (sv_disarmed s') \<inter> own_fds s \<longleftrightarrow>
      x \<in> (set (sv_disarmed s) \<union> event_fd s ` set evs) \<inter> own_fds s -
        (if list_ex listener_event evs then {sv_listener s} else {})" by (rule arg_cong)
    with that show ?thesis by simp
  qed
  have own: "sv_listener s \<in> own_fds s" "sv_timer s \<in> own_fds s" by (simp_all add: own_fds_def)
  have "sv_listener s \<in> set (sv_disarmed s') \<longrightarrow> sv_listener s \<in> set (sv_disarmed s)"
  proof
    assume "sv_listener s \<in> set (sv_disarmed s')"
    then have "sv_listener s \<in> set (sv_disarmed s) \<or> sv_listener s \<in> event_fd s ` set evs" "\<not> list_ex listener_event evs"
      using mem [OF own(1)] by simp_all
    moreover have "sv_listener s \<notin> event_fd s ` set evs" if "\<not> list_ex listener_event evs"
    proof
      assume "sv_listener s \<in> event_fd s ` set evs"
      then obtain ev where "ev \<in> set evs" "event_fd s ev = sv_listener s" by force
      with event_own_fd(1) [OF fire ne] that show False by (auto simp: list_ex_iff)
    qed
    ultimately show "sv_listener s \<in> set (sv_disarmed s)" by blast
  qed
  moreover have "sv_timer s \<in> event_fd s ` set evs \<longleftrightarrow> TimerFired \<in> set evs"
  proof
    assume "sv_timer s \<in> event_fd s ` set evs"
    then obtain ev where "ev \<in> set evs" "event_fd s ev = sv_timer s" by force
    with event_own_fd(2) [OF fire ne] show "TimerFired \<in> set evs" by blast
  next
    have "event_fd s TimerFired = sv_timer s" by (simp add: event_fd_def)
    then show "TimerFired \<in> set evs \<Longrightarrow> sv_timer s \<in> event_fd s ` set evs" by force
  qed
  then have "sv_timer s \<in> set (sv_disarmed s') \<longleftrightarrow> sv_timer s \<in> set (sv_disarmed s) \<or> TimerFired \<in> set evs"
    using mem [OF own(2)] ne by simp
  ultimately show ?thesis using e(1-3) by auto
qed

text \<open>A turn ends: no read of a connection loops for ever.\<close>

lemma server_event_returns: "server_inv s \<Longrightarrow> \<exists>r. server_event X ev s = Some r"
proof (cases ev)
  case (Readable fd input)
  assume inv: "server_inv s"
  have "\<exists>r. read_socket X input c (sv_handler s) = Some r" if "hm_get (sv_clients s) fd = Some c" for c
    using inv that by (intro read_socket_returns) (auto simp: server_inv_def clients_ok_def)
  moreover have "\<exists>r. read_event X fd input s = Some r"
    if "hm_get (sv_clients s) fd = Some c" "read_socket X input c (sv_handler s) = Some ((c1, h1), r)" for c c1 h1 r
    using that by (cases r) (simp_all add: read_event_def Let_def)
  ultimately have "\<exists>r. read_event X fd input s = Some r"
    by (cases "hm_get (sv_clients s) fd") (fastforce simp: read_event_def)+
  with Readable show ?thesis by (simp add: server_event_def)
qed (simp_all add: server_event_def)

lemma server_events_return: "server_inv s \<Longrightarrow> descriptors_free X evs s \<Longrightarrow> \<exists>r. server_events X evs s = Some r"
proof (induction evs arbitrary: s)
  case (Cons ev evs)
  obtain r where r: "server_event X ev s = Some r" using server_event_returns [OF Cons.prems(1)] by blast
  show ?case
  proof (cases r)
    case (Ok s1)
    with Cons.prems r have "server_inv s1" "descriptors_free X evs s1"
      using server_event_inv [OF Cons.prems(1), of ev X s1] by simp_all
    with Cons.IH [OF this] r Ok show ?thesis by simp
  qed (use r in simp_all)
qed simp

lemma server_turn_returns: "server_inv s \<Longrightarrow> batch_ok X evs s \<Longrightarrow> \<exists>r. server_turn X evs s = Some r"
  using server_events_return [of "disarm evs s" X evs]
  by (auto simp: server_turn_def batch_ok_def split: result.split)

section \<open>Start-up\<close>

definition world_ok :: "world \<Rightarrow> bool" where
  "world_ok w \<longleftrightarrow> wd_listener w \<noteq> wd_timer w \<and> map_option fst (wd_master w) \<notin> {Some (wd_listener w), Some (wd_timer w)}"

lemma replay_values_inv:
  assumes "replay_values X p h = Some r"
  shows "handler_inv h \<longrightarrow> handler_inv (snd (fst r))"
  using assms
proof (rule replay_values.raw_induct
    [where P = "\<lambda>X p h r. handler_inv h \<longrightarrow> handler_inv (snd (fst r))", rotated])
  fix f :: "externals \<Rightarrow> resp_parser \<Rightarrow> cmd_handler \<Rightarrow> ((resp_parser \<times> cmd_handler) \<times> io) option"
    and X p h r
  let ?body = "case parse False p of None \<Rightarrow> None
    | Some (Return q) \<Rightarrow>
        (case get_completed q of
           (None, q1) \<Rightarrow> Some ((q1, h), Ok ())
         | (Some t, q1) \<Rightarrow>
             (case serialize t of
                Ok raw \<Rightarrow>
                  (case handle X (from_resp t) raw 0 False h of
                     (h1, Panic) \<Rightarrow> Some ((q1, h1), Panic)
                   | (h1, _) \<Rightarrow> f X q1 h1)
              | _ \<Rightarrow> Some ((q1, h), Panic)))
    | Some (Fail _ q) \<Rightarrow> Some ((q, h), Ok ())
    | Some _ \<Rightarrow> Some ((p, h), Panic)"
  assume IH: "\<And>X p h r. f X p h = Some r \<Longrightarrow> handler_inv h \<longrightarrow> handler_inv (snd (fst r))"
    and r: "?body = Some r"
  show "handler_inv h \<longrightarrow> handler_inv (snd (fst r))"
  proof
    assume inv: "handler_inv h"
    have h1: "handler_inv h1" if "handle X cr b 0 False h = (h1, v)" for h1 cr b v
      using inv_handle [OF inv, of X cr b 0 False] that by simp
    from r inv show "handler_inv (snd (fst r))"
      by (auto split: option.splits step_out.splits prod.splits result.splits dest!: h1 IH)
  qed
qed

lemma replay_chunks_inv: "replay_chunks X ds p h = Some ((p', h'), r) \<Longrightarrow> handler_inv h \<Longrightarrow> handler_inv h'"
proof (induction X ds p h rule: replay_chunks.induct)
  case (2 X d ds p h)
  from 2(2) show ?case
  proof (cases "replay_values X (feed_buf d p) h")
    case (Some v)
    obtain p1 h1 r1 where v: "v = ((p1, h1), r1)" by (metis surj_pair)
    with replay_values_inv [OF Some] 2(3) have "handler_inv h1" by simp
    with 2 Some v show ?thesis by (cases r1) auto
  qed simp
qed simp

lemma init_sequence_inv:
  assumes "init_sequence X cf a fs h = Some ((a', fs', h'), r)" and "handler_inv h"
  shows "handler_inv h'"
proof -
  have "handler_inv h1" if "aof_replay X cf fs h = Some (h1, r1)" for h1 r1
    using that assms(2) by (auto simp: aof_replay_def dest!: replay_chunks_inv
        split: result.splits option.splits prod.splits)
  with assms show ?thesis
    by (auto simp: init_sequence_def split: if_splits result.splits option.splits prod.splits)
qed

lemma load_rdb_inv: "load_rdb cf fs h = Ok h' \<Longrightarrow> handler_inv h \<Longrightarrow> handler_inv h'"
proof -
  assume inv: "handler_inv h"
  have "handler_inv (load_data d h)" if "rdb_read b = Ok d" for b d
    using rdb_loop_store [of _ "[]" d] that inv
    by (auto simp: rdb_read_def load_data_def handler_inv_def pubsub_inv_def store_inv_def split: if_splits)
  with inv show "load_rdb cf fs h = Ok h' \<Longrightarrow> handler_inv h'"
    by (auto simp: load_rdb_def split: prod.splits option.splits if_splits result.splits)
qed

text \<open>Once the data is there, the loop starts with the two descriptors of its own.\<close>

lemma start_loop_inv:
  assumes "start_loop X w cf fs h = Ok s" and "handler_inv h" and "world_ok w"
  shows "server_inv s \<and> sv_disarmed s = [] \<and> sv_listener s = wd_listener w \<and> sv_timer s = wd_timer w"
proof -
  obtain h1 s1 where h1: "load_rdb cf fs h = Ok h1"
    and s1: "connect_master X (wd_master w) (server_new (wd_listener w) (wd_timer w) h1) = Ok s1"
    and s: "s = epoll_add (wd_timer w) (epoll_add (wd_listener w) s1)"
    using assms(1) by (auto simp: start_loop_def rbind_Ok_iff split: result.splits)
  let ?s0 = "server_new (wd_listener w) (wd_timer w) h1"
  have inv: "handler_inv h1" by (rule load_rdb_inv [OF h1 assms(2)])
  have "handler_inv (sv_handler s1) \<and> clients_ok s1 \<and> sv_disarmed s1 = [] \<and>
    sv_listener s1 = wd_listener w \<and> sv_timer s1 = wd_timer w"
  proof (cases "s1 = ?s0")
    case True
    with inv show ?thesis by (simp add: server_new_def clients_ok_def hm_inv_def)
  next
    case False
    then obtain fd stream where fd: "wd_master w = Some (fd, stream)"
      "register X fd (init_handshake (client_new fd stream)) ?s0 = Ok s1"
      using s1 by (auto simp: connect_master_def split: option.splits)
    obtain a r where a: "authenticate (x_hash X) fd None None (h_auth h1) = (a, r)" by fastforce
    have "handler_inv (add_interest True fd h1)"
      by (rule handler_inv_requests [OF requests_steps(2) inv])
    moreover have "auth_inv a" using inv auth_inv_authenticate a by (metis handler_inv_def fst_conv)
    ultimately have "handler_inv ((add_interest True fd h1)\<lparr>h_auth := a\<rparr>)" by (rule handler_inv_client)
    moreover have "fd \<noteq> wd_listener w" "fd \<noteq> wd_timer w" using fd(1) assms(3) by (auto simp: world_ok_def)
    ultimately show ?thesis
      using fd(2) a
      by (auto simp: register_def epoll_add_def Let_def server_new_def add_interest_def clients_ok_def hm_inv_def
          own_fds_def client_new_def init_handshake_def parser_inv_new split: result.splits if_splits)
  qed
  moreover have "handler_inv (sv_handler s1) \<Longrightarrow> handler_inv (sv_handler s)"
    unfolding s epoll_add_def by (simp add: handler_inv_requests [OF requests_steps(2)])
  ultimately show ?thesis
    using assms(3) by (simp add: s epoll_add_def add_interest_def server_inv_def clients_ok_def own_fds_def world_ok_def)
      metis
qed

lemma server_start_inv:
  assumes "server_start X w = Some (Ok s)" and "world_ok w"
  shows "server_inv s \<and> sv_disarmed s = []"
proof -
  obtain st cf where c: "app_init (wd_args w) = Some st" "configs_of_args (wd_args w) = Some cf"
    using assms(1) by (auto simp: server_start_def split: option.splits)
  let ?h = "handler_new st cf (wd_clock w) None"
  obtain a fs h r where i: "init_sequence X cf aof_new (wd_files w) ?h = Some ((a, fs, h), r)"
    "start_loop X w cf fs (set_aof a h) = Ok s"
    using assms(1) c by (auto simp: server_start_def split: option.splits prod.splits result.splits)
  have "handler_inv ?h" by (rule inv_new [OF app_init_inv [OF c(1)]])
  from init_sequence_inv [OF i(1) this] have "handler_inv (set_aof a h)" by (simp add: set_aof_def)
  from start_loop_inv [OF i(2) this assms(2)] show ?thesis by simp
qed

text \<open>All the states of the running program.\<close>

lemma server_run_inv:
  assumes "server_run X w bs s" and "world_ok w"
  shows "server_inv s \<and> sv_listener s \<notin> set (sv_disarmed s) \<and>
    (sv_timer s \<in> set (sv_disarmed s) \<longleftrightarrow> TimerFired \<in> \<Union>(set ` set bs))"
  using assms
proof (induction rule: server_run.induct)
  case (start s)
  with server_start_inv [OF start(1)] show ?case by simp
next
  case (turn bs s evs s')
  with server_step_inv [OF turn(2)] show ?case by auto
qed

lemma timer_batches:
  assumes "server_run X w bs s" and "world_ok w"
  shows "length (filter ((=) TimerFired) (concat bs)) \<le> 1"
  using assms
proof (induction rule: server_run.induct)
  case (turn bs s evs s')
  have b: "batch_ok X evs s" using turn(2) by auto
  have one: "length (filter ((=) TimerFired) evs) \<le> 1"
  proof -
    have "distinct evs" using b by (auto simp: batch_ok_def distinct_map)
    then have "length (filter ((=) TimerFired) evs) = card (set (filter ((=) TimerFired) evs))"
      by (metis distinct_card distinct_filter)
    also have "\<dots> \<le> card {TimerFired}" by (rule card_mono) auto
    finally show ?thesis by simp
  qed
  show ?case
  proof (cases "TimerFired \<in> set evs")
    case True
    with b have "sv_timer s \<notin> set (sv_disarmed s)"
      by (auto simp: batch_ok_def list_all_iff may_fire_def event_fd_def)
    with server_run_inv [OF turn(1,4)] have "filter ((=) TimerFired) (concat bs) = []"
      by (auto simp: filter_empty_conv)
    with one show ?thesis by simp
  next
    case False
    then have "filter ((=) TimerFired) evs = []" by (auto simp: filter_empty_conv)
    with turn.IH [OF turn(4)] show ?thesis by simp
  qed
qed simp

text \<open>Without arguments the server starts as a master without data and without a log.\<close>

lemma default_start:
  assumes "wd_args w = []"
  shows "server_start X w = Some (Ok (epoll_add (wd_timer w) (epoll_add (wd_listener w)
    (server_new (wd_listener w) (wd_timer w) (set_aof aof_new (fresh_master (wd_clock w)))))))"
  using assms
  by (simp add: server_start_def app_init_def configs_of_args_def parse_replicaof_def init_sequence_def
      configs_new_def start_loop_def load_rdb_def dbfilepath_def set_aof_def fresh_master_def handler_new_def
      connect_master_def server_new_def Let_def)

section \<open>Replies to clients that have gone\<close>

lemma deliver_panics: "(i, b) \<in> set q \<Longrightarrow> hm_get cs i = None \<Longrightarrow> deliver_replies q cs = Panic"
proof (induction q cs rule: deliver_replies.induct)
  case (2 j b' q cs)
  then show ?case by (cases "hm_get cs j"; cases "i = j") auto
qed simp

lemma deliver_ok: "(\<And>i b. (i, b) \<in> set q \<Longrightarrow> hm_get cs i \<noteq> None) \<Longrightarrow> \<exists>cs'. deliver_replies q cs = Ok cs'"
proof (induction q cs rule: deliver_replies.induct)
  case (2 j b q cs)
  then obtain c where c: "hm_get cs j = Some c" by fastforce
  have "\<exists>cs'. deliver_replies q (hm_insert j (fst (write_all b c)) cs) = Ok cs'"
    by (rule 2(1) [OF c]) (use 2(2) in fastforce)
  with c show ?case by simp
qed simp

text \<open>
  PUBLISH to a channel one of whose members has gone: closing the connection left it in the
  channel, and the turn ends in a panic.
\<close>

lemma disconnect_keeps:
  "h_chans (sv_handler (disconnect fd s)) = h_chans (sv_handler s)"
  "h_subs (sv_handler (disconnect fd s)) = h_subs (sv_handler s)"
  "h_reg (sv_handler (disconnect fd s)) = h_reg (sv_handler s)"
  "hm_get (sv_clients (disconnect fd s)) g = (if g = fd then None else hm_get (sv_clients s) g)"
  by (simp_all add: disconnect_def epoll_del_def remove_interest_def Let_def)

lemma publish_handled:
  assumes "hm_get (h_chans h) ch = Some q" and "g \<notin> set (h_subs h)"
    and "\<not> is_transaction g (h_reg h)"
  shows "\<exists>h1 v. handle X (Ok (CPUBLISH ch m)) b g True h = (h1, Ok v) \<and>
    h_queue h1 = h_queue h @ map (\<lambda>i. (i, ser (built 3 [bulk ''message'', bulk ch, bulk m]))) q \<and>
    \<not> h_flag_list h1 \<and> \<not> h_flag_stream h1"
proof -
  let ?msg = "ser (built 3 [bulk ''message'', bulk ch, bulk m])"
  have d: "dispatch X ex (CPUBLISH ch m) g ep h =
    (fold (\<lambda>i. push i ?msg) q h, reply (int_reply (int (length q))))" for ex ep
    using assms(1) by (simp add: dispatch_def cmd_publish_def Let_def)
  have f: "\<not> to_be_broadcast (CPUBLISH ch m)" "before_cmd (CPUBLISH ch m) b x h = h" for x
    by (simp_all add: to_be_broadcast_def before_cmd_def set_dirty_def dirty_key_def on_reg_def)
  have "\<not> is_subscriber g h" "\<not> stats_missing (CPUBLISH ch m) x h" "\<not> is_flag_list (CPUBLISH ch m)"
    "\<not> is_flag_stream (CPUBLISH ch m)" for x
    using assms(2) f(1) by (simp_all add: is_subscriber_def stats_missing_def is_flag_list_def is_flag_stream_def)
  moreover have "serialize (int_reply i) = Ok (ser (int_reply i))" for i
    by (simp add: int_reply_def serialize_ok)
  ultimately show ?thesis
    using assms(3) f
    by (simp add: handle_def numeral_2_eq_2 execute_with_def d reply_def after_ok_def Let_def to_output_def
        bytes_or_none_def)
qed

lemma callback_panics: "rg_deadline (h_reg (sv_handler s)) = [] \<Longrightarrow> timer_event s = Panic"
  by (simp add: timer_event_def callback_deadline_expire_def get_nearest_deadline_def bt_first_def on_reg_def)

lemma blpop_then_push:
  fixes c g t :: u64 and h :: cmd_handler and key v :: string and b :: bytes and X :: externals
  assumes "h_reg h = registry_new" and "look key h = None" and "0 < h_clock h (h_reads h) + t"
    and "host_stats (h_states h) \<noteq> None" and "g \<notin> set (h_subs h)"
  defines "h1 \<equiv> fst (cmd_blpop key (Some t) c h)"
  defines "h2 \<equiv> serve_backlog_list (fst (handle X (Ok (CRPUSH key [v])) b g True h1))"
  shows "(c, ser (blpop_item key v)) \<in> set (h_queue h2)" and "callback_deadline_expire h2 = Panic"
    and "rg_timer (h_reg h2) = rg_timer (h_reg h1)"
proof -
  let ?now = "h_clock h (h_reads h)"
  define e where "e = ListReq key (?now + t) c ?now"
  have h1: "h1 = h\<lparr>h_reads := Suc (Suc (h_reads h)),
      h_reg := registry_new\<lparr>rg_store := [(?now, e)], rg_list := [(key, [?now])],
        rg_deadline := [(?now + t, ?now)],
        rg_timer := rg_timer (h_reg h1)\<rparr>\<rparr>"
    using assms(1-3) unfolding h1_def
    by (simp add: cmd_blpop_def get_deadline_def tick_def Let_def look_def insert_request_def on_reg_def
        reg_insert_def reg_arm_def reg_enqueue_def e_def registry_new_def set_timer_fd_def bt_first_def
        timer_create_event_def)
  define g1 where "g1 = fst (handle X (Ok (CRPUSH key [v])) b g True h1)"
  have g1: "h_reg g1 = h_reg h1" "look key g1 = Some (item (VList [v]) None)" "h_flag_list g1"
    unfolding g1_def using assms(1,2,4,5)
    by (intro rpush_handled; subst h1; simp add: look_def is_transaction_def registry_new_def hm_contains_def)+
  have reg: "rg_store (h_reg g1) = [(?now, e)]" "rg_list (h_reg g1) = [(key, [?now])]"
    "rg_deadline (h_reg g1) = [(?now + t, ?now)]"
    unfolding g1(1) by (subst h1, simp)+
  then have "servable_list g1 = [?now]" using g1(2) by (simp add: servable_list_def item_def)
  moreover define g2 where "g2 = snd (remove_request ?now g1)"
  have g2: "remove_request ?now g1 = (Some e, g2)" "look key g2 = Some (item (VList [v]) None)"
    "rg_deadline (h_reg g2) = []" "rg_store (h_reg g2) = []"
    using reg g1(2) by (simp_all add: g2_def remove_request_def tick_def reg_remove_def Let_def reg_dequeue_def
        e_def look_def set_timer_fd_def bt_first_def)
  have timer: "rg_timer (h_reg g2) = rg_timer (h_reg g1)"
    using g2(3) timer_left_armed by (fastforce simp: g2_def remove_request_def tick_def case_prod_beta)
  let ?p = "push c (ser (blpop_item key v)) (put_value key (item (VList [v]) None) (VList []) g2)"
  have p: "remove_request ?now ?p = (None, snd (tick ?p))"
    using g2(4) by (simp add: remove_request_def tick_def push_def put_value_def put_def reg_remove_def)
  have "blpop_backlog_task key c ?now g2 = snd (tick ?p)"
    using g2(2) p by (simp add: blpop_backlog_task_def item_def)
  ultimately have h2: "h2 = (snd (tick ?p))\<lparr>h_flag_list := False\<rparr>"
    using g1(3) g2(1) unfolding h2_def g1_def [symmetric]
    by (simp add: serve_backlog_list_def e_def is_list_entry_def run_backlog_task_def)
  show "(c, ser (blpop_item key v)) \<in> set (h_queue h2)"
    by (simp add: h2 tick_def push_def)
  show "callback_deadline_expire h2 = Panic"
    using g2(3) by (intro callback_without_deadline) (simp add: h2 tick_def push_def put_value_def put_def)
  show "rg_timer (h_reg h2) = rg_timer (h_reg h1)"
    using timer g1(1) by (simp add: h2 tick_def push_def put_value_def put_def)
qed

lemma end_of_turn_panics:
  assumes "(i, b) \<in> set (h_queue (sv_handler s))" and "hm_get (sv_clients s) i = None"
    and "\<not> h_flag_list (sv_handler s)" and "\<not> h_flag_stream (sv_handler s)"
  shows "end_of_turn s = Panic"
proof -
  let ?h = "fst (handler_aof_flush (serve_backlog_stream (serve_backlog_list (sv_handler s))))"
  have "h_queue ?h = h_queue (sv_handler s)"
    using assms(3,4) by (simp add: serve_backlog_list_def serve_backlog_stream_def handler_aof_flush_def
        case_prod_beta split: option.split)
  then have "deliver_replies (h_queue ?h) (sv_clients s) = Panic"
    using deliver_panics [OF assms(1,2)] by simp
  then show ?thesis by (simp add: end_of_turn_def Let_def)
qed

lemma published_to_the_gone:
  assumes "server_inv s" and "hm_get (sv_clients s) g = Some c" and "idle c \<and> tc_stream c = []" and "g \<noteq> fd"
    and "rp_status (tc_repl c) \<noteq> Some Master" and "check_auth g (h_auth (sv_handler s))"
    and "g \<notin> set (h_subs (sv_handler s))" and "\<not> is_transaction g (h_reg (sv_handler s))"
    and "fd \<in> members ch (sv_handler s)" and "wf_resp t" and "from_resp t = Ok (CPUBLISH ch m)"
  shows "server_turn X [Readable g (Some (ser t))] (disconnect fd s) = Some Panic"
proof -
  let ?s = "disarm [Readable g (Some (ser t))] (disconnect fd s)"
  let ?h = "sv_handler (disconnect fd s)"
  have fd: "tc_fd c = g" using assms(1,2) by (auto simp: server_inv_def clients_ok_def)
  have auth: "check_auth g (h_auth ?h)"
    using assms(4,6) by (simp add: disconnect_def epoll_del_def Let_def check_auth_def remove_auth_def
        remove_interest_def hm_contains_def)
  obtain q where q: "hm_get (h_chans ?h) ch = Some q" "fd \<in> set q"
    using assms(9) by (auto simp: members_def disconnect_keeps split: option.splits)
  obtain h1 v where h1: "handle X (Ok (CPUBLISH ch m)) (ser t) g True ?h = (h1, Ok v)"
    "h_queue h1 = h_queue ?h @ map (\<lambda>i. (i, ser (built 3 [bulk ''message'', bulk ch, bulk m]))) q"
    "\<not> h_flag_list h1" "\<not> h_flag_stream h1"
    using publish_handled [OF q(1), of g X m "ser t"] assms(7,8) by (auto simp: disconnect_keeps)
  let ?c1 = "c\<lparr>tc_sent := tc_sent c @ v\<rparr>"
  have "serve_value X t c ?h = ((?c1, h1), Ok ())"
    using assms(3,5,10,11) auth h1(1) fd
    by (simp add: serve_value_def serialize_ok wf_resp_serializable respond_def is_auth_cmd_def write_all_ok)
  from read_value [OF conjunct1 [OF assms(3)] assms(10) wf_ser_nonempty [OF assms(10)] this]
  have "read_socket X (Some (ser t)) c ?h = Some ((?c1, h1), Ok ())" .
  moreover have "sv_handler ?s = ?h" "hm_get (sv_clients ?s) g = Some c"
    using assms(2,4) by (simp_all add: disarm_def disconnect_keeps)
  ultimately obtain s1 where s1: "read_event X g (Some (ser t)) ?s = Some (Ok s1)" "sv_handler s1 = h1"
    "sv_clients s1 = hm_insert g ?c1 (sv_clients ?s)"
    by (auto simp: read_event_def Let_def modify_interest_def)
  have "(fd, ser (built 3 [bulk ''message'', bulk ch, bulk m])) \<in> set (h_queue (sv_handler s1))"
    using q(2) h1(2) s1(2) by auto
  moreover have "hm_get (sv_clients s1) fd = None"
    using assms(4) by (simp add: s1(3) disarm_def disconnect_keeps)
  ultimately have "end_of_turn s1 = Panic" using h1(3,4) s1(2) by (intro end_of_turn_panics) simp_all
  with s1(1) show ?thesis by (simp add: server_turn_def server_event_def)
qed

end
