(* ===== verification/Readiness.thy ===== *)
theory Readiness
  imports ServerCorrect
begin

text \<open>
  One-shot registrations: a connection whose event has been handled is armed again, is gone, or
  has been taken out of epoll by its own command. Only an event that is no \<open>EPOLLIN\<close> leaves a
  connection registered and unarmed, and that for good.
\<close>

section \<open>One event\<close>

definition unarmed :: "server \<Rightarrow> u64 set" where
  "unarmed s = set (sv_disarmed s)"

definition connected :: "server \<Rightarrow> u64 set" where
  "connected s = {fd. hm_get (sv_clients s) fd \<noteq> None}"

definition read_fds :: "event list \<Rightarrow> u64 set" where
  "read_fds evs = {fd. \<exists>input. Readable fd input \<in> set evs}"

definition other_fds :: "event list \<Rightarrow> u64 set" where
  "other_fds evs = {fd. OtherEvent fd \<in> set evs}"

lemma unarmed_forget: "unarmed (forget_deleted s) = unarmed s \<inter> set (h_epoll (sv_handler s))"
  by (auto simp: unarmed_def forget_deleted_def)

lemma unarmed_update [simp]:
  "unarmed (s\<lparr>sv_handler := h\<rparr>) = unarmed s" "unarmed (s\<lparr>sv_clients := cs\<rparr>) = unarmed s"
  by (simp_all add: unarmed_def)

lemma unarmed_modify: "modify_interest fd s = Some s' \<Longrightarrow> unarmed s' = unarmed s - {fd} \<and> connected s' = connected s"
  by (auto simp: modify_interest_def unarmed_def connected_def split: if_splits)

lemma connected_forget [simp]: "connected (forget_deleted s) = connected s"
  by (simp add: connected_def forget_deleted_def)

lemma read_rearms:
  assumes "read_event X fd input s = Some (Ok s1)" and "fd \<in> connected s"
  shows "unarmed s1 \<subseteq> unarmed s - {fd}" and "connected s - {fd} \<subseteq> connected s1"
proof -
  obtain c where c: "hm_get (sv_clients s) fd = Some c" using assms(2) by (auto simp: connected_def)
  obtain c1 h1 r where r: "read_socket X input c (sv_handler s) = Some ((c1, h1), r)" "r \<noteq> Panic"
    using assms(1) c by (auto simp: read_event_def split: option.splits result.splits)
  define t where "t = forget_deleted (s\<lparr>sv_clients := hm_insert fd c1 (sv_clients s), sv_handler := h1\<rparr>)"
  have t: "unarmed t = unarmed s \<inter> set (h_epoll h1)" "connected t = insert fd (connected s)" "sv_handler t = h1"
    by (simp_all add: t_def unarmed_forget) (auto simp: connected_def forget_deleted_def)
  have s1: "s1 = (case r of Ok _ \<Rightarrow> (case modify_interest fd t of Some s2 \<Rightarrow> s2 | None \<Rightarrow> t) | _ \<Rightarrow> disconnect fd t)"
    unfolding t_def using assms(1) c r by (cases r) (simp_all add: read_event_def Let_def)
  have d: "unarmed (disconnect fd t) \<subseteq> unarmed t - {fd}" "connected (disconnect fd t) = connected t - {fd}"
    by (auto simp: disconnect_def epoll_del_def Let_def unarmed_def connected_def forget_deleted_def
        remove_interest_def)
  have m: "fd \<notin> unarmed t" if "modify_interest fd t = None"
    using that t by (auto simp: modify_interest_def split: if_splits)
  have "unarmed s1 \<subseteq> unarmed t - {fd} \<and> connected t - {fd} \<subseteq> connected s1"
  proof (cases "\<exists>u. r = Ok u")
    case True
    then show ?thesis using s1 m unarmed_modify [of fd t] by (cases "modify_interest fd t") auto
  next
    case False
    then have "s1 = disconnect fd t" using s1 r(2) by (cases r) simp_all
    with d show ?thesis by simp
  qed
  with t show "unarmed s1 \<subseteq> unarmed s - {fd}" "connected s - {fd} \<subseteq> connected s1" by auto
qed

lemma event_rearms:
  assumes "server_event X ev s = Some (Ok s1)" and "read_fds [ev] \<subseteq> connected s"
  shows "unarmed s1 \<subseteq> unarmed s - read_fds [ev]" and "connected s - read_fds [ev] \<subseteq> connected s1"
proof -
  have arm: "unarmed s2 \<subseteq> unarmed s1 \<and> connected s2 = connected s1" if "rearm_listener s1 = Ok s2" for s1 s2
    using that unarmed_modify [of "sv_listener s1" s1] by (auto simp: rearm_listener_def split: option.splits)
  have reg: "unarmed s2 = unarmed s1 \<and> connected s1 \<subseteq> connected s2" if "register X fd c s1 = Ok s2" for fd c s1 s2
    using that by (auto simp: register_def epoll_add_def Let_def connected_def split: prod.splits result.splits)
  have "unarmed s1 \<subseteq> unarmed s - read_fds [ev] \<and> connected s - read_fds [ev] \<subseteq> connected s1"
  proof (cases ev)
    case (Accepted fd stream)
    then obtain s2 where "register X fd (client_new fd stream) s = Ok s2" "rearm_listener s2 = Ok s1"
      using assms(1) by (auto simp: server_event_def rbind_Ok_iff)
    from reg [OF this(1)] arm [OF this(2)] Accepted show ?thesis by (auto simp: read_fds_def)
  next
    case AcceptError
    then show ?thesis using assms(1) arm [of s s1] by (auto simp: server_event_def read_fds_def)
  next
    case TimerFired
    then obtain h where "s1 = forget_deleted (s\<lparr>sv_handler := h\<rparr>)"
      using assms(1) by (auto simp: server_event_def timer_event_def split: result.splits)
    then show ?thesis using TimerFired by (auto simp: unarmed_forget read_fds_def connected_def)
  next
    case (Readable fd input)
    then have "read_event X fd input s = Some (Ok s1)" "fd \<in> connected s" "read_fds [ev] = {fd}"
      using assms by (auto simp: server_event_def read_fds_def)
    with read_rearms [of X fd input s s1] show ?thesis by simp
  next
    case (OtherEvent fd)
    then show ?thesis using assms(1) by (simp add: server_event_def read_fds_def)
  qed
  then show "unarmed s1 \<subseteq> unarmed s - read_fds [ev]" "connected s - read_fds [ev] \<subseteq> connected s1" by simp_all
qed

section \<open>A turn and a run\<close>

lemma read_fds_Cons: "read_fds (ev # evs) = read_fds [ev] \<union> read_fds evs"
  by (auto simp: read_fds_def)

lemma events_rearm:
  assumes "server_events X evs s = Some (Ok s1)" and "read_fds evs \<subseteq> connected s"
    and "distinct (map (event_fd s0) evs)"
  shows "unarmed s1 \<subseteq> unarmed s - read_fds evs"
  using assms
proof (induction evs arbitrary: s)
  case Nil
  then show ?case by (simp add: read_fds_def)
next
  case (Cons ev evs)
  obtain s2 where s2: "server_event X ev s = Some (Ok s2)" "server_events X evs s2 = Some (Ok s1)"
    using Cons.prems(1) by (auto split: option.splits result.splits)
  have ev: "read_fds [ev] \<subseteq> connected s" using Cons.prems(2) read_fds_Cons by blast
  have "read_fds [ev] \<inter> read_fds evs = {}"
    using Cons.prems(3) by (cases ev) (force simp: read_fds_def event_fd_def)+
  then have "read_fds evs \<subseteq> connected s2"
    using event_rearms(2) [OF s2(1) ev] Cons.prems(2) read_fds_Cons by blast
  then have "unarmed s1 \<subseteq> unarmed s2 - read_fds evs" using Cons.IH [OF s2(2)] Cons.prems(3) by simp
  with event_rearms(1) [OF s2(1) ev] show ?case using read_fds_Cons by blast
qed

lemma turn_rearms:
  assumes "server_step X evs s s'"
  shows "unarmed s' \<subseteq> unarmed s \<union> own_fds s \<union> other_fds evs"
proof -
  from assms have b: "batch_ok X evs s" and t: "server_turn X evs s = Some (Ok s')" by auto
  obtain s1 where s1: "server_events X evs (disarm evs s) = Some (Ok s1)" "end_of_turn s1 = Ok s'"
    using t by (auto simp: server_turn_def split: option.splits result.splits)
  have fire: "may_fire s ev" if "ev \<in> set evs" for ev using b that by (simp add: batch_ok_def list_all_iff)
  have "connected (disarm evs s) = connected s" by (simp add: connected_def disarm_def)
  moreover have "read_fds evs \<subseteq> connected s"
    using fire by (force simp: read_fds_def connected_def may_fire_def hm_contains_def)
  ultimately have "unarmed s1 \<subseteq> unarmed (disarm evs s) - read_fds evs"
    using events_rearm [OF s1(1), of s] b by (simp add: batch_ok_def)
  moreover have "unarmed (disarm evs s) = unarmed s \<union> event_fd s ` set evs"
    by (simp add: unarmed_def set_disarm)
  moreover have "event_fd s ev \<in> own_fds s \<union> read_fds evs \<union> other_fds evs" if "ev \<in> set evs" for ev
    by (cases ev) (use that in \<open>auto simp: event_fd_def own_fds_def read_fds_def other_fds_def\<close>)
  moreover have "unarmed s' \<subseteq> unarmed s1"
    using s1(2) by (auto simp: end_of_turn_def Let_def rbind_Ok_iff unarmed_forget)
  ultimately show ?thesis by blast
qed

lemma run_rearms:
  assumes "server_run X w bs s" and "world_ok w"
  shows "unarmed s \<subseteq> own_fds s \<union> other_fds (concat bs)"
  using assms(1)
proof induction
  case (start s)
  with server_start_inv [OF this assms(2)] show ?case by (simp add: unarmed_def)
next
  case (turn bs s evs s')
  have "own_fds s' = own_fds s"
    using server_step_inv [OF turn(2)] server_run_inv [OF turn(1) assms(2)] by (simp add: own_fds_def)
  then show ?case using turn_rearms [OF turn(2)] turn(3) by (auto simp: other_fds_def)
qed

end
