(* ===== verification/TypedCmds.thy ===== *)
theory TypedCmds
  imports ExecCorrect
begin

text \<open>
  The type and the expiry of a stored value: every command that works on one key leaves a value
  that is there in place, with its type and its expiry, except SET and BITOP, which replace the
  whole item. Nothing else removes a key, not even its expiry.
\<close>

definition same_kind :: "store_item \<Rightarrow> store_item \<Rightarrow> bool" where
  "same_kind it it' \<longleftrightarrow>
     get_type (item_value it') = get_type (item_value it) \<and> expired_at it' = expired_at it"

lemma same_kind_refl [simp]: "same_kind it it"
  by (simp add: same_kind_def)

lemma same_kind_trans: "same_kind i j \<Longrightarrow> same_kind j k \<Longrightarrow> same_kind i k"
  by (simp add: same_kind_def)

lemma same_kind_value [simp]: "same_kind it (it\<lparr>item_value := v\<rparr>) \<longleftrightarrow> get_type v = get_type (item_value it)"
  by (simp add: same_kind_def)

definition holds_kind :: "string \<Rightarrow> store_item \<Rightarrow> cmd_handler \<Rightarrow> bool" where
  "holds_kind k it h \<longleftrightarrow> (\<exists>it'. look k h = Some it' \<and> same_kind it it')"

lemma holds_kind_cong: "look k h' = look k h \<Longrightarrow> holds_kind k it h' = holds_kind k it h"
  by (simp add: holds_kind_def)

section \<open>The contract\<close>

locale typed_command = keyed_command +
  assumes kind_kept: "look key h = Some it \<Longrightarrow> holds_kind key it (fst (run h))"
begin

lemma keeps_kind: "holds_kind k it h \<Longrightarrow> holds_kind k it (fst (run h))"
proof (cases "k = key")
  case True
  then show "holds_kind k it h \<Longrightarrow> ?thesis"
    using kind_kept same_kind_trans by (fastforce simp: holds_kind_def)
qed (simp add: holds_kind_def other_keys)

lemma repeated_runs: "holds_kind k it h \<Longrightarrow> holds_kind k it (((\<lambda>h. fst (run h)) ^^ n) h)"
  by (induction n) (simp_all add: keeps_kind)

end

lemma or_insert_found: "look key h = Some it \<Longrightarrow> or_insert key v h = (h, it)"
  by (simp add: or_insert_def)

lemma typed_create_then:
  assumes "keyed_command key (create_then key v f)"
    and "\<And>it h. look key h = Some it \<Longrightarrow> holds_kind key it (fst (f it h))"
  shows "typed_command key (create_then key v f)"
  using assms by (simp add: typed_command_def typed_command_axioms_def create_then_def or_insert_found)

lemmas kind_simps = holds_kind_def look_put_value

section \<open>The commands that fulfil it\<close>

interpretation incr_typed: typed_command key "cmd_incr key" for key
  unfolding create_shapes
  by (rule typed_create_then, fold create_shapes, rule incr_cmd.keyed_command_axioms)
    (auto simp: kind_simps split: store_value.splits result.splits)

interpretation rpush_typed: typed_command key "cmd_rpush key vs" for key vs
  unfolding create_shapes
  by (rule typed_create_then, fold create_shapes, rule rpush_cmd.keyed_command_axioms)
    (auto simp: kind_simps split: store_value.splits)

interpretation lpush_typed: typed_command key "cmd_lpush key vs" for key vs
  unfolding cmd_lpush_shape
  by (rule typed_create_then, fold cmd_lpush_shape, rule lpush_cmd.keyed_command_axioms)
    (auto simp: kind_simps Let_def split: store_value.splits)

interpretation zadd_typed: typed_command key "cmd_zadd key score m" for key score m
  unfolding zset_shapes
  by (rule typed_create_then, fold zset_shapes, rule zadd_cmd.keyed_command_axioms)
    (auto simp: kind_simps split: store_value.splits result.splits)

interpretation geoadd_typed: typed_command key "cmd_geoadd key long lat m" for key long lat m
  unfolding zset_shapes
  by (rule typed_create_then, fold zset_shapes, rule geoadd_cmd.keyed_command_axioms)
    (auto simp: kind_simps split: store_value.splits result.splits)

interpretation xadd_typed: typed_command key "cmd_xadd key i vs" for key i vs
  unfolding xadd_setbit_shapes
  by (rule typed_create_then, fold xadd_setbit_shapes, rule xadd_cmd.keyed_command_axioms)
    (auto simp: kind_simps case_prod_beta look_def data_steps split: store_value.splits result.splits)

interpretation setbit_typed: typed_command key "cmd_setbit key i b" for key i b
  unfolding xadd_setbit_shapes
  by (rule typed_create_then, fold xadd_setbit_shapes, rule setbit_cmd.keyed_command_axioms)
    (auto simp: kind_simps split: store_value.splits result.splits)

interpretation lpop_typed: typed_command key "cmd_lpop key n" for key n
  by unfold_locales
    (auto simp: kind_simps cmd_lpop_def Let_def split: store_value.split option.split list.split)

interpretation zrem_typed: typed_command key "cmd_zrem key m" for key m
  by unfold_locales
    (auto simp: kind_simps cmd_zrem_def split: store_value.split option.split result.split)

interpretation get_typed: typed_command key "cmd_get key" for key
  by unfold_locales (simp add: holds_kind_def)

section \<open>All commands\<close>

text \<open>The commands that put a new item in the place of an old one.\<close>

definition replaces :: "string \<Rightarrow> cmd \<Rightarrow> bool" where
  "replaces k c =
     (case c of CSET k' _ _ \<Rightarrow> k' = k | CBITOP a \<Rightarrow> bitop_dest a = k | _ \<Rightarrow> False)"

lemma kind_blpop: "holds_kind k it h \<Longrightarrow> holds_kind k it (fst (cmd_blpop key t client h))"
proof (cases "k = key")
  case True
  assume held: "holds_kind k it h"
  obtain ts d h1 where g: "get_deadline t h = ((ts, d), h1)" by (metis surj_pair)
  then have h1: "look key h1 = look key h" by (rule requests_look [OF requests_deadline])
  have ins: "look key (insert_request ts d e h1) = look key h" for e
    using h1 requests_look [of h1 "insert_request ts d e h1" key] by simp
  from held True g h1 ins show ?thesis
    by (auto simp: kind_simps cmd_blpop_def Let_def same_kind_def split: store_value.split)
qed (simp add: holds_kind_def blpop_look)

lemma kind_same_look: "look k h' = look k h \<Longrightarrow> holds_kind k it h \<Longrightarrow> holds_kind k it h'"
  by (simp add: holds_kind_def)

lemma kind_dispatch:
  assumes "holds_kind k it h" and "\<not> replaces k c" and "no_exec c"
  shows "holds_kind k it (fst (dispatch X ex c client ep h))"
proof (cases "written_key c = Some k")
  case True
  with assms show ?thesis
    by (cases c)
      (simp_all add: dispatch_def replaces_def written_key_def kind_blpop incr_typed.keeps_kind
        rpush_typed.keeps_kind lpush_typed.keeps_kind lpop_typed.keeps_kind xadd_typed.keeps_kind
        zadd_typed.keeps_kind zrem_typed.keeps_kind geoadd_typed.keeps_kind setbit_typed.keeps_kind)
qed (rule kind_same_look [OF dispatch_look [OF assms(3)] assms(1)])

lemma kind_steps:
  assumes "holds_kind k it h"
  shows "holds_kind k it (before_cmd c b m h)" "holds_kind k it (fst (after_ok c b m s r h))"
    "holds_kind k it (on_reg f h)" "holds_kind k it (count_bytes l h)"
  using assms by (simp_all add: holds_kind_def)

lemma kind_execute_with:
  assumes "holds_kind k it h" and "\<not> replaces k c"
    and "\<And>h'. \<not> no_exec c \<Longrightarrow> holds_kind k it h' \<Longrightarrow> rg_txn (h_reg h') = rg_txn (h_reg h) \<Longrightarrow>
      holds_kind k it (fst (ex client h'))"
  shows "holds_kind k it (fst (execute_with X ex c b client ep s h))"
proof -
  let ?h = "before_cmd c b (is_master client (h_table h)) h"
  obtain h1 r where d: "dispatch X ex c client ep ?h = (h1, r)" by fastforce
  have "holds_kind k it (fst (dispatch X ex c client ep ?h))"
  proof (cases "no_exec c")
    case True
    then show ?thesis by (rule kind_dispatch [OF kind_steps(1) [OF assms(1)] assms(2)])
  next
    case False
    then have "dispatch X ex c client ep ?h = ex client ?h" by (cases c) (simp_all add: dispatch_def no_exec_def)
    then show ?thesis using assms(3) [OF False kind_steps(1) [OF assms(1)]] by simp
  qed
  with d have "holds_kind k it h1" by simp
  with d assms(1) show ?thesis
    by (auto simp: execute_with_def Let_def after_err_def kind_steps split: result.split option.split)
qed

lemma kind_execute:
  assumes "holds_kind k it h" and "\<not> replaces k c" and "no_exec c"
  shows "holds_kind k it (fst (execute n X c b client ep s h))"
proof -
  obtain ex where "execute n X c b client ep s h = execute_with X ex c b client ep s h"
    using execute_suc_with by blast
  with kind_execute_with [OF assms(1,2)] assms(3) show ?thesis by simp
qed

lemma kind_queue:
  assumes "holds_kind k it h" and "\<forall>(c, b) \<in> set q. \<not> replaces k c \<and> no_exec c"
  shows "holds_kind k it (fst (run_queue (\<lambda>c b. execute n X c b client ep s) q h))"
  using assms
proof (induction q arbitrary: h)
  case (Cons x q)
  obtain c b where x: "x = (c, b)" by (cases x)
  obtain h1 r where e: "execute n X c b client ep s h = (h1, r)" by fastforce
  have "holds_kind k it h1" using kind_execute [OF Cons.prems(1), of c n X b client ep s] Cons.prems(2) x e by simp
  with Cons.IH [of h1] Cons.prems(2) x e show ?case by (cases r) (auto simp: case_prod_beta)
qed simp

lemma kind_exec:
  assumes "holds_kind k it h" and "txn_ok (h_reg h)"
    and "\<forall>q. hm_get (rg_txn (h_reg h)) client = Some q \<longrightarrow> (\<forall>(c, b) \<in> set q. \<not> replaces k c)"
  shows "holds_kind k it (fst (exec_with (\<lambda>c b. execute n X c b cl ep s) client h))"
proof (cases "hm_get (rg_txn (h_reg h)) client")
  case (Some q)
  have q: "\<forall>(c, b) \<in> set q. \<not> replaces k c \<and> no_exec c"
    using assms(3) Some txn_ok_queue [OF assms(2) Some] queueable_no_exec by blast
  obtain h1 r where r: "run_queue (\<lambda>c b. execute n X c b cl ep s) q (drain_txn client h) = (h1, r)" by fastforce
  moreover have "holds_kind k it (drain_txn client h)" by (simp add: drain_txn_def kind_steps(3) [OF assms(1)])
  ultimately have "holds_kind k it h1" using kind_queue [OF _ q] by (metis fst_conv)
  with r Some assms(1) show ?thesis
    by (auto simp: exec_with_def close_txn_def kind_steps split: result.split)
qed (use assms(1) in \<open>simp add: exec_with_def\<close>)

text \<open>Any command of any client, inside or outside a transaction.\<close>

lemma kind_handle:
  assumes "holds_kind k it h" and "txn_ok (h_reg h)" and "\<not> replaces k c"
    and "\<forall>q. hm_get (rg_txn (h_reg h)) client = Some q \<longrightarrow> (\<forall>(c, b) \<in> set q. \<not> replaces k c)"
  shows "holds_kind k it (fst (handle X (Ok c) b client ep h))"
proof -
  have ex: "holds_kind k it (fst (exec_with (\<lambda>c b. execute n X c b cl ep' s) client h'))"
    if "holds_kind k it h'" and "rg_txn (h_reg h') = rg_txn (h_reg h)" for n cl ep' s h'
    using kind_exec [of k it h' client n X cl ep' s] that assms(2,4) by (simp add: txn_ok_def)
  have "execute 2 X c b client (Some ep) True h =
      execute_with X (\<lambda>cl. exec_with (\<lambda>c b. execute 1 X c b cl None False) cl) c b client (Some ep) True h"
    by (simp add: numeral_2_eq_2)
  then have "holds_kind k it (fst (execute 2 X c b client (Some ep) True h))"
    using kind_execute_with [OF assms(1,3)] ex by simp
  moreover have "holds_kind k it (fst (cmd_exec X client h))"
    unfolding cmd_exec_def by (rule ex) (simp_all add: assms(1))
  ultimately show ?thesis
    using assms(1)
    by (cases c) (auto simp: handle_def cmd_discard_def close_txn_def kind_steps split: prod.splits result.splits)
qed

text \<open>The rounds between the commands.\<close>

lemma kind_requests: "holds_kind k it h \<Longrightarrow> only_requests h h' \<Longrightarrow> holds_kind k it h'"
  by (rule kind_same_look [OF requests_look])

lemma kind_blpop_task: "holds_kind k it h \<Longrightarrow> holds_kind k it (blpop_backlog_task k' client ts h)"
proof -
  assume held: "holds_kind k it h"
  have "holds_kind k it (snd (remove_request ts (push client b (put_value k' i (VList xs) h))))"
    if "look k' h = Some i" "item_value i = VList ys" for i b xs ys
    by (rule kind_requests [OF kind_requests [OF _ requests_steps(1)] requests_steps(5)])
      (use held that in \<open>auto simp: kind_simps same_kind_def\<close>)
  with held show ?thesis
    by (auto simp: blpop_backlog_task_def split: option.split store_value.split list.split)
qed

lemma kind_backlog_tasks: "holds_kind k it h \<Longrightarrow> holds_kind k it (fold run_backlog_task es h)"
proof (induction es arbitrary: h)
  case (Cons e es)
  have "holds_kind k it (run_backlog_task e h)"
    using Cons.prems kind_requests [OF _ requests_xread_task]
    by (cases e) (auto simp: run_backlog_task_def kind_blpop_task)
  with Cons.IH show ?case by simp
qed simp

lemma kind_between:
  assumes "holds_kind k it h"
  shows "holds_kind k it (serve_backlog_list h)" "holds_kind k it (serve_backlog_stream h)"
    "callback_deadline_expire h = Ok h' \<Longrightarrow> holds_kind k it h'"
proof -
  have flags: "holds_kind k it (h\<lparr>h_flag_list := x\<rparr>) = holds_kind k it h"
    "holds_kind k it (h\<lparr>h_flag_stream := x\<rparr>) = holds_kind k it h" for x h
    by (simp_all add: holds_kind_def look_def)
  have "holds_kind k it (snd (take_requests ts h))" for ts by (rule kind_requests [OF assms requests_take])
  then show "holds_kind k it (serve_backlog_list h)" "holds_kind k it (serve_backlog_stream h)"
    using assms by (auto simp: serve_backlog_list_def serve_backlog_stream_def case_prod_beta flags kind_backlog_tasks)
qed (rule kind_requests [OF assms requests_callback])

end
