(* ===== verification/WaitCorrect.thy ===== *)
theory WaitCorrect
  imports ExecCorrect
begin

text \<open>
  WAIT and the acknowledgements of the replicas: a client that waits is answered by the
  acknowledgement that makes its count full, with that count, and not before; then it is
  listened to again and its request is gone. An acknowledgement of an earlier offset counts
  for nothing.
\<close>

section \<open>A pending WAIT\<close>

text \<open>
  The client \<open>c\<close> waits under the timestamp \<open>ts\<close> for \<open>req\<close> replicas to reach the offset \<open>off\<close>;
  \<open>act\<close> have, the replicas \<open>ss\<close> have not, and no other client waits.
\<close>

definition pending_wait :: "u64 \<Rightarrow> u64 \<Rightarrow> u64 \<Rightarrow> int \<Rightarrow> u64 \<Rightarrow> u64 set \<Rightarrow> cmd_handler \<Rightarrow> bool" where
  "pending_wait c req act off ts ss h \<longleftrightarrow>
     hm_get (rg_wait (h_reg h)) c = Some ts \<and>
     (\<exists>d sl ep. hm_get (rg_store (h_reg h)) ts = Some (WaitReq c req act d off sl ts ep) \<and> ss \<subseteq> set sl) \<and>
     (\<forall>s. hm_get (rg_ack (h_reg h)) s = (if s \<in> ss then Some [c] else None))"

text \<open>The client has its answer.\<close>

definition answered :: "u64 \<Rightarrow> u64 \<Rightarrow> cmd_handler \<Rightarrow> bool" where
  "answered c ts h \<longleftrightarrow> c \<in> set (h_epoll h) \<and> hm_get (rg_store (h_reg h)) ts = None \<and>
     (\<forall>s. hm_get (rg_ack (h_reg h)) s = None)"

abbreviation ack_of :: "int \<Rightarrow> u64 \<Rightarrow> cmd_handler \<Rightarrow> cmd_handler" where
  "ack_of offset s h \<equiv> fst (cmd_replconf (ArgAck offset) s (Some True) h)"

text \<open>The acknowledgements of the replicas, one after the other.\<close>

definition acked :: "(u64 \<times> int) list \<Rightarrow> cmd_handler \<Rightarrow> cmd_handler" where
  "acked as h = fold (\<lambda>(s, off) h. fst (cmd_replconf (ArgAck off) s (Some True) h)) as h"

lemma ack_unasked: "hm_get (rg_ack (h_reg h)) s = None \<Longrightarrow> ack_of offset s h = h"
  by (simp add: cmd_replconf_def replconf_ack_def on_reg_def drop_acked_def)

lemma drop_acks:
  assumes "\<And>t. hm_get m t = None \<or> hm_get m t = Some [c]"
  shows "hm_get (fold (drop_ack c) sl m) t = (if t \<in> set sl then None else hm_get m t)"
  using assms
proof (induction sl arbitrary: m)
  case (Cons a sl)
  have d: "hm_get (drop_ack c a m) t = (if t = a then None else hm_get m t)" for t
    using Cons.prems [of a] by (auto simp: drop_ack_def)
  have "hm_get (fold (drop_ack c) sl (drop_ack c a m)) t =
      (if t \<in> set sl then None else hm_get (drop_ack c a m) t)"
    by (rule Cons.IH) (use d Cons.prems in auto)
  with d show ?case by simp
qed simp

lemma timer_ack [simp]: "rg_ack (set_timer_fd now r) = rg_ack r"
  by (simp add: set_timer_fd_def timer_create_event_def split: option.split)

lemma removed_ack:
  "hm_get (rg_store r) ts = Some (WaitReq c req n d off sl ts ep) \<Longrightarrow>
   rg_ack (snd (reg_remove now ts r)) = fold (drop_ack c) sl (rg_ack r)"
  by (simp add: reg_remove_def Let_def reg_dequeue_def)

lemma one_ack:
  assumes w: "pending_wait c req act off ts ss h" and s: "s \<in> ss" and a: "act < req"
  shows "offset < off \<Longrightarrow> pending_wait c req act off ts ss (ack_of offset s h) \<and> h_queue (ack_of offset s h) = h_queue h"
    and "off \<le> offset \<Longrightarrow> act + 1 < req \<Longrightarrow>
      pending_wait c req (act + 1) off ts (ss - {s}) (ack_of offset s h) \<and> h_queue (ack_of offset s h) = h_queue h"
    and "off \<le> offset \<Longrightarrow> req \<le> act + 1 \<Longrightarrow> answered c ts (ack_of offset s h) \<and>
      h_queue (ack_of offset s h) = h_queue h @ [(c, ser (int_reply (sint (act + 1))))]"
proof -
  obtain d sl ep where e: "hm_get (rg_wait (h_reg h)) c = Some ts"
    "hm_get (rg_store (h_reg h)) ts = Some (WaitReq c req act d off sl ts ep)" "ss \<subseteq> set sl"
    "hm_get (rg_ack (h_reg h)) s = Some [c]"
    "\<And>t. hm_get (rg_ack (h_reg h)) t = (if t \<in> ss then Some [c] else None)"
    using w s unfolding pending_wait_def by (metis (full_types))
  let ?h1 = "\<lambda>n. on_reg (\<lambda>r. r\<lparr>rg_store := hm_insert ts (WaitReq c req n d off sl ts ep) (rg_store r)\<rparr>) h"
  have ack: "drop_acked s [c] (h_reg (?h1 n)) = (h_reg (?h1 n))\<lparr>rg_ack := hm_remove s (rg_ack (h_reg h))\<rparr>"
    and keep: "drop_acked s [] (h_reg (?h1 n)) = (h_reg (?h1 n))\<lparr>rg_ack := hm_insert s [c] (rg_ack (h_reg h))\<rparr>" for n
    using e(4) by (simp_all add: drop_acked_def on_reg_def Let_def)
  show "pending_wait c req act off ts ss (ack_of offset s h) \<and> h_queue (ack_of offset s h) = h_queue h" if o: "offset < off"
  proof -
    have "\<not> req \<le> act" using a by simp
    then have "ack_of offset s h = on_reg (drop_acked s []) (?h1 act)"
      using o by (simp add: cmd_replconf_def replconf_ack_def e(1,2,4) Let_def)
    with e s show ?thesis by (simp add: pending_wait_def keep on_reg_def [of "drop_acked s []"]) (simp add: on_reg_def)
  qed
  show "pending_wait c req (act + 1) off ts (ss - {s}) (ack_of offset s h) \<and> h_queue (ack_of offset s h) = h_queue h"
    if o: "off \<le> offset" "act + 1 < req"
  proof -
    have "\<not> req \<le> act + 1" using o(2) by simp
    then have "ack_of offset s h = on_reg (drop_acked s [c]) (?h1 (act + 1))"
      using o by (simp add: cmd_replconf_def replconf_ack_def e(1,2,4) Let_def)
    with e show ?thesis
      by (simp add: pending_wait_def ack on_reg_def [of "drop_acked s [c]"]) (auto simp: on_reg_def)
  qed
  show "answered c ts (ack_of offset s h) \<and>
      h_queue (ack_of offset s h) = h_queue h @ [(c, ser (int_reply (sint (act + 1))))]"
    if o: "off \<le> offset" "req \<le> act + 1"
  proof -
    let ?h2 = "on_reg (drop_acked s [c]) (push c (ser (int_reply (sint (act + 1)))) (?h1 (act + 1)))"
    have "rg_wait (h_reg ?h2) = rg_wait (h_reg h)"
      by (simp add: on_reg_def push_def drop_acked_def Let_def split: option.split)
    then have h': "ack_of offset s h = snd (remove_request ts (add_interest True c ?h2))"
      using o by (simp add: cmd_replconf_def replconf_ack_def e(1,2,4) Let_def)
    let ?r = "h_reg (add_interest True c ?h2)"
    have st: "hm_get (rg_store ?r) ts = Some (WaitReq c req (act + 1) d off sl ts ep)"
      and ra: "rg_ack ?r = hm_remove s (rg_ack (h_reg h))"
      using e(4) by (simp_all add: add_interest_def on_reg_def push_def drop_acked_def Let_def)
    note removed_ack [OF st]
    moreover have "hm_get (fold (drop_ack c) sl (rg_ack ?r)) t = None" for t
      using e(3,5) unfolding ra by (subst drop_acks) auto
    ultimately show ?thesis
      unfolding h' answered_def
      by (simp add: remove_request_def tick_def case_prod_beta reg_remove_store on_reg_def [of "\<lambda>r. snd (reg_remove _ ts r)"])
        (simp add: add_interest_def on_reg_def push_def)
  qed
qed

text \<open>
  The replicas that have acknowledged the offset or a later one. Each of them counts once; when
  they are as many as the client waits for it is answered, and what comes later changes nothing.
\<close>

definition caught :: "int \<Rightarrow> (u64 \<times> int) list \<Rightarrow> u64 set" where
  "caught off as = {s. \<exists>o' \<ge> off. (s, o') \<in> set as}"

lemma caught_simps [simp]:
  "caught off [] = {}"
  "caught off ((s, o') # as) = (if off \<le> o' then insert s (caught off as) else caught off as)"
  by (auto simp: caught_def)

lemma finite_caught [simp]: "finite (caught off as)"
  by (rule finite_subset [of _ "fst ` set as"]) (force simp: caught_def)+

lemma answered_rest: "answered c ts h \<Longrightarrow> acked as h = h"
  by (induction as) (auto simp: acked_def answered_def ack_unasked)

lemma acks_served:
  assumes "pending_wait c req act off ts ss h" and "act < req"
  shows "if unat act + card (caught off as \<inter> ss) < unat req
    then pending_wait c req (act + of_nat (card (caught off as \<inter> ss))) off ts (ss - caught off as) (acked as h) \<and>
      h_queue (acked as h) = h_queue h
    else answered c ts (acked as h) \<and> h_queue (acked as h) = h_queue h @ [(c, ser (int_reply (sint req)))]"
  using assms
proof (induction as arbitrary: act ss h)
  case Nil
  then show ?case by (simp add: acked_def word_less_nat_alt)
next
  case (Cons a as)
  obtain s o' where a: "a = (s, o')" by (cases a)
  have step: "acked (a # as) h = acked as (ack_of o' s h)" by (simp add: acked_def a)
  consider "s \<notin> ss" | "s \<in> ss" "o' < off" | "s \<in> ss" "off \<le> o'" by fastforce
  then show ?case
  proof cases
    case 1
    then have "ack_of o' s h = h" using Cons.prems(1) by (intro ack_unasked) (simp add: pending_wait_def)
    moreover have "caught off (a # as) \<inter> ss = caught off as \<inter> ss" "ss - caught off (a # as) = ss - caught off as"
      using 1 by (auto simp: a)
    ultimately show ?thesis using Cons.IH [OF Cons.prems] step by simp
  next
    case 2
    with one_ack(1) [OF Cons.prems(1) 2(1) Cons.prems(2)]
    have w: "pending_wait c req act off ts ss (ack_of o' s h)" "h_queue (ack_of o' s h) = h_queue h" by simp_all
    have "caught off (a # as) = caught off as" using 2 by (simp add: a)
    with Cons.IH [OF w(1) Cons.prems(2)] w(2) step show ?thesis by simp
  next
    case 3
    let ?n = "card (caught off as \<inter> (ss - {s}))"
    have c: "caught off (a # as) \<inter> ss = insert s (caught off as \<inter> (ss - {s}))"
      "ss - caught off (a # as) = ss - {s} - caught off as" using 3 by (auto simp: a)
    then have n: "card (caught off (a # as) \<inter> ss) = Suc ?n" by simp
    have "unat act + 1 \<le> unat req" using Cons.prems(2) by (simp add: word_less_nat_alt)
    moreover have "unat req < 2 ^ LENGTH(64)" by (rule unsigned_less)
    ultimately have u: "unat (act + 1) = unat act + 1" by (simp add: unat_word_ariths(1))
    show ?thesis
    proof (cases "act + 1 < req")
      case True
      with one_ack(2) [OF Cons.prems(1) 3(1) Cons.prems(2)] 3(2)
      have w: "pending_wait c req (act + 1) off ts (ss - {s}) (ack_of o' s h)" "h_queue (ack_of o' s h) = h_queue h"
        by simp_all
      from Cons.IH [OF w(1) True] w(2) step show ?thesis
        unfolding n c(2) u by (simp add: ac_simps split: if_splits)
    next
      case False
      with one_ack(3) [OF Cons.prems(1) 3(1) Cons.prems(2)] 3(2)
      have w: "answered c ts (ack_of o' s h)"
        "h_queue (ack_of o' s h) = h_queue h @ [(c, ser (int_reply (sint (act + 1))))]" by simp_all
      have "unat req \<le> unat (act + 1)" using False unfolding word_less_nat_alt by simp
      then have "unat req = unat (act + 1)" using \<open>unat act + 1 \<le> unat req\<close> u by simp
      then have "act + 1 = req" unfolding word_unat_eq_iff by simp
      moreover have "\<not> unat act + Suc ?n < unat req"
        using \<open>unat req = unat (act + 1)\<close> u by simp
      ultimately show ?thesis using answered_rest [OF w(1)] w step n by simp
    qed
  qed
qed


section \<open>From the command to the answer\<close>

lemma push_acks:
  assumes "distinct sl" and "\<And>s. s \<in> set sl \<Longrightarrow> hm_get m s = None"
  shows "hm_get (fold (push_ack c) sl m) s = (if s \<in> set sl then Some [c] else hm_get m s)"
  using assms
proof (induction sl arbitrary: m)
  case (Cons a sl)
  have "push_ack c a m = hm_insert a [c] m" using Cons.prems(2) [of a] by (simp add: push_ack_def)
  moreover have "hm_get (fold (push_ack c) sl (hm_insert a [c] m)) s =
      (if s \<in> set sl then Some [c] else hm_get (hm_insert a [c] m) s)"
    by (rule Cons.IH) (use Cons.prems in auto)
  ultimately show ?case using Cons.prems(1) by simp
qed simp

lemma wait_pends:
  fixes count c :: u64 and t :: "u64 option" and h :: cmd_handler
  assumes "count \<noteq> 0" and "host_stats (h_states h) = Some s" and "rs_offset s \<noteq> 0"
    and "rg_ack (h_reg h) = []" and "distinct (list_slave (h_table h))"
  defines "h' \<equiv> fst (cmd_wait count t c (Some True) h)"
  shows "pending_wait c count 0 (rs_offset s) (h_clock h (h_reads h)) (set (list_slave (h_table h))) h'"
    and "h_queue h' = h_queue h @ map (\<lambda>k. (k, getack_msg)) (list_slave (h_table h))"
proof -
  let ?sl = "list_slave (h_table h)" and ?ts = "h_clock h (h_reads h)"
  obtain d h2 where g: "get_deadline t (fold (\<lambda>k. push k getack_msg) ?sl h) = ((?ts, d), h2)"
    by (simp add: get_deadline_def tick_def)
  then have "h_reg h2 = h_reg h" by (auto simp: get_deadline_def tick_def)
  let ?e = "WaitReq c count 0 d (rs_offset s) ?sl ?ts (Some True)"
  have "h' = remove_interest True c (insert_request ?ts d ?e h2)"
    using assms(1-3) g by (simp add: h'_def cmd_wait_def stats_of_def Let_def)
  then obtain now where r: "h_reg h' = reg_insert now ?ts d ?e (h_reg h)"
    using \<open>h_reg h2 = h_reg h\<close> by (simp add: remove_interest_def insert_request_def tick_def on_reg_def)
  obtain r1 e1 where a: "reg_arm now ?ts d ?e (h_reg h) = (r1, e1)" by fastforce
  note f = reg_arm_fields [OF a]
  obtain d' where "e1 = WaitReq c count 0 d' (rs_offset s) ?sl ?ts (Some True)"
    using f(1) by (simp add: stamp_def split: if_splits)
  with f(7,8) assms(4,5) show "pending_wait c count 0 (rs_offset s) ?ts (set ?sl) h'"
    by (simp add: pending_wait_def r reg_insert_def a reg_enqueue_def Let_def push_acks)
  show "h_queue h' = h_queue h @ map (\<lambda>k. (k, getack_msg)) ?sl"
    unfolding h'_def by (rule cmd_wait_blocks(2) [OF assms(1-3)])
qed

lemma wait_answered:
  fixes count c :: u64 and t :: "u64 option" and h :: cmd_handler and as :: "(u64 \<times> int) list"
  assumes "count \<noteq> 0" and "host_stats (h_states h) = Some s" and "rs_offset s \<noteq> 0"
    and "rg_ack (h_reg h) = []" and "distinct (list_slave (h_table h))"
  defines "h' \<equiv> acked as (fst (cmd_wait count t c (Some True) h))"
    and "n \<equiv> card (caught (rs_offset s) as \<inter> set (list_slave (h_table h)))"
  shows "h_queue h' = h_queue h @ map (\<lambda>k. (k, getack_msg)) (list_slave (h_table h)) @
      (if n < unat count then [] else [(c, ser (int_reply (sint count)))])"
    and "unat count \<le> n \<Longrightarrow>
      c \<in> set (h_epoll h') \<and> hm_get (rg_store (h_reg h')) (h_clock h (h_reads h)) = None"
proof -
  note w = wait_pends [OF assms(1-5), where c = c and t = t]
  have "0 < count" using assms(1) by (simp add: word_gt_0)
  note served = acks_served [OF w(1) this, of as]
  show "h_queue h' = h_queue h @ map (\<lambda>k. (k, getack_msg)) (list_slave (h_table h)) @
      (if n < unat count then [] else [(c, ser (int_reply (sint count)))])"
    using served w(2) by (simp add: h'_def n_def split: if_splits)
  show "c \<in> set (h_epoll h') \<and> hm_get (rg_store (h_reg h')) (h_clock h (h_reads h)) = None"
    if "unat count \<le> n"
    using served that by (simp add: h'_def n_def answered_def)
qed

end
