(* ===== verification/WriteErrors.thy ===== *)
theory WriteErrors
  imports Pipelining ServerCorrect
begin

text \<open>
  Replies on a socket that takes fewer bytes than it is given: what arrives of them at the end of
  a turn, and what becomes of a connection whose own reply is cut.
\<close>

section \<open>The replies of a turn\<close>

text \<open>What the client receives of the given replies, one write for each of them.\<close>

fun received :: "bytes list \<Rightarrow> tcp_stream \<Rightarrow> bytes" where
  "received [] ns = []"
| "received (b # bs) [] = b @ received bs []"
| "received (b # bs) (n # ns) = take n b @ received bs ns"

definition replies_to :: "u64 \<Rightarrow> (u64 \<times> bytes) list \<Rightarrow> bytes list" where
  "replies_to i q = map snd (filter (\<lambda>(j, _). j = i) q)"

lemma received_all [simp]: "received bs [] = concat bs"
  by (induction bs) simp_all

lemma received_write: "tc_sent (fst (write_all b c)) @ received bs (tc_stream (fst (write_all b c))) =
    tc_sent c @ received (b # bs) (tc_stream c)"
  by (cases "tc_stream c") (simp_all add: write_all_def)

lemma deliver_replies_receive:
  "deliver_replies q cs = Ok cs' \<Longrightarrow>
   map_option tc_sent (hm_get cs' i) =
     map_option (\<lambda>c. tc_sent c @ received (replies_to i q) (tc_stream c)) (hm_get cs i)"
proof (induction q arbitrary: cs)
  case (Cons jb q)
  obtain j b where jb: "jb = (j, b)" by fastforce
  with Cons.prems obtain c where c: "hm_get cs j = Some c"
    "deliver_replies q (hm_insert j (fst (write_all b c)) cs) = Ok cs'"
    by (auto split: option.splits)
  show ?case
  proof (cases "i = j")
    case True
    with Cons.IH [OF c(2)] c(1) jb received_write [of b c "replies_to j q"] show ?thesis
      by (simp add: replies_to_def)
  qed (use Cons.IH [OF c(2)] jb in \<open>simp add: replies_to_def\<close>)
qed (simp add: replies_to_def map_option_case split: option.split)

lemma deliver_no_error: "deliver_replies q cs \<noteq> Err e"
  by (induction q cs rule: deliver_replies.induct) (simp_all split: option.split)

text \<open>The queue when the writing starts.\<close>

definition turn_queue :: "server \<Rightarrow> (u64 \<times> bytes) list" where
  "turn_queue s = h_queue (serve_backlog_stream (serve_backlog_list (sv_handler s)))"

lemma flush_queue [simp]: "h_queue (fst (handler_aof_flush h)) = h_queue h"
  by (simp add: handler_aof_flush_def case_prod_beta split: option.split)

lemma deliver_panics_iff:
  "deliver_replies q cs = Panic \<longleftrightarrow> (\<exists>i b. (i, b) \<in> set q \<and> hm_get cs i = None)"
  using deliver_panics [of _ _ q cs] deliver_ok [of q cs] by (metis result.distinct(3))

lemma end_of_turn_delivers:
  "(end_of_turn s = Panic \<longleftrightarrow> (\<exists>i b. (i, b) \<in> set (turn_queue s) \<and> hm_get (sv_clients s) i = None)) \<and>
   (case end_of_turn s of
      Ok s' \<Rightarrow> h_queue (sv_handler s') = [] \<and>
        (\<forall>i. map_option tc_sent (hm_get (sv_clients s') i) =
          map_option (\<lambda>c. tc_sent c @ received (replies_to i (turn_queue s)) (tc_stream c)) (hm_get (sv_clients s) i))
    | Err _ \<Rightarrow> False
    | Panic \<Rightarrow> True)"
proof (cases "deliver_replies (turn_queue s) (sv_clients s)")
  case (Ok cs)
  from deliver_replies_receive [OF this] Ok deliver_panics_iff [of "turn_queue s" "sv_clients s"] show ?thesis
    by (simp add: end_of_turn_def turn_queue_def Let_def)
next
  case (Err e)
  with deliver_no_error show ?thesis by metis
next
  case Panic
  with deliver_panics_iff [of "turn_queue s" "sv_clients s"] show ?thesis
    by (simp add: end_of_turn_def turn_queue_def Let_def)
qed

section \<open>A reply that is cut\<close>

lemma serve_values_append:
  "serve_values X (as @ bs) c h =
   (case serve_values X as c h of ((c1, h1), Ok _) \<Rightarrow> serve_values X bs c1 h1 | r \<Rightarrow> r)"
proof (induction as arbitrary: c h)
  case (Cons t as)
  obtain c1 h1 r where v: "serve_value X t c h = ((c1, h1), r)" by (metis surj_pair)
  with Cons.IH [of c1 h1] show ?case by (cases r) simp_all
qed simp

lemma serve_value_cut:
  assumes "wf_resp t" and "respond X (from_resp t) (ser t) c h = ((c1, h1), r)" and "r = Ok v \<or> r = Err v"
    and "tc_stream c1 = n # ns" and "n < length v"
  shows "serve_value X t c h = ((c1\<lparr>tc_sent := tc_sent c1 @ take n v, tc_stream := ns\<rparr>, h1), Err ())"
  using assms by (auto simp: serve_value_def serialize_ok wf_resp_serializable write_all_def)

lemma cut_reply_closes:
  assumes "hm_get (sv_clients s) fd = Some c" and "idle c" and "rp_status (tc_repl c) \<noteq> Some Master"
    and "list_all wf_resp (as @ t # rest)"
    and "serve_values X as c (sv_handler s) = ((c1, h1), Ok ())"
    and "respond X (from_resp t) (ser t) c1 h1 = ((c1, h2), r)" and "r = Ok v \<or> r = Err v"
    and "tc_stream c1 = n # ns" and "n < length v"
  shows "\<exists>s'. read_event X fd (Some (concat (map ser (as @ t # rest)))) s = Some (Ok s') \<and>
    hm_get (sv_clients s') fd = None \<and> h_data (sv_handler s') = h_data h2"
proof -
  have "serve_values X (as @ t # rest) c (sv_handler s) =
      ((c1\<lparr>tc_sent := tc_sent c1 @ take n v, tc_stream := ns\<rparr>, h2), Err ())"
    using assms(4,5) serve_value_cut [OF _ assms(6-9)] by (simp add: serve_values_append)
  with read_socket_values [OF assms(4) _ assms(2,3), of X "sv_handler s"]
  obtain c2 where "read_socket X (Some (concat (map ser (as @ t # rest)))) c (sv_handler s) = Some ((c2, h2), Err ())"
    by auto
  then show ?thesis
    using assms(1)
    by (simp add: read_event_def Let_def disconnect_def epoll_del_def forget_deleted_def remove_interest_def)
qed

end
