(* ===== verification/Spec2Isabelle.thy ===== *)
theory Spec2Isabelle
  imports CalmSessions Readiness TypedCmds WaitCorrect WriteErrors
begin

text \<open>
  A model of a Redis server written in Rust: one thread, an epoll event loop, an in-memory key
  space, replication, an append-only file and RDB loading. The development follows the code
  function by function, definitions keep the names of the source, and the properties of the
  whole program stand in this theory, numbered C1, C2 and so on.

  The parts and their theories (all files under \<open>src/src/\<close>):

  \<^item> Prelude, RustStd, Containers, Floats: what the program uses of Rust. \<open>result\<close> has the
    constructors \<open>Ok\<close>, \<open>Err\<close> and \<open>Panic\<close>; \<open>u64\<close> is a 64-bit word and wraps around as in a
    release build; \<open>i64\<close> and \<open>usize\<close> are \<open>int\<close> and \<open>nat\<close> with the wrapping written out;
    \<open>HashMap\<close> is an association list without duplicate keys, \<open>BTreeMap\<close> a sorted one;
    \<open>f64\<close> is its IEEE bit pattern with executable arithmetic; a \<open>String\<close> is the list of its
    bytes.
  \<^item> Exceptions, Resp, RespParser, RespParserCorrect: \<open>exceptions.rs\<close> and \<open>resp.rs\<close>, the wire
    format and the resumable parser. A parse runs on fuel: \<open>parse_measure\<close> bounds the number of
    turns, and C27 shows that the loop ends.
  \<^item> CmdBuilder, CmdCorrect: \<open>commands/cmd_builder.rs\<close>, from RESP values to commands.
  \<^item> SortedSet, Bitmap, Store, Geohash: \<open>commands/data_types.rs\<close> and \<open>geohash.rs\<close>.
  \<^item> AppState, Auth, Replication, Aof: \<open>app_state.rs\<close>, \<open>auth.rs\<close>, \<open>replication.rs\<close> and the
    writer of \<open>aof.rs\<close>.
  \<^item> Registry, RegistryCorrect: \<open>RequestRegistry\<close> of \<open>commands/cmd_handler.rs\<close>: blocked requests,
    deadlines, transactions, watched keys, pending acknowledgements. The closures a request
    stores are data, and the handler runs them.
  \<^item> HandlerState, StringCmds, ListCmds, StreamCmds, ZSetCmds, BitCmds, PubSubCmds, AclCmds,
    ReplCmds, TxnCmds, Handler: \<open>CmdHandler\<close>. Its state, with the statics it reaches, is the
    record \<open>cmd_handler\<close>; each \<open>cmd_*\<close> method is a definition from the state to the new state
    and the reply; \<open>dispatch\<close>, \<open>execute_with\<close> and \<open>handle\<close> are the dispatcher; \<open>execute\<close>
    carries the levels EXEC may nest, two of which are enough (C30).
  \<^item> KeyedCmds: the contract of a command that works on one key (locale \<open>keyed_command\<close>),
    interpreted for every such command.
  \<^item> HandlerCorrect, ExecCorrect, WriteCorrect: the invariant of the handler under everything
    the event loop does (\<open>handler_step\<close>), transactions (\<open>enter_all\<close> and \<open>enter_answers\<close>: what
    entering commands does and answers) and watched keys, propagation, blocked clients.
  \<^item> TypedCmds: the extension of that contract by the type and the expiry of a value (locale
    \<open>typed_command\<close>). BlockedClients: the service of clients blocked on lists. WaitCorrect:
    WAIT and any acknowledgements that follow it, stale and repeated ones included.
  \<^item> KeySpace, KeySpaceRefined, KeySpaceCorrect, CalmSessions: the abstract specification of
    the data commands. The key space is a map from keys to strings, lists, finite maps (sorted sets
    from members to scores, streams from ids to entries) and sets of bits, and
    \<open>spec_cmd\<close> is one command on it. The locale \<open>refined_command\<close>, an
    extension of \<open>keyed_command\<close>, is the simulation between a handler and its
    specification through \<open>abs_data\<close>; it is interpreted for SET, GET, INCR, TYPE,
    RPUSH, LPUSH, LPOP, LLEN, XADD, XRANGE, ZADD, GEOADD, ZREM, ZCARD, ZSCORE, SETBIT, GETBIT,
    BITCOUNT, STRLEN and BITOP AND and OR. Through dispatch, the work around it and the socket it
    gives C3, and for the interleaved requests of several clients
    C11. Theory CalmSessions shows that none of these commands panics,
    through the contract \<open>calm_command\<close>, unless a score is NaN, an XRANGE runs
    backwards, or EX or PX comes without a number. Commands that block, publish, open transactions
    or change users are outside of it and have properties of their own; LRANGE
    (C32) and ZRANK (C33) need assumptions on the
    stored value.
  \<^item> Client, ClientCorrect: \<open>client.rs\<close>, one readable socket from its bytes to the replies, and the
    handshake of a replica. The loops that may not end are \<open>partial_function (option)\<close>; that they
    end is proved from the measure of the parser (C2, C27).
    \<open>tc_stream\<close> is the outcome of the writes still to come: how many bytes the socket takes of each
    before it fails (none left: all of them succeed). \<open>read_socket\<close> takes the bytes of one read; the
    code reads at most \<open>buffer_size\<close> (4096) of them at a time, and the definition is the same for
    any number.
  \<^item> Pipelining: many requests in one read are served one by one. WriteErrors: replies the socket
    does not take whole, at the end of a turn (C17) and in the middle of a
    read (C18).
  \<^item> Rdb: \<open>rdb.rs\<close>, the reader of RDB files over their bytes; it ends because every entry
    takes a byte.
  \<^item> AofReplay: the start-up half of \<open>aof.rs\<close>. The file system is a map from paths to bytes with
    a list of directories; the log is read in pieces of 4096 bytes, as in the code.
  \<^item> ReplayCorrect: sessions of writes. The same bytes go to the replicas and to the log, and
    running them again gives the same data: replication (C5) and persistence
    (C6) rest on it,
    through the contract of a command whose effect depends on the data alone (locale
    \<open>replayable_command\<close>). The commands in question are the \<open>plain_write\<close>s: SET
    without an expiry, RPUSH, LPUSH, LPOP, INCR and BITOP. A replica may read its bytes in any pieces
    that end with a request (\<open>read_all\<close>).
  \<^item> Server, ServerCorrect: \<open>main.rs\<close>. The record \<open>server\<close> has the connections, the handler and the
    descriptors that have fired and are not armed again; \<open>server_turn\<close> is one turn of the loop over
    a batch of events, \<open>server_run\<close> the runs from start-up, and \<open>server_inv\<close> the invariant of all
    of them. Readiness: which descriptors are armed at the start of a turn.

  What is not modelled: system calls themselves (sockets, files, epoll, timers) beyond the state
  they change, output on the terminal, memory limits, and the order in which a real \<open>HashMap\<close>
  yields its entries, which is the order of the association list here. \<open>sha2\<close>, \<open>base64\<close> and the
  libm functions are parameters (\<open>externals\<close>). The clock is an arbitrary sequence of readings.
\<close>

text \<open>
  C1. From start-up (whatever the arguments, the files and the log hold) and through any batches
  of events the kernel may deliver, in any order, every state of the running server is well
  formed: the invariant of the handler (no duplicate keys, sorted indexes, only queueable
  commands in transactions, no empty waiting queue, subscribers and channels in step, a default
  user, replication statistics) and of its connections (each under its own descriptor, with a
  parser whose cursor is in bounds). At the start of every turn the listener is registered and
  armed, so the server goes on accepting connections.
\<close>

theorem server_stays_sound:
  assumes "server_run X w bs s" and "world_ok w"
  shows "handler_inv (sv_handler s) \<and> clients_ok s \<and>
    sv_listener s \<in> set (h_epoll (sv_handler s)) \<and> sv_listener s \<notin> set (sv_disarmed s)"
  using server_run_inv [OF assms] by (simp add: server_inv_def own_fds_def)

theorem server_stays_sound_witness:
  "\<forall>X. \<exists>w. w = \<lparr>wd_args = [], wd_files = \<lparr>fs_files = [], fs_dirs = []\<rparr>, wd_clock = \<lambda>_. 0, wd_listener = 3,
      wd_timer = 4, wd_master = None\<rparr> \<and>
    (\<exists>s. server_run X w [] s \<and> handler_inv (sv_handler s) \<and> clients_ok s \<and>
      sv_listener s \<in> set (h_epoll (sv_handler s)) \<and> sv_listener s \<notin> set (sv_disarmed s))"
proof
  fix X
  define w where w: "w = \<lparr>wd_args = [], wd_files = \<lparr>fs_files = [], fs_dirs = []\<rparr>, wd_clock = \<lambda>_. 0, wd_listener = 3,
      wd_timer = 4, wd_master = None\<rparr>"
  obtain s where s: "server_start X w = Some (Ok s)" using default_start [of w X] w by simp
  then have r: "server_run X w [] s" by (rule server_run.start)
  have "world_ok w" using w by (simp add: world_ok_def)
  with server_stays_sound [OF r] r w show "\<exists>w. w = \<lparr>wd_args = [], wd_files = \<lparr>fs_files = [], fs_dirs = []\<rparr>, wd_clock = \<lambda>_. 0, wd_listener = 3,
      wd_timer = 4, wd_master = None\<rparr> \<and>
    (\<exists>s. server_run X w [] s \<and> handler_inv (sv_handler s) \<and> clients_ok s \<and>
      sv_listener s \<in> set (h_epoll (sv_handler s)) \<and> sv_listener s \<notin> set (sv_disarmed s))" by blast
qed

text \<open>
  C2. A turn of the event loop ends (with a new state or a panic): whatever bytes the
  connections deliver, in whatever pieces, no read of a socket loops for ever in the parser or
  in the loop over the commands it has completed.
\<close>

theorem turns_end:
  assumes "server_run X w bs s" and "world_ok w" and "batch_ok X evs s"
  shows "\<exists>r. server_turn X evs s = Some r"
  using server_run_inv [OF assms(1,2)] server_turn_returns [OF _ assms(3)] by blast

theorem turns_end_witness:
  "\<forall>X. \<exists>w. w = \<lparr>wd_args = [], wd_files = \<lparr>fs_files = [], fs_dirs = []\<rparr>, wd_clock = \<lambda>_. 0, wd_listener = 3,
      wd_timer = 4, wd_master = None\<rparr> \<and>
    (\<exists>s r. server_run X w [] s \<and> server_turn X [Accepted 7 []] s = Some r)"
proof
  fix X
  define w where w: "w = \<lparr>wd_args = [], wd_files = \<lparr>fs_files = [], fs_dirs = []\<rparr>, wd_clock = \<lambda>_. 0, wd_listener = 3,
      wd_timer = 4, wd_master = None\<rparr>"
  let ?s = "epoll_add 4 (epoll_add 3 (server_new 3 4 (set_aof aof_new (fresh_master (\<lambda>_. 0)))))"
  have r: "server_run X w [] ?s" using default_start [of w X] w by (intro server_run.start) simp
  have "descriptors_free X [] t" for t by simp
  then have "batch_ok X [Accepted 7 []] ?s"
    by (simp add: batch_ok_def may_fire_def event_fd_def epoll_add_def add_interest_def server_new_def
        set_aof_def fresh_master_def handler_new_def descriptor_free_def disarm_def
        hm_contains_def split: option.split result.split)
  moreover have "world_ok w" using w by (simp add: world_ok_def)
  ultimately show "\<exists>w. w = \<lparr>wd_args = [], wd_files = \<lparr>fs_files = [], fs_dirs = []\<rparr>, wd_clock = \<lambda>_. 0, wd_listener = 3,
      wd_timer = 4, wd_master = None\<rparr> \<and>
    (\<exists>s r. server_run X w [] s \<and> server_turn X [Accepted 7 []] s = Some r)"
    using turns_end [OF r] r w by blast
qed

text \<open>
  C3. A connection implements the abstract key space of theory KeySpace, from bytes to bytes.
  When a read delivers any number of complete requests for data commands (strings, lists,
  streams, sorted sets, geo positions, bitmaps), the stored data afterwards and the bytes sent
  back are exactly what running the commands, one by one, on the specification gives: on
  strings, lists, sets of bits and maps, each with a reading of the server clock. The read ends,
  without error or panic, as long as no score is NaN, no XRANGE runs backwards and EX and PX
  come with a number.
\<close>

theorem connections_serve_the_key_space:
  assumes "list_all wf_resp ts" and "ts \<noteq> []" and "map from_resp ts = map Ok cs" and "list_all specified cs"
    and "list_all calm_args cs" and "handler_inv h" and "calm h" and "idle c" and "data_client c h"
  shows "\<exists>c' h' now rs. read_socket X (Some (concat (map ser ts))) c h = Some ((c', h'), Ok ()) \<and>
    length now = length cs \<and> set now \<subseteq> range (h_clock h) \<and>
    spec_session (zip now cs) (abs_data h) = (abs_data h', rs) \<and>
    tc_sent c' = tc_sent c @ concat (map reply_bytes rs)"
  by (rule read_socket_answers [OF assms])

theorem connections_serve_the_key_space_witness:
  "\<forall>X. \<exists>h cs c' h' now rs.
     h = (fresh_master (\<lambda>_. 5))\<lparr>h_auth := auth_new\<lparr>au_clients := [(7, ''default'')]\<rparr>\<rparr> \<and>
     cs = [CRPUSH ''l'' [''a'', ''b''], CLPUSH ''l'' [''c''], CINCR ''l'', CLPOP ''l'' None] \<and>
     read_socket X (Some (concat (map (\<lambda>c. ser (arr (map bulk (request c)))) cs))) (client_new 7 []) h =
       Some ((c', h'), Ok ()) \<and>
     length now = 4 \<and> set now \<subseteq> {5} \<and> spec_session (zip now cs) (abs_data h) = (abs_data h', rs) \<and>
     tc_sent c' = concat (map reply_bytes rs)"
proof
  fix X
  define h where h: "h = (fresh_master (\<lambda>_. 5))\<lparr>h_auth := auth_new\<lparr>au_clients := [(7, ''default'')]\<rparr>\<rparr>"
  define cs where cs: "cs = [CRPUSH ''l'' [''a'', ''b''], CLPUSH ''l'' [''c''], CINCR ''l'', CLPOP ''l'' None]"
  define ts where ts: "ts = map (\<lambda>c. arr (map bulk (request c))) cs"
  have "list_all requestable cs" by (simp add: cs)
  then have "map from_resp ts = map Ok cs" by (auto simp: ts list_all_iff from_resp_request)
  moreover have "list_all wf_resp ts" "ts \<noteq> []" by (simp_all add: ts cs arr_def bulk_def in_range_def)
  ultimately have t: "list_all wf_resp ts" "ts \<noteq> []" "map from_resp ts = map Ok cs" by simp_all
  have s: "list_all specified cs" "list_all calm_args cs" by (simp_all add: cs specified_def calm_args_def)
  have k: "calm h" by (rule calm_fresh) (simp add: h fresh_master_def handler_new_def)
  have i: "handler_inv h"
    using inv_fresh [of "\<lambda>_. 5"] by (simp add: h handler_inv_def pubsub_inv_def auth_inv_def auth_new_def hm_inv_def)
  have d: "data_client (client_new 7 []) h"
    by (simp add: h data_client_def client_new_def repl_state_new_def check_auth_def hm_contains_def free_client_def
        is_transaction_def is_subscriber_def fresh_master_def handler_new_def registry_new_def is_master_def client_table_new_def)
  have c: "idle (client_new 7 [])" by (simp add: idle_def client_new_def)
  from connections_serve_the_key_space [OF t s i k c d, of X] obtain c' h1 now rs where
    rd: "read_socket X (Some (concat (map ser ts))) (client_new 7 []) h = Some ((c', h1), Ok ())" and
    n: "length now = length cs" "tc_sent c' = tc_sent (client_new 7 []) @ concat (map reply_bytes rs)" and
    m: "set now \<subseteq> range (h_clock h)" "spec_session (zip now cs) (abs_data h) = (abs_data h1, rs)" by blast
  from n have "length now = 4" "tc_sent c' = concat (map reply_bytes rs)" by (simp_all add: cs client_new_def)
  moreover note m
  moreover have "h_clock h = (\<lambda>_. 5)" by (simp add: h fresh_master_def handler_new_def)
  ultimately show "\<exists>h cs c' h' now rs.
     h = (fresh_master (\<lambda>_. 5))\<lparr>h_auth := auth_new\<lparr>au_clients := [(7, ''default'')]\<rparr>\<rparr> \<and>
     cs = [CRPUSH ''l'' [''a'', ''b''], CLPUSH ''l'' [''c''], CINCR ''l'', CLPOP ''l'' None] \<and>
     read_socket X (Some (concat (map (\<lambda>c. ser (arr (map bulk (request c)))) cs))) (client_new 7 []) h =
       Some ((c', h'), Ok ()) \<and>
     length now = 4 \<and> set now \<subseteq> {5} \<and> spec_session (zip now cs) (abs_data h) = (abs_data h', rs) \<and>
     tc_sent c' = concat (map reply_bytes rs)"
    using rd h cs by (intro exI [of _ h] exI [of _ cs] exI [of _ c'] exI [of _ h1] exI [of _ now] exI [of _ rs])
      (auto simp: ts comp_def)
qed

text \<open>
  C4. Every descriptor is registered for one event only. In every run, at the start of every
  turn, each connection is armed again (or its own WAIT has taken it out of epoll): whatever its
  commands have done, the server reads it again. The only exception is a descriptor for which an
  event other than EPOLLIN has been delivered: nothing ever arms that one again.
\<close>

theorem no_connection_goes_deaf:
  assumes "server_run X w bs s" and "world_ok w" and "hm_get (sv_clients s) fd = Some c"
    and "OtherEvent fd \<notin> set (concat bs)"
  shows "fd \<notin> set (sv_disarmed s)"
proof -
  have "fd \<notin> own_fds s"
    using server_run_inv [OF assms(1,2)] assms(3) by (auto simp: server_inv_def clients_ok_def own_fds_def)
  then show ?thesis
    using run_rearms [OF assms(1,2)] assms(4) by (auto simp: unarmed_def other_fds_def)
qed

theorem no_connection_goes_deaf_witness:
  "\<forall>X. \<exists>w s. w = \<lparr>wd_args = [], wd_files = \<lparr>fs_files = [], fs_dirs = []\<rparr>, wd_clock = \<lambda>_. 0, wd_listener = 3,
      wd_timer = 4, wd_master = None\<rparr> \<and>
    server_run X w [[Accepted 7 []]] s \<and> hm_get (sv_clients s) 7 = Some (client_new 7 []) \<and> 7 \<notin> set (sv_disarmed s)"
proof
  fix X
  define w where w: "w = \<lparr>wd_args = [], wd_files = \<lparr>fs_files = [], fs_dirs = []\<rparr>, wd_clock = \<lambda>_. 0, wd_listener = 3,
      wd_timer = 4, wd_master = None\<rparr>"
  let ?s = "epoll_add 4 (epoll_add 3 (server_new 3 4 (set_aof aof_new (fresh_master (\<lambda>_. 0)))))"
  note defs = epoll_add_def add_interest_def server_new_def set_aof_def fresh_master_def handler_new_def aof_new_def
  have "server_run X w [] ?s" using default_start [of w X] w by (intro server_run.start) simp
  moreover have "descriptors_free X [] t" for t by simp
  then have "batch_ok X [Accepted 7 []] ?s"
    by (simp add: batch_ok_def may_fire_def event_fd_def descriptor_free_def disarm_def hm_contains_def defs
        split: option.split result.split)
  moreover have "\<exists>s. server_turn X [Accepted 7 []] ?s = Some (Ok s) \<and> hm_get (sv_clients s) 7 = Some (client_new 7 [])"
    by (simp add: server_turn_def server_event_def register_def authenticate_def auth_new_def has_nopass_def
        credential_new_def rearm_listener_def modify_interest_def disarm_def event_fd_def Let_def
        end_of_turn_def serve_backlog_list_def serve_backlog_stream_def handler_aof_flush_def aof_flush_def
        forget_deleted_def defs)
  then obtain s where s: "server_turn X [Accepted 7 []] ?s = Some (Ok s)" "hm_get (sv_clients s) 7 = Some (client_new 7 [])"
    by blast
  ultimately have r: "server_run X w [[Accepted 7 []]] s"
    using server_run.turn [of X w "[]" ?s "[Accepted 7 []]" s] by (simp add: server_step.turn)
  have "world_ok w" using w by (simp add: world_ok_def)
  from no_connection_goes_deaf [OF r this s(2)] r s(2) w
  show "\<exists>w s. w = \<lparr>wd_args = [], wd_files = \<lparr>fs_files = [], fs_dirs = []\<rparr>, wd_clock = \<lambda>_. 0, wd_listener = 3,
      wd_timer = 4, wd_master = None\<rparr> \<and>
    server_run X w [[Accepted 7 []]] s \<and> hm_get (sv_clients s) 7 = Some (client_new 7 []) \<and> 7 \<notin> set (sv_disarmed s)"
    by simp blast
qed

text \<open>
  C5. Replication: take a master and a replica with the same data and an established link, with
  nothing queued for the replica yet. A session of plain writes of ordinary clients on the
  master (SET without an expiry, RPUSH, LPUSH, LPOP, INCR and BITOP: their effect depends on the
  data alone; each may succeed or fail) queues for the replica the requests that were answered
  with success, in order. However these bytes are cut into reads at the ends of requests, the
  replica, reading one piece after the other, ends up with exactly the data of the master. In
  the code a read takes at most 4096 bytes, so the cut is one into pieces of at most that size.
\<close>

theorem replicas_converge:
  assumes "writers ss h" and "handler_inv h" and "log_open h" and "i \<in> set (list_slave (h_table h))"
    and "queued_for i h = []" and "\<forall>(cl, c, b) \<in> set ss. travels c b"
    and "established c g" and "tc_parser c = new_parser" and "h_data g = h_data h"
    and "concat ls = logged X ss h" and "[] \<notin> set ls"
  shows "concat (map log_bytes ls) = queued_for i (session_run X ss h) \<and>
    (\<exists>c' g'. read_all X' (map log_bytes ls) c g = Some ((c', g'), Ok ()) \<and>
      h_data g' = h_data (session_run X ss h))"
  by (rule replica_converges [OF assms])

theorem replicas_converge_witness:
  "\<forall>X X'. \<exists>h ss b1 b2 g c c' g'. h = (fresh_master (\<lambda>_. 0))\<lparr>h_table := set_slave 9 client_table_new,
      h_aof := Some (aof_new\<lparr>ao_writer := Some \<lparr>aw_file = [], aw_pending = []\<rparr>\<rparr>)\<rparr> \<and>
     b1 = ser (arr (map bulk (request (CSET ''n'' ''1'' None)))) \<and>
     b2 = ser (arr (map bulk (request (CRPUSH ''l'' [''v''])))) \<and>
     ss = [(7, CSET ''n'' ''1'' None, b1), (8, CRPUSH ''l'' [''v''], b2)] \<and>
     b1 @ b2 = queued_for 9 (session_run X ss h) \<and>
     read_all X' [b1, b2] c g = Some ((c', g'), Ok ()) \<and>
     h_data g = [] \<and> h_data g' = h_data (session_run X ss h)"
proof (intro allI)
  fix X X' :: externals
  define h where h: "h = (fresh_master (\<lambda>_. 0))\<lparr>h_table := set_slave 9 client_table_new,
      h_aof := Some (aof_new\<lparr>ao_writer := Some \<lparr>aw_file = [], aw_pending = []\<rparr>\<rparr>)\<rparr>"
  define b1 where b1: "b1 = ser (arr (map bulk (request (CSET ''n'' ''1'' None))))"
  define b2 where b2: "b2 = ser (arr (map bulk (request (CRPUSH ''l'' [''v'']))))"
  define ss where ss: "ss = [(7 :: u64, CSET ''n'' ''1'' None, b1), (8, CRPUSH ''l'' [''v''], b2)]"
  define g where g: "g = (fresh_master (\<lambda>_. 0))\<lparr>h_table := set_master 4 client_table_new,
      h_auth := auth_new\<lparr>au_clients := [(4, ''default'')]\<rparr>\<rparr>"
  define c where c: "c = (client_new 4 [])\<lparr>tc_hs := HsEstablished, tc_repl := repl_state_new\<lparr>rp_status := Some Master\<rparr>\<rparr>"
  note fresh = fresh_master_def handler_new_def client_table_new_def registry_new_def
  note ok_defs = fresh handle_def numeral_2_eq_2 execute_with_def Let_def is_subscriber_def stats_missing_def dispatch_def
    cmd_set_def cmd_rpush_def extract_deadline_def reply_def after_ok_def to_output_def response_ok_def serialize_ok
    is_transaction_def hm_contains_def is_master_def set_slave_def before_cmd_def to_be_broadcast_def
    broadcast_def set_dirty_def dirty_key_def on_reg_def put_def look_def start_bytes_count_def host_add_bytes_count_def
    repl_stats_new_def list_slave_def hs_insert_def push_def aof_write_def is_flag_list_def is_flag_stream_def count_bytes_def or_insert_def hm_or_insert_def put_value_def
  have w: "writers ss h"
    by (simp add: writers_def ss free_client_def h is_transaction_def is_subscriber_def fresh hm_contains_def
        plain_write_def is_master_def set_slave_def)
  have inv: "handler_inv h"
    using inv_fresh [of "\<lambda>_. 0"] table_inv_ops(3) [OF table_inv_new, of 9] by (simp add: h handler_inv_def pubsub_inv_def)
  have lg: "log_open h" "9 \<in> set (list_slave (h_table h))" "queued_for 9 h = []"
    by (simp_all add: h log_open_def set_list_slave queued_for_def fresh)
  have "travels (CSET ''n'' ''1'' None) b1" "travels (CRPUSH ''l'' [''v'']) b2"
    unfolding b1 b2 by (rule travels_request; auto simp: in_range_def)+
  then have trav: "\<forall>(cl, c, b) \<in> set ss. travels c b" by (simp add: ss)
  have l: "concat [[(CSET ''n'' ''1'' None, b1)], [(CRPUSH ''l'' [''v''], b2)]] = logged X ss h"
    by (simp add: ss h ok_defs)
  have est: "established c g" "tc_parser c = new_parser" "h_data g = h_data h" "h_data g = []"
    by (simp_all add: established_def c g h client_new_def is_master_def set_master_def check_auth_def hm_contains_def
        free_client_def is_transaction_def is_subscriber_def fresh)
  from replicas_converge [OF w inv lg trav est(1-3) l, of X'] obtain c' g' where
    "b1 @ b2 = queued_for 9 (session_run X ss h)" "read_all X' [b1, b2] c g = Some ((c', g'), Ok ())"
    "h_data g' = h_data (session_run X ss h)" by (auto simp: log_bytes_def)
  then show "\<exists>h ss b1 b2 g c c' g'. h = (fresh_master (\<lambda>_. 0))\<lparr>h_table := set_slave 9 client_table_new,
      h_aof := Some (aof_new\<lparr>ao_writer := Some \<lparr>aw_file = [], aw_pending = []\<rparr>\<rparr>)\<rparr> \<and>
     b1 = ser (arr (map bulk (request (CSET ''n'' ''1'' None)))) \<and>
     b2 = ser (arr (map bulk (request (CRPUSH ''l'' [''v''])))) \<and>
     ss = [(7, CSET ''n'' ''1'' None, b1), (8, CRPUSH ''l'' [''v''], b2)] \<and>
     b1 @ b2 = queued_for 9 (session_run X ss h) \<and>
     read_all X' [b1, b2] c g = Some ((c', g'), Ok ()) \<and>
     h_data g = [] \<and> h_data g' = h_data (session_run X ss h)"
    using est(4) h ss b1 b2 by blast
qed

text \<open>
  C6. Persistence, with appendonly on and a plain file name: let the server set up its
  append-only files and run a session of plain writes of ordinary clients (SET without an
  expiry, RPUSH, LPUSH, LPOP, INCR and BITOP: their effect depends on the data alone) whose log
  is at most 4096 bytes long, which is one read. At the next start the manifest leads to the
  log, and replaying it into a handler with the data of the beginning gives exactly the data of
  the end.
\<close>

theorem restart_restores_data:
  assumes "writers ss h" and "handler_inv h" and "log_open h" and "log_of h = []"
    and "\<forall>(cl, c, b) \<in> set ss. travels c b" and "h_data g = h_data h" and "free_client 0 g"
    and "\<not> is_master 0 (h_table g)" and "length (log_of (session_run X ss h)) \<le> buffer_size"
    and "cf_appendonly cf" and "plain_name (cf_appendfilename cf)"
    and "init_aof_files cf a fs = Ok (a1, fs1)"
  shows "\<exists>g'. aof_replay X' cf
      (fs1\<lparr>fs_files := hm_insert (the (ao_path a1)) (log_of (session_run X ss h)) (fs_files fs1)\<rparr>) g =
        Some (g', Ok ()) \<and> h_data g' = h_data (session_run X ss h)"
  by (rule restart_restores [OF assms])

theorem restart_restores_data_witness:
  "\<forall>X X'. \<exists>cf h ss a1 fs1 g'. cf = configs_new\<lparr>cf_appendonly := True\<rparr> \<and>
     h = (fresh_master (\<lambda>_. 0))\<lparr>h_aof := Some (aof_new\<lparr>ao_writer := Some \<lparr>aw_file = [], aw_pending = []\<rparr>\<rparr>)\<rparr> \<and>
     ss = [(7, CSET ''n'' ''1'' None, ser (arr (map bulk (request (CSET ''n'' ''1'' None)))))] \<and>
     init_aof_files cf aof_new \<lparr>fs_files = [], fs_dirs = [''/app/appendonlydir'']\<rparr> = Ok (a1, fs1) \<and>
     aof_replay X' cf
       (fs1\<lparr>fs_files := hm_insert (the (ao_path a1)) (log_of (session_run X ss h)) (fs_files fs1)\<rparr>)
       (fresh_master (\<lambda>_. 1)) = Some (g', Ok ()) \<and> h_data g' = h_data (session_run X ss h)"
proof (intro allI)
  fix X X' :: externals
  define h where h: "h = (fresh_master (\<lambda>_. 0))\<lparr>h_aof := Some (aof_new\<lparr>ao_writer := Some \<lparr>aw_file = [], aw_pending = []\<rparr>\<rparr>)\<rparr>"
  define cf where cf: "cf = configs_new\<lparr>cf_appendonly := True\<rparr>"
  define b where b: "b = ser (arr (map bulk (request (CSET ''n'' ''1'' None))))"
  define ss where ss: "ss = [(7 :: u64, CSET ''n'' ''1'' None, b)]"
  define fs where fs: "fs = \<lparr>fs_files = [], fs_dirs = [''/app/appendonlydir'']\<rparr>"
  note fresh = fresh_master_def handler_new_def client_table_new_def registry_new_def
  have free: "free_client 7 h" "plain_write (CSET ''n'' ''1'' None)" "\<not> is_master 7 (h_table h)"
    "free_client 0 (fresh_master (\<lambda>_. 1))" "\<not> is_master 0 (h_table (fresh_master (\<lambda>_. 1)))"
    "h_data (fresh_master (\<lambda>_. 1)) = h_data h"
    by (simp_all add: free_client_def h is_transaction_def is_subscriber_def fresh hm_contains_def
        plain_write_def is_master_def)
  have inv: "handler_inv h"
    using inv_fresh [of "\<lambda>_. 0"] by (simp add: h handler_inv_def pubsub_inv_def)
  have lg: "log_open h" "log_of h = []"
    by (simp_all add: h log_open_def log_of_def fresh aof_log_def)
  have trav: "travels (CSET ''n'' ''1'' None) b"
    unfolding b by (rule travels_request) (auto simp: in_range_def)
  have w: "writers ss h" using free by (simp add: writers_def ss)
  have "length b \<le> buffer_size" by (simp add: b arr_def bulk_def buffer_size_def delimiter_def show_nat.simps [of "Suc 0"]
        show_nat.simps [of "Suc (Suc (Suc 0))"])
  moreover have "length (concat (map snd (logged X ss h))) \<le> length b"
    by (auto simp: ss split: prod.split result.split)
  ultimately have len: "length (log_of (session_run X ss h)) \<le> buffer_size"
    using session_feeds [OF w inv lg(1), of X] lg(2) by simp
  have cfs: "cf_appendonly cf" "plain_name (cf_appendfilename cf)"
    by (simp_all add: cf configs_new_def plain_name_def in_range_def)
  have "\<exists>p. init_aof_files cf aof_new fs = Ok p"
    by (simp add: init_aof_files_def append_dir_def get_latest_aof_id_def cf configs_new_def fs read_dir_def
        entry_name_def List.map_filter_simps Let_def)
  then obtain a1 fs1 where init: "init_aof_files cf aof_new fs = Ok (a1, fs1)" by auto
  have t: "\<forall>(cl, c, b) \<in> set ss. travels c b" using trav by (simp add: ss)
  from restart_restores_data [OF w inv lg t free(6,4,5) len cfs init, of X']
  show "\<exists>cf h ss a1 fs1 g'. cf = configs_new\<lparr>cf_appendonly := True\<rparr> \<and>
     h = (fresh_master (\<lambda>_. 0))\<lparr>h_aof := Some (aof_new\<lparr>ao_writer := Some \<lparr>aw_file = [], aw_pending = []\<rparr>\<rparr>)\<rparr> \<and>
     ss = [(7, CSET ''n'' ''1'' None, ser (arr (map bulk (request (CSET ''n'' ''1'' None)))))] \<and>
     init_aof_files cf aof_new \<lparr>fs_files = [], fs_dirs = [''/app/appendonlydir'']\<rparr> = Ok (a1, fs1) \<and>
     aof_replay X' cf
       (fs1\<lparr>fs_files := hm_insert (the (ao_path a1)) (log_of (session_run X ss h)) (fs_files fs1)\<rparr>)
       (fresh_master (\<lambda>_. 1)) = Some (g', Ok ()) \<and> h_data g' = h_data (session_run X ss h)"
    using init cf h ss b fs by blast
qed

text \<open>
  C7. Every command that can be written as a request survives the wire: the bytes of its array
  of bulk strings, followed by anything, are parsed to one completed value that builds the
  command again, and exactly the rest stays in the buffer.
\<close>

theorem request_survives_the_wire:
  assumes "requestable c" and "request c \<noteq> []" and "length (request c) < 2 ^ 64"
    and "\<And>s. s \<in> set (request c) \<Longrightarrow> utf8_valid s \<and> length s + 2 < 2 ^ 64"
  shows "\<exists>r. parse False (feed_buf (ser (arr (map bulk (request c))) @ b) new_parser) =
      Some (Return ((feed_buf b new_parser)\<lparr>completed := [r]\<rparr>)) \<and> from_resp r = Ok c"
proof -
  have "wf_resp (arr (map bulk (request c)))"
    using assms by (auto simp: arr_def bulk_def list_all_iff)
  from parse_serialized [OF this] from_resp_request [OF assms(1)] show ?thesis
    by (auto simp: at_start_new_parser)
qed

theorem request_survives_the_wire_witness:
  "\<exists>r. parse False (feed_buf (ser (arr (map bulk (request (CGET ''k'')))) @ ''*1'') new_parser) =
      Some (Return ((feed_buf ''*1'' new_parser)\<lparr>completed := [r]\<rparr>)) \<and> from_resp r = Ok (CGET ''k'')"
  by (rule request_survives_the_wire) (auto simp: in_range_def)

text \<open>
  C8. After MULTI every command other than EXEC, DISCARD and WATCH is answered QUEUED and
  appended to the queue of the client, and nothing else of the state changes: neither the data
  nor the replies. EXEC, when no key the client watches is dirty and no command of the queue
  panics, then leaves the state that executing these commands one after the other leaves, from
  the state before they were entered, with the transaction and the watches of the client closed.
\<close>

theorem exec_runs_the_queued_commands:
  assumes "hm_get (rg_txn (h_reg h)) client = Some []" and "\<not> is_any_dirty client (h_reg h)"
    and "list_all (\<lambda>(c, _). queueable c) cbs"
    and "snd (handle X (Ok CEXEC) b client ep (enter_all X client ep' cbs h)) \<noteq> Panic"
  shows "enter_answers X client ep' cbs h = replicate (length cbs) (Ok queued_reply) \<and>
    enter_all X client ep' cbs h = on_reg (\<lambda>r. r\<lparr>rg_txn := hm_insert client cbs (rg_txn r)\<rparr>) h \<and>
    fst (handle X (Ok CEXEC) b client ep (enter_all X client ep' cbs h)) =
      close_txn client (fold (\<lambda>(c, b) h. fst (execute 1 X c b client None False h)) cbs h)"
  using transaction_runs [OF assms] enter_all_state [OF assms(1,3)]
    enter_all_queued [OF _ assms(3)] assms(1) by (simp add: is_transaction_def hm_contains_def)

theorem exec_runs_the_queued_commands_witness:
  "\<exists>X h. h = fst (cmd_multi 4 (fresh_master (\<lambda>_. 0))) \<and>
     enter_answers X 4 True [(CPING, [])] h = [Ok queued_reply] \<and>
     fst (handle X (Ok CEXEC) [] 4 True (enter_all X 4 True [(CPING, [])] h)) =
     close_txn 4 (fold (\<lambda>(c, b) h. fst (execute 1 X c b 4 None False h)) [(CPING, [])] h)"
proof -
  fix X :: externals
  let ?h = "fst (cmd_multi 4 (fresh_master (\<lambda>_. 0)))"
  define h1 where "h1 = on_reg (add_to_txn 4 CPING []) ?h"
  have e: "enter_all X 4 True [(CPING, [])] ?h = h1"
    by (simp add: enter_all_def handle_def cmd_multi_def is_transaction_def hm_contains_def on_reg_def
        fresh_master_def handler_new_def registry_new_def h1_def)
  have q: "hm_get (rg_txn (h_reg h1)) 4 = Some [(CPING, [])]" and w: "rg_watch (h_reg h1) = []"
    and f: "h_subs h1 = []" "h_table h1 = client_table_new"
    by (simp_all add: cmd_multi_def is_transaction_def hm_contains_def on_reg_def add_to_txn_def
        fresh_master_def handler_new_def registry_new_def h1_def)
  have "snd (handle X (Ok CEXEC) [] 4 True h1) \<noteq> Panic"
    unfolding handle_exec [OF q] cmd_exec_def exec_with_def
    by (simp add: q w f is_any_dirty_def execute_with_def Let_def is_subscriber_def stats_missing_def
        to_be_broadcast_def dispatch_def cmd_ping_def reply_def after_ok_def to_output_def is_master_def
        client_table_new_def txn_answer_def built_eq serialize_ok drain_txn_def on_reg_def)
  then have p: "snd (handle X (Ok CEXEC) [] 4 True (enter_all X 4 True [(CPING, [])] ?h)) \<noteq> Panic"
    unfolding e .
  have o: "hm_get (rg_txn (h_reg ?h)) 4 = Some []" "\<not> is_any_dirty 4 (h_reg ?h)"
    "list_all (\<lambda>(c, _). queueable c) [(CPING, [])]"
    by (simp_all add: cmd_multi_def is_transaction_def hm_contains_def on_reg_def fresh_master_def
        handler_new_def registry_new_def is_any_dirty_def queueable_def)
  note r = exec_runs_the_queued_commands [OF o p]
  have "enter_answers X 4 True [(CPING, [])] ?h = [Ok queued_reply]"
    using conjunct1 [OF r] by (simp only: list.size replicate_Suc replicate_0 One_nat_def add_0 plus_1_eq_Suc add_0_right add_Suc_right)
  moreover have "fst (handle X (Ok CEXEC) [] 4 True (enter_all X 4 True [(CPING, [])] ?h)) =
     close_txn 4 (fold (\<lambda>(c, b) h. fst (execute 1 X c b 4 None False h)) [(CPING, [])] ?h)"
    using r by blast
  ultimately show ?thesis by blast
qed

text \<open>
  C9. Optimistic locking: if another client issues a tracked write on a key the client watches,
  even one that fails, the EXEC of the client answers the null array, runs none of its commands
  and closes the transaction.
\<close>

theorem touched_watch_aborts:
  assumes "handler_inv h" and "hm_get (rg_txn (h_reg h)) client = Some q" and "watches (h_reg h) client k \<noteq> None"
    and "dirty_key c = Some k" and "\<not> is_subscriber other h"
  shows "handle X (Ok CEXEC) b client ep (fst (execute n X c b' other ep' s h)) =
    (close_txn client (fst (execute n X c b' other ep' s h)), Ok (ser null_arr))"
proof (rule dirty_exec)
  have st: "host_stats (h_states h) \<noteq> None"
    using assms(1) by (auto simp: handler_inv_def states_inv_def split: option.splits)
  show "hm_get (rg_txn (h_reg (fst (execute n X c b' other ep' s h)))) client = Some q"
    using execute_marks(2) [OF assms(4,5) st] assms(2) by simp
  show "watches (h_reg (fst (execute n X c b' other ep' s h))) client k = Some True"
    by (rule write_dirties [OF assms(3-5) st])
  show "watch_inv (h_reg (fst (execute n X c b' other ep' s h)))"
    using inv_execute [OF assms(1)] by (simp add: handler_inv_def)
qed

theorem touched_watch_aborts_witness:
  "\<exists>X h. snd (handle X (Ok CEXEC) [] 4 True (fst (execute 2 X (CINCR ''k'') [] 5 None True h))) = Ok (ser null_arr)"
proof -
  fix X :: externals
  let ?h = "fst (cmd_multi 4 (fst (cmd_watch [''k''] 4 (fresh_master (\<lambda>_. 0)))))"
  have i: "handler_inv ?h" by (intro inv_txn_cmds inv_fresh)
  have "handle X (Ok CEXEC) [] 4 True (fst (execute 2 X (CINCR ''k'') [] 5 None True ?h)) =
      (close_txn 4 (fst (execute 2 X (CINCR ''k'') [] 5 None True ?h)), Ok (ser null_arr))"
    by (rule touched_watch_aborts [OF i, where q = "[]" and k = "''k''"])
      (simp_all add: cmd_multi_def cmd_watch_def is_transaction_def hm_contains_def on_reg_def fresh_master_def
        handler_new_def registry_new_def reg_watch_def watch_key_def watches_def dirty_key_def is_subscriber_def
        hm_or_insert_def)
  then show ?thesis by (intro exI [of _ X] exI [of _ ?h]) simp
qed

text \<open>
  C10. Pipelining: a read that delivers the bytes of any number of complete values to an
  ordinary idle connection has exactly the effect of serving the values one by one, in their
  order, on the data, on every other part of the handler and on the bytes sent back; the first
  one that ends the connection or the server ends both in the same way.
\<close>

theorem pipelined_requests_are_served_in_order:
  assumes "list_all wf_resp ts" and "ts \<noteq> []" and "idle c" and "rp_status (tc_repl c) \<noteq> Some Master"
    and "serve_values X ts c h = ((c1, h1), r)"
  shows "\<exists>p. read_socket X (Some (concat (map ser ts))) c h = Some ((c1\<lparr>tc_parser := p\<rparr>, h1), r)"
  using read_socket_values [OF assms(1-4), of X h] by (simp add: assms(5))

theorem pipelined_requests_are_served_in_order_witness:
  "\<forall>X. \<exists>ts c1 h1 r p. ts = [arr [bulk ''SET'', bulk ''k'', bulk ''v''], arr [bulk ''GET'', bulk ''k'']] \<and>
     serve_values X ts (client_new 7 []) (fresh_master (\<lambda>_. 0)) = ((c1, h1), r) \<and>
     read_socket X (Some (concat (map ser ts))) (client_new 7 []) (fresh_master (\<lambda>_. 0)) =
       Some ((c1\<lparr>tc_parser := p\<rparr>, h1), r)"
proof
  fix X
  define ts where ts: "ts = [arr [bulk ''SET'', bulk ''k'', bulk ''v''], arr [bulk ''GET'', bulk ''k'']]"
  obtain c1 h1 r where s: "serve_values X ts (client_new 7 []) (fresh_master (\<lambda>_. 0)) = ((c1, h1), r)"
    by (metis prod.collapse)
  have w: "list_all wf_resp ts" "ts \<noteq> []" by (simp_all add: ts arr_def bulk_def in_range_def)
  have c: "idle (client_new 7 [])" "rp_status (tc_repl (client_new 7 [])) \<noteq> Some Master"
    by (simp_all add: idle_def client_new_def repl_state_new_def)
  from pipelined_requests_are_served_in_order [OF w c s] s ts
  show "\<exists>ts c1 h1 r p. ts = [arr [bulk ''SET'', bulk ''k'', bulk ''v''], arr [bulk ''GET'', bulk ''k'']] \<and>
     serve_values X ts (client_new 7 []) (fresh_master (\<lambda>_. 0)) = ((c1, h1), r) \<and>
     read_socket X (Some (concat (map ser ts))) (client_new 7 []) (fresh_master (\<lambda>_. 0)) =
       Some ((c1\<lparr>tc_parser := p\<rparr>, h1), r)" by blast
qed

text \<open>
  C11. Several clients share one key space: for any interleaving of data commands of free
  clients, the data afterwards and every reply are those of the specification run on the same
  sequence of commands with the times at which the requests started. None of them panics as long
  as no score is NaN, no XRANGE runs backwards and EX and PX come with a number.
\<close>

theorem clients_share_one_key_space:
  assumes "handler_inv h" and "calm h" and "data_session ss h" and "list_all calm_args (session_cmds ss)"
  shows "Panic \<notin> set (session_replies X ss h) \<and>
    spec_session (zip (session_times X ss h) (session_cmds ss)) (abs_data h) =
    (abs_data (session_run X ss h), session_replies X ss h)"
  using calm_session [OF assms, of X] session_refined [OF assms(1,3), of X] by simp

theorem clients_share_one_key_space_witness:
  "\<forall>X. \<exists>h ss. h = fresh_master (\<lambda>_. 5) \<and>
     ss = [(7, CSET ''n'' ''41'' None, ''x''), (8, CINCR ''n'', ''y''), (7, CRPUSH ''n'' [''z''], ''z'')] \<and>
     spec_session (zip (session_times X ss h) (session_cmds ss)) (abs_data h) =
       (abs_data (session_run X ss h), session_replies X ss h)"
proof
  fix X
  define h where h: "h = fresh_master (\<lambda>_. 5)"
  define ss :: session where ss: "ss = [(7, CSET ''n'' ''41'' None, ''x''), (8, CINCR ''n'', ''y''), (7, CRPUSH ''n'' [''z''], ''z'')]"
  have i: "handler_inv h" using inv_fresh by (simp add: h)
  have d: "data_session ss h"
    by (simp add: ss h data_session_def specified_def free_client_def is_transaction_def is_subscriber_def
        fresh_master_def handler_new_def registry_new_def is_master_def client_table_new_def hm_contains_def)
  have k: "calm h" by (rule calm_fresh) (simp add: h fresh_master_def handler_new_def)
  have "list_all calm_args (session_cmds ss)" by (simp add: ss session_cmds_def calm_args_def)
  from clients_share_one_key_space [OF i k d this, of X] h ss
  show "\<exists>h ss. h = fresh_master (\<lambda>_. 5) \<and>
     ss = [(7, CSET ''n'' ''41'' None, ''x''), (8, CINCR ''n'', ''y''), (7, CRPUSH ''n'' [''z''], ''z'')] \<and>
     spec_session (zip (session_times X ss h) (session_cmds ss)) (abs_data h) =
       (abs_data (session_run X ss h), session_replies X ss h)" by blast
qed

text \<open>
  C12. A command changes nothing but the key it names for writing: every other key, and every
  key if it is a read, holds the same item after it, whether it succeeds or fails.
\<close>

theorem commands_change_one_key:
  assumes "no_exec c" and "written_key c \<noteq> Some k"
  shows "look k (fst (execute n X c b client ep s h)) = look k h"
  by (rule execute_look [OF assms])

theorem commands_change_one_key_witness:
  "\<forall>X. look ''b'' (fst (execute 2 X (CLPUSH ''a'' [''x'']) [] 4 None True (fresh_master (\<lambda>_. 0)))) =
   look ''b'' (fresh_master (\<lambda>_. 0))"
  by (intro allI commands_change_one_key) (simp_all add: no_exec_def written_key_def)

text \<open>
  C13. Typing of the key space: a command of any client, in or outside a transaction, that
  neither is nor queues a SET or BITOP into the key leaves a stored value in place, with its
  type and its expiry. So a key keeps its type for life, an INCR or a push keeps its expiry, and
  no command removes an expired key.
\<close>

theorem values_keep_their_type:
  assumes "look k h = Some it" and "handler_inv h" and "\<not> replaces k c"
    and "\<forall>q. hm_get (rg_txn (h_reg h)) client = Some q \<longrightarrow> (\<forall>(c, b) \<in> set q. \<not> replaces k c)"
  shows "\<exists>it'. look k (fst (handle X (Ok c) b client ep h)) = Some it' \<and>
    get_type (item_value it') = get_type (item_value it) \<and> expired_at it' = expired_at it"
  using kind_handle [of k it h c client X b ep] assms
  by (simp add: holds_kind_def same_kind_def handler_inv_def)

theorem values_keep_their_type_witness:
  "\<forall>X. \<exists>it'. look ''k'' (fst (handle X (Ok (CLPOP ''k'' None)) [] 4 True
      (put ''k'' (item (VList [''a'']) (Some 7)) (fresh_master (\<lambda>_. 0))))) = Some it' \<and>
    get_type (item_value it') = ''list'' \<and> expired_at it' = Some 7"
proof
  fix X
  let ?h = "put ''k'' (item (VList [''a'']) (Some 7)) (fresh_master (\<lambda>_. 0))"
  have lk: "look ''k'' ?h = Some (item (VList [''a'']) (Some 7))" by simp
  have "handler_inv ?h" by (rule inv_put [OF inv_fresh]) simp
  from values_keep_their_type [OF lk this, of "CLPOP ''k'' None" 4 X "[]" True]
  show "\<exists>it'. look ''k'' (fst (handle X (Ok (CLPOP ''k'' None)) [] 4 True ?h)) = Some it' \<and>
    get_type (item_value it') = ''list'' \<and> expired_at it' = Some 7"
    by (simp add: replaces_def put_def fresh_master_def handler_new_def registry_new_def)
qed

text \<open>
  C14. The commands the code propagates are SET, LPUSH, RPUSH, LPOP, BLPOP, INCR, XADD, SETBIT
  and BITOP (ZADD, ZREM and GEOADD are not among them). Such a command of an ordinary client
  that gets an answer is sent byte for byte, once, to every replica after everything queued
  before, handed to the append-only file, and its length is added to the replication offset.
\<close>

theorem successful_writes_are_propagated:
  assumes "handler_inv h" and "to_be_broadcast c" and "\<not> is_master client (h_table h)"
    and "snd (execute n X c b client ep s h) = Ok out" and "out \<noteq> CoNone"
  shows "h_queue (fst (execute n X c b client ep s h)) = h_queue h @ map (\<lambda>i. (i, b)) (list_slave (h_table h)) \<and>
    h_aof (fst (execute n X c b client ep s h)) = map_option (\<lambda>a. fst (aof_write b a)) (h_aof h) \<and>
    h_states (fst (execute n X c b client ep s h)) = host_add_bytes_count (int (length b)) (h_states h)"
  using write_success [OF assms] by (simp add: fed_def)

theorem successful_writes_are_propagated_witness:
  "\<exists>X. h_queue (fst (execute 2 X (CSET ''k'' ''v'' None) ''w'' 4 None True
      ((fresh_master (\<lambda>_. 0))\<lparr>h_table := set_slave 9 client_table_new\<rparr>))) = [(9, ''w'')]"
proof -
  fix X :: externals
  let ?h = "(fresh_master (\<lambda>_. 0))\<lparr>h_table := set_slave 9 client_table_new\<rparr>"
  have i: "handler_inv ?h"
    using inv_fresh [of "\<lambda>_. 0"] table_inv_ops(3) [OF table_inv_new, of 9] by (simp add: handler_inv_def pubsub_inv_def)
  have "snd (execute 2 X (CSET ''k'' ''v'' None) ''w'' 4 None True ?h) = Ok (CoBytes (ser response_ok))"
    by (simp add: numeral_2_eq_2 execute_with_def Let_def is_subscriber_def stats_missing_def fresh_master_def
        handler_new_def dispatch_def cmd_set_def extract_deadline_def reply_def after_ok_def to_output_def
        is_master_def set_slave_def client_table_new_def response_ok_def serialize_ok)
  from successful_writes_are_propagated [OF i _ _ this] show ?thesis
    by (intro exI [of _ X]) (simp add: to_be_broadcast_def is_master_def set_slave_def client_table_new_def
        list_slave_def fresh_master_def handler_new_def hs_insert_def)
qed

text \<open>
  C15. At the end of a turn the handler serves the clients blocked on lists when the flag of a
  push is still set, and does nothing at all otherwise. Provided the registry is consistent and
  no two requests share a timestamp, each list then serves its clients: the i-th client of the
  queue gets the i-th element, in one message, the served clients leave the queue and the served
  elements the list, so that no client still waits for a list that has an element.
\<close>

theorem blocked_clients_are_served_in_order:
  assumes "reg_inv (h_reg h)" and "stamps_ok (h_reg h)"
  shows "if h_flag_list h
    then h_queue (serve_backlog_list h) = h_queue h @ concat (map (\<lambda>(k, q).
          map (\<lambda>(t, x). (client_of (h_reg h) t, ser (blpop_item k x))) (zip q (elements k h))) (rg_list (h_reg h))) \<and>
      (\<forall>k. elements k (serve_backlog_list h) = drop (length (waiters k (h_reg h))) (elements k h) \<and>
         waiters k (h_reg (serve_backlog_list h)) = drop (length (elements k h)) (waiters k (h_reg h)))
    else serve_backlog_list h = h"
  using served_in_order [OF assms] by (simp add: handed_def serve_backlog_list_def)

theorem blocked_clients_are_served_in_order_witness:
  "\<exists>h. h_queue h = [] \<and> waiters ''k'' (h_reg h) = [7, 8] \<and> elements ''k'' h = [''a''] \<and>
     h_queue (serve_backlog_list h) = [(1, ser (blpop_item ''k'' ''a''))] \<and>
     elements ''k'' (serve_backlog_list h) = [] \<and> waiters ''k'' (h_reg (serve_backlog_list h)) = [8]"
proof -
  let ?r1 = "reg_insert 9 7 0 (ListReq ''k'' 0 1 7) registry_new"
  let ?r = "reg_insert 9 8 0 (ListReq ''k'' 0 2 8) ?r1"
  let ?h = "(put ''k'' (item (VList [''a'']) None) (fresh_master (\<lambda>_. 0)))\<lparr>h_reg := ?r, h_flag_list := True\<rparr>"
  have r1: "reg_inv ?r1" by (rule reg_inv_insert [OF reg_inv_new]) (simp_all add: registry_new_def)
  have r: "reg_inv ?r"
    by (rule reg_inv_insert [OF r1]) (simp_all add: reg_insert_store reg_insert_indexes registry_new_def)
  have s: "stamps_ok ?r" by (intro stamps_ok_ops) simp_all
  have f: "rg_list ?r = [(''k'', [7, 8])]" "client_of ?r 7 = 1" "elements ''k'' ?h = [''a'']"
    by (simp_all add: reg_insert_indexes reg_enqueue_def registry_new_def client_of_def reg_insert_store
        stamp_def elements_def look_def put_def)
  have q: "h_queue ?h = []" by (simp add: put_def fresh_master_def handler_new_def)
  from blocked_clients_are_served_in_order [of ?h] r s f q show ?thesis
    by (intro exI [of _ ?h]) (simp add: waiters_def)
qed

text \<open>
  C16. A WAIT for a non-zero number of replicas, on a master whose offset is not 0 and while no
  other WAIT is pending, asks each replica for its offset. Then any acknowledgements may come,
  from anyone and with any offset, before the deadline of the WAIT if it has one. The client is
  answered exactly when the number of different replicas that have acknowledged at least the
  offset of the master at the time of the WAIT reaches the number asked for, with that number
  and once; the request is then gone and the client is listened to again.
\<close>

theorem wait_counts_the_replicas:
  assumes "count \<noteq> 0" and "host_stats (h_states h) = Some s" and "rs_offset s \<noteq> 0"
    and "rg_ack (h_reg h) = []" and "distinct (list_slave (h_table h))"
    and "h' = fold (\<lambda>(i, off) h. fst (cmd_replconf (ArgAck off) i (Some True) h)) as
      (fst (cmd_wait count t c (Some True) h))"
    and "n = card {i \<in> set (list_slave (h_table h)). \<exists>off \<ge> rs_offset s. (i, off) \<in> set as}"
  shows "h_queue h' = h_queue h @ map (\<lambda>i. (i, getack_msg)) (list_slave (h_table h)) @
      (if n < unat count then [] else [(c, ser (int_reply (sint count)))]) \<and>
    (unat count \<le> n \<longrightarrow>
       c \<in> set (h_epoll h') \<and> hm_get (rg_store (h_reg h')) (h_clock h (h_reads h)) = None)"
proof -
  have "n = card (caught (rs_offset s) as \<inter> set (list_slave (h_table h)))"
    unfolding assms(7) caught_def by (rule arg_cong [where f = card]) auto
  with wait_answered [OF assms(1-5), where as = as and t = t and c = c] show ?thesis by (simp add: assms(6) acked_def)
qed

theorem wait_counts_the_replicas_witness:
  "\<exists>h h1 h2. h = (fresh_master (\<lambda>_. 5))\<lparr>h_table := set_slave 9 client_table_new,
      h_states := \<lparr>host_stats = Some ((repl_stats_new None None)\<lparr>rs_offset := 30\<rparr>), master_stats = None\<rparr>\<rparr> \<and>
     h1 = fst (cmd_replconf (ArgAck 29) 9 (Some True) (fst (cmd_wait 1 None 4 (Some True) h))) \<and>
     h2 = fst (cmd_replconf (ArgAck 30) 9 (Some True) h1) \<and>
     h_queue h1 = [(9, getack_msg)] \<and>
     h_queue h2 = [(9, getack_msg), (4, ser (int_reply 1))] \<and> 4 \<in> set (h_epoll h2)"
proof -
  define h where h: "h = (fresh_master (\<lambda>_. 5))\<lparr>h_table := set_slave 9 client_table_new,
      h_states := \<lparr>host_stats = Some ((repl_stats_new None None)\<lparr>rs_offset := 30\<rparr>), master_stats = None\<rparr>\<rparr>"
  have l: "list_slave (h_table h) = [9]"
    by (simp add: h set_slave_def client_table_new_def list_slave_def hs_insert_def)
  have q: "h_queue h = []" "host_stats (h_states h) = Some ((repl_stats_new None None)\<lparr>rs_offset := 30\<rparr>)"
    "rg_ack (h_reg h) = []"
    by (simp_all add: h fresh_master_def handler_new_def registry_new_def)
  have s: "{i. i = 9 \<and> (\<exists>off \<ge> 30. (i, off) \<in> {(9 :: u64, 29 :: int)})} = {}" by auto
  have t: "{i. i = 9 \<and> (\<exists>off \<ge> 30. i = 9 \<and> off = (29 :: int) \<or> i = 9 \<and> off = 30)} = {9 :: u64}"
    by (auto intro: exI [of _ 30])
  define h1 where h1: "h1 = fst (cmd_replconf (ArgAck 29) 9 (Some True) (fst (cmd_wait 1 None 4 (Some True) h)))"
  define h2 where h2: "h2 = fst (cmd_replconf (ArgAck 30) 9 (Some True) h1)"
  note w = wait_counts_the_replicas [OF _ q(2) _ q(3), of 1 _ _ None 4]
  from w [of h1 "[(9, 29)]"] l q(1) h1 s have "h_queue h1 = [(9, getack_msg)]" by simp
  moreover from w [of h2 "[(9, 29), (9, 30)]"] l q(1) h1 h2 t
  have "h_queue h2 = [(9, getack_msg), (4, ser (int_reply 1))] \<and> 4 \<in> set (h_epoll h2)" by simp
  ultimately show ?thesis using h h1 h2 by blast
qed

text \<open>
  C17. The end of a turn panics exactly when a reply is queued for a connection that no longer
  exists, and never fails in another way. Otherwise it writes every queued reply to its client,
  in the order of the queue, and empties the queue. The error of a write is ignored: of a reply
  the socket does not take whole the client receives a prefix, followed directly by the next
  reply.
\<close>

theorem replies_are_written_in_order:
  "(end_of_turn s = Panic \<longleftrightarrow> (\<exists>i b. (i, b) \<in> set (turn_queue s) \<and> hm_get (sv_clients s) i = None)) \<and>
   (case end_of_turn s of
      Ok s' \<Rightarrow> h_queue (sv_handler s') = [] \<and>
        (\<forall>i. map_option tc_sent (hm_get (sv_clients s') i) =
          map_option (\<lambda>c. tc_sent c @ received (replies_to i (turn_queue s)) (tc_stream c)) (hm_get (sv_clients s) i))
    | Err _ \<Rightarrow> False
    | Panic \<Rightarrow> True)"
  by (rule end_of_turn_delivers)

text \<open>
  C18. When the socket does not take the whole reply to one of the requests of a read, the
  connection is closed. The effect of that request and of those before it stays, the requests
  behind it are never run.
\<close>

theorem cut_reply_closes_the_connection:
  assumes "hm_get (sv_clients s) fd = Some c" and "idle c" and "rp_status (tc_repl c) \<noteq> Some Master"
    and "list_all wf_resp (as @ t # rest)"
    and "serve_values X as c (sv_handler s) = ((c1, h1), Ok ())"
    and "respond X (from_resp t) (ser t) c1 h1 = ((c1, h2), r)" and "r = Ok v \<or> r = Err v"
    and "tc_stream c1 = n # ns" and "n < length v"
  shows "\<exists>s'. read_event X fd (Some (concat (map ser (as @ t # rest)))) s = Some (Ok s') \<and>
    hm_get (sv_clients s') fd = None \<and> h_data (sv_handler s') = h_data h2"
  by (rule cut_reply_closes [OF assms])

theorem cut_reply_closes_the_connection_witness:
  "\<forall>X. \<exists>s s'. s = \<lparr>sv_clients = [(7, client_new 7 [100, 3])], sv_handler = fresh_master (\<lambda>_. 0), sv_disarmed = [],
      sv_listener = 3, sv_timer = 4\<rparr> \<and>
    read_event X 7 (Some (concat (map (\<lambda>c. ser (arr (map bulk (request c)))) [CGET ''a'', CGET ''b'', CGET ''c'']))) s = Some (Ok s') \<and>
    hm_get (sv_clients s') 7 = None"
proof
  fix X
  define s where s: "s = \<lparr>sv_clients = [(7, client_new 7 [100, 3])], sv_handler = fresh_master (\<lambda>_. 0), sv_disarmed = [],
      sv_listener = 3, sv_timer = 4\<rparr>"
  define t where t: "t k = arr (map bulk (request (CGET k)))" for k
  have f: "from_resp (t k) = Ok (CGET k)" for k using from_resp_request [of "CGET k"] by (simp add: t)
  have w: "wf_resp (t ''a'')" "wf_resp (t ''b'')" "wf_resp (t ''c'')"
    by (simp_all add: t arr_def bulk_def in_range_def)
  have na: "\<not> check_auth 7 (h_auth (fresh_master (\<lambda>_. 0)))"
    by (simp add: check_auth_def fresh_master_def handler_new_def auth_new_def hm_contains_def)
  define c1 where "c1 = fst (write_all noauth_reply (client_new 7 [100, 3]))"
  have n: "3 < length noauth_reply" "length noauth_reply \<le> 100" by code_simp+
  then have "snd (write_all noauth_reply (client_new 7 [100, 3])) = Ok ()" "tc_stream c1 = [3]" "tc_fd c1 = 7"
    by (simp_all add: c1_def write_all_def client_new_def)
  note c1 = this
  have r: "respond X (from_resp (t k)) (ser (t k)) c (fresh_master (\<lambda>_. 0)) = ((c, fresh_master (\<lambda>_. 0)), Ok noauth_reply)"
    if "tc_fd c = 7" for k c
    using that na by (simp add: respond_def f is_auth_cmd_def)
  have v: "serve_values X [t ''a''] (client_new 7 [100, 3]) (sv_handler s) = ((c1, fresh_master (\<lambda>_. 0)), Ok ())"
    using r [of "client_new 7 [100, 3]" "''a''"] c1(1) w(1)
    by (simp add: serve_value_def serialize_ok wf_resp_serializable client_new_def s c1_def case_prod_beta prod_eq_iff)
  have "\<exists>s'. read_event X 7 (Some (concat (map ser ([t ''a''] @ t ''b'' # [t ''c''])))) s = Some (Ok s') \<and>
      hm_get (sv_clients s') 7 = None \<and> h_data (sv_handler s') = h_data (fresh_master (\<lambda>_. 0))"
  proof (rule cut_reply_closes_the_connection [OF _ _ _ _ v r [OF c1(3)] _ c1(2) n(1)])
    show "hm_get (sv_clients s) 7 = Some (client_new 7 [100, 3])" by (simp add: s)
    show "idle (client_new 7 [100, 3])" by (simp add: idle_def client_new_def)
    show "rp_status (tc_repl (client_new 7 [100, 3])) \<noteq> Some Master" by (simp add: client_new_def repl_state_new_def)
    show "list_all wf_resp ([t ''a''] @ t ''b'' # [t ''c''])" using w by simp
  qed simp
  with s show "\<exists>s s'. s = \<lparr>sv_clients = [(7, client_new 7 [100, 3])], sv_handler = fresh_master (\<lambda>_. 0), sv_disarmed = [],
      sv_listener = 3, sv_timer = 4\<rparr> \<and>
    read_event X 7 (Some (concat (map (\<lambda>c. ser (arr (map bulk (request c)))) [CGET ''a'', CGET ''b'', CGET ''c'']))) s = Some (Ok s') \<and>
    hm_get (sv_clients s') 7 = None" by (auto simp: t)
qed



text \<open>
  C20. Closing a connection leaves its descriptor in the channels it has subscribed to. The next
  PUBLISH to one of them queues a message for it, and the unwrap at the end of the turn panics:
  any client can end the server.
\<close>

theorem publish_to_a_lost_subscriber:
  assumes "server_inv s" and "hm_get (sv_clients s) g = Some c" and "idle c \<and> tc_stream c = []" and "g \<noteq> fd"
    and "rp_status (tc_repl c) \<noteq> Some Master" and "check_auth g (h_auth (sv_handler s))"
    and "g \<notin> set (h_subs (sv_handler s))" and "\<not> is_transaction g (h_reg (sv_handler s))"
    and "fd \<in> members ch (sv_handler s)" and "wf_resp t" and "from_resp t = Ok (CPUBLISH ch m)"
  shows "server_turn X [Readable g (Some (ser t))] (disconnect fd s) = Some Panic"
  by (rule published_to_the_gone [OF assms])

theorem publish_to_a_lost_subscriber_witness:
  "\<forall>X. \<exists>s. s = \<lparr>sv_clients = [(7, client_new 7 []), (8, client_new 8 [])],
      sv_handler = (fresh_master (\<lambda>_. 0))\<lparr>h_subs := [8], h_chans := [(''c'', [8])],
        h_auth := auth_new\<lparr>au_clients := [(7, ''default''), (8, ''default'')]\<rparr>, h_epoll := [3, 4, 7, 8]\<rparr>,
      sv_disarmed = [], sv_listener = 3, sv_timer = 4\<rparr> \<and>
    server_turn X [Readable 7 (Some (ser (arr (map bulk (request (CPUBLISH ''c'' ''m''))))))] (disconnect 8 s) = Some Panic"
proof
  fix X :: externals
  define s where s: "s = \<lparr>sv_clients = [(7, client_new 7 []), (8, client_new 8 [])],
      sv_handler = (fresh_master (\<lambda>_. 0))\<lparr>h_subs := [8], h_chans := [(''c'', [8])],
        h_auth := auth_new\<lparr>au_clients := [(7, ''default''), (8, ''default'')]\<rparr>, h_epoll := [3, 4, 7, 8]\<rparr>,
      sv_disarmed = [], sv_listener = 3, sv_timer = 4\<rparr>"
  have "handler_inv (sv_handler s)"
    using inv_fresh [of "\<lambda>_. 0"] by (simp add: s handler_inv_def pubsub_inv_def auth_inv_def auth_new_def hm_inv_def)
  then have inv: "server_inv s"
    by (auto simp: s server_inv_def clients_ok_def own_fds_def hm_inv_def client_new_def parser_inv_new split: if_splits)
  let ?t = "arr (map bulk (request (CPUBLISH ''c'' ''m'')))"
  have t: "from_resp ?t = Ok (CPUBLISH ''c'' ''m'')" by (rule from_resp_request) simp
  have "server_turn X [Readable 7 (Some (ser ?t))] (disconnect 8 s) = Some Panic"
    by (rule publish_to_a_lost_subscriber [OF inv _ _ _ _ _ _ _ _ _ t, where c = "client_new 7 []"])
      (simp_all add: s client_new_def idle_def repl_state_new_def check_auth_def hm_contains_def is_transaction_def
        fresh_master_def handler_new_def registry_new_def members_def arr_def bulk_def in_range_def)
  with s show "\<exists>s. s = \<lparr>sv_clients = [(7, client_new 7 []), (8, client_new 8 [])],
      sv_handler = (fresh_master (\<lambda>_. 0))\<lparr>h_subs := [8], h_chans := [(''c'', [8])],
        h_auth := auth_new\<lparr>au_clients := [(7, ''default''), (8, ''default'')]\<rparr>, h_epoll := [3, 4, 7, 8]\<rparr>,
      sv_disarmed = [], sv_listener = 3, sv_timer = 4\<rparr> \<and>
    server_turn X [Readable 7 (Some (ser ?t))] (disconnect 8 s) = Some Panic" by blast
qed

text \<open>
  C21. A blocked request is identified by the millisecond it came in. When two clients block on
  different lists in the same millisecond, only the second request is stored; a push to the list
  of the first finds that request, removes it and answers nobody: the element stays in the list,
  no request is left, and neither client will ever be answered.
\<close>

theorem requests_of_one_millisecond_are_lost:
  assumes "h_reg h = registry_new" and "look k1 h = None" and "look k2 h = None" and "k1 \<noteq> k2"
    and "\<And>n. h_clock h n = T" and "host_stats (h_states h) \<noteq> None" and "g \<notin> set (h_subs h)"
    and "h2 = fst (cmd_blpop k2 None c2 (fst (cmd_blpop k1 None c1 h)))"
    and "h3 = fst (handle X (Ok (CRPUSH k1 [v])) b g True h2)"
  shows "rg_store (h_reg h2) = [(T, ListReq k2 0 c2 T)] \<and> h_queue (serve_backlog_list h3) = h_queue h3 \<and>
    rg_store (h_reg (serve_backlog_list h3)) = [] \<and> elements k1 (serve_backlog_list h3) = [v]"
  using same_millisecond [OF assms(1-7)] by (simp add: assms(8,9))

theorem requests_of_one_millisecond_are_lost_witness:
  "\<forall>X. \<exists>h2 h3. h2 = fst (cmd_blpop ''l'' None 8 (fst (cmd_blpop ''k'' None 7 (fresh_master (\<lambda>_. 5))))) \<and>
     h3 = fst (handle X (Ok (CRPUSH ''k'' [''v''])) [] 9 True h2) \<and>
     rg_store (h_reg h2) = [(5, ListReq ''l'' 0 8 5)] \<and> h_queue (serve_backlog_list h3) = h_queue h3 \<and>
     rg_store (h_reg (serve_backlog_list h3)) = [] \<and> elements ''k'' (serve_backlog_list h3) = [''v'']"
proof
  fix X :: externals
  define h2 where h2: "h2 = fst (cmd_blpop ''l'' None 8 (fst (cmd_blpop ''k'' None 7 (fresh_master (\<lambda>_. 5)))))"
  define h3 where h3: "h3 = fst (handle X (Ok (CRPUSH ''k'' [''v''])) [] 9 True h2)"
  have "rg_store (h_reg h2) = [(5, ListReq ''l'' 0 8 5)] \<and> h_queue (serve_backlog_list h3) = h_queue h3 \<and>
     rg_store (h_reg (serve_backlog_list h3)) = [] \<and> elements ''k'' (serve_backlog_list h3) = [''v'']"
    by (rule requests_of_one_millisecond_are_lost [OF _ _ _ _ _ _ _ h2 h3])
      (simp_all add: fresh_master_def handler_new_def look_def)
  with h2 h3 show "\<exists>h2 h3. h2 = fst (cmd_blpop ''l'' None 8 (fst (cmd_blpop ''k'' None 7 (fresh_master (\<lambda>_. 5))))) \<and>
     h3 = fst (handle X (Ok (CRPUSH ''k'' [''v''])) [] 9 True h2) \<and>
     rg_store (h_reg h2) = [(5, ListReq ''l'' 0 8 5)] \<and> h_queue (serve_backlog_list h3) = h_queue h3 \<and>
     rg_store (h_reg (serve_backlog_list h3)) = [] \<and> elements ''k'' (serve_backlog_list h3) = [''v'']" by blast
qed



text \<open>
  C23. The timer is registered for one event and never registered again: in every run of the
  server, over all batches of events, the timer fires at most once, and every deadline after
  that is never served.
\<close>

theorem timer_fires_once:
  assumes "server_run X w bs s" and "world_ok w"
  shows "length (filter ((=) TimerFired) (concat bs)) \<le> 1 \<and>
    (TimerFired \<in> set (concat bs) \<longrightarrow> \<not> may_fire s TimerFired)"
  using timer_batches [OF assms] server_run_inv [OF assms] by (auto simp: may_fire_def event_fd_def)

theorem timer_fires_once_witness:
  "\<forall>X. \<exists>w s. w = \<lparr>wd_args = [], wd_files = \<lparr>fs_files = [], fs_dirs = []\<rparr>, wd_clock = \<lambda>_. 0, wd_listener = 3,
      wd_timer = 4, wd_master = None\<rparr> \<and>
    server_run X w [[AcceptError]] s \<and> length (filter ((=) TimerFired) (concat [[AcceptError]])) \<le> 1 \<and>
    (TimerFired \<in> set (concat [[AcceptError]]) \<longrightarrow> \<not> may_fire s TimerFired)"
proof
  fix X
  define w where w: "w = \<lparr>wd_args = [], wd_files = \<lparr>fs_files = [], fs_dirs = []\<rparr>, wd_clock = \<lambda>_. 0, wd_listener = 3,
      wd_timer = 4, wd_master = None\<rparr>"
  let ?s = "epoll_add 4 (epoll_add 3 (server_new 3 4 (set_aof aof_new (fresh_master (\<lambda>_. 0)))))"
  note defs = epoll_add_def add_interest_def server_new_def set_aof_def fresh_master_def handler_new_def aof_new_def
  have "server_run X w [] ?s" using default_start [of w X] w by (intro server_run.start) simp
  moreover have "batch_ok X [AcceptError] ?s"
    by (simp add: batch_ok_def may_fire_def event_fd_def descriptor_free_def defs split: option.split result.split)
  moreover obtain s where "server_turn X [AcceptError] ?s = Some (Ok s)"
    by (simp add: server_turn_def server_event_def rearm_listener_def modify_interest_def disarm_def event_fd_def
        end_of_turn_def serve_backlog_list_def serve_backlog_stream_def handler_aof_flush_def aof_flush_def defs Let_def)
  ultimately have r: "server_run X w [[AcceptError]] s"
    using server_run.turn [of X w "[]" ?s "[AcceptError]" s] by (simp add: server_step.turn)
  moreover have "world_ok w" using w by (simp add: world_ok_def)
  ultimately show "\<exists>w s. w = \<lparr>wd_args = [], wd_files = \<lparr>fs_files = [], fs_dirs = []\<rparr>, wd_clock = \<lambda>_. 0, wd_listener = 3,
      wd_timer = 4, wd_master = None\<rparr> \<and>
    server_run X w [[AcceptError]] s \<and> length (filter ((=) TimerFired) (concat [[AcceptError]])) \<le> 1 \<and>
    (TimerFired \<in> set (concat [[AcceptError]]) \<longrightarrow> \<not> may_fire s TimerFired)"
    using timer_fires_once w by blast
qed

text \<open>
  C24. A replica that connects to a master completes its handshake: PONG, OK, OK and the answer
  to PSYNC (the line and the RDB file) take it to the established state with the connection
  registered as its master, and it has then sent exactly PING, REPLCONF listening-port, REPLCONF
  capa and PSYNC ? -1.
\<close>

theorem handshake_completes:
  assumes "check_auth fd (h_auth h)" and "host_stats (h_states h) = Some s0" and "rs_port s0 = Some port"
    and "i64_range (rs_offset s)" and "rdb \<noteq> []" and "length rdb < 2 ^ 64"
  shows "\<exists>c1 c2 c3 c4 h4.
    read_socket X (Some (status_line ''PONG'')) (init_handshake (client_new fd [])) h = Some ((c1, h), Ok ()) \<and>
    read_socket X (Some (status_line ''OK'')) c1 h = Some ((c2, h), Ok ()) \<and>
    read_socket X (Some (status_line ''OK'')) c2 h = Some ((c3, h), Ok ()) \<and>
    read_socket X (Some (ser (SimpleStr (Some (fullresync_line s))) @ rdb_frame rdb)) c3 h =
      Some ((c4, h4), Ok ()) \<and>
    tc_hs c4 = HsEstablished \<and> idle c4 \<and> is_master fd (h_table h4) \<and> h_data h4 = h_data h \<and>
    tc_sent c4 = handshake_sent port"
  by (rule handshake_whole [OF assms])

theorem handshake_completes_witness:
  "\<forall>X. \<exists>h s c1 c2 c3 c4 h4. h = (fresh_master (\<lambda>_. 0))\<lparr>h_auth := auth_new\<lparr>au_clients := [(7, ''default'')]\<rparr>\<rparr> \<and>
      s = repl_stats_new None None \<and>
      read_socket X (Some (status_line ''PONG'')) (init_handshake (client_new 7 [])) h = Some ((c1, h), Ok ()) \<and>
      read_socket X (Some (status_line ''OK'')) c1 h = Some ((c2, h), Ok ()) \<and>
      read_socket X (Some (status_line ''OK'')) c2 h = Some ((c3, h), Ok ()) \<and>
      read_socket X (Some (ser (SimpleStr (Some (fullresync_line s))) @ rdb_frame ''REDIS'')) c3 h =
        Some ((c4, h4), Ok ()) \<and>
      tc_hs c4 = HsEstablished \<and> idle c4 \<and> is_master 7 (h_table h4) \<and> h_data h4 = h_data h \<and>
      tc_sent c4 = handshake_sent 6379"
proof
  fix X :: externals
  define h where "h = (fresh_master (\<lambda>_. 0))\<lparr>h_auth := auth_new\<lparr>au_clients := [(7, ''default'')]\<rparr>\<rparr>"
  define s where "s = repl_stats_new None None"
  have "check_auth 7 (h_auth h)" "i64_range (rs_offset s)"
    "host_stats (h_states h) = Some (start_bytes_count (repl_stats_new (Some ''127.0.0.1'') (Some 6379)))"
    by (simp_all add: h_def s_def fresh_master_def handler_new_def check_auth_def hm_contains_def
        repl_stats_new_def i64_range_def)
  note a = this
  have p: "rs_port (start_bytes_count (repl_stats_new (Some ''127.0.0.1'') (Some 6379))) = Some 6379"
    and q: "''REDIS'' \<noteq> []" "length ''REDIS'' < 2 ^ 64"
    by (simp_all add: start_bytes_count_def repl_stats_new_def)
  have "\<exists>c1 c2 c3 c4 h4.
      read_socket X (Some (status_line ''PONG'')) (init_handshake (client_new 7 [])) h = Some ((c1, h), Ok ()) \<and>
      read_socket X (Some (status_line ''OK'')) c1 h = Some ((c2, h), Ok ()) \<and>
      read_socket X (Some (status_line ''OK'')) c2 h = Some ((c3, h), Ok ()) \<and>
      read_socket X (Some (ser (SimpleStr (Some (fullresync_line s))) @ rdb_frame ''REDIS'')) c3 h =
        Some ((c4, h4), Ok ()) \<and>
      tc_hs c4 = HsEstablished \<and> idle c4 \<and> is_master 7 (h_table h4) \<and> h_data h4 = h_data h \<and>
      tc_sent c4 = handshake_sent 6379"
    by (rule handshake_completes [OF a(1,3) p a(2) q])
  then show "\<exists>h s c1 c2 c3 c4 h4. h = (fresh_master (\<lambda>_. 0))\<lparr>h_auth := auth_new\<lparr>au_clients := [(7, ''default'')]\<rparr>\<rparr> \<and>
      s = repl_stats_new None None \<and>
      read_socket X (Some (status_line ''PONG'')) (init_handshake (client_new 7 [])) h = Some ((c1, h), Ok ()) \<and>
      read_socket X (Some (status_line ''OK'')) c1 h = Some ((c2, h), Ok ()) \<and>
      read_socket X (Some (status_line ''OK'')) c2 h = Some ((c3, h), Ok ()) \<and>
      read_socket X (Some (ser (SimpleStr (Some (fullresync_line s))) @ rdb_frame ''REDIS'')) c3 h =
        Some ((c4, h4), Ok ()) \<and>
      tc_hs c4 = HsEstablished \<and> idle c4 \<and> is_master 7 (h_table h4) \<and> h_data h4 = h_data h \<and>
      tc_sent c4 = handshake_sent 6379"
    using h_def s_def by blast
qed

text \<open>
  C25. Access control at the connection: whatever value a client sends that is not
  authenticated, in no transaction, no subscriber and not the link to the master, either the
  handler is afterwards the same, or the value was an AUTH that named an existing user with a
  password whose hash is stored for this user; then the client is logged in as this user and
  nothing else has changed but the two flags of a push.
\<close>

theorem unauthenticated_changes_nothing:
  assumes "\<not> check_auth (tc_fd c) (h_auth h)" and "\<not> is_transaction (tc_fd c) (h_reg h)"
    and "\<not> is_subscriber (tc_fd c) h" and "\<not> is_master (tc_fd c) (h_table h)"
    and "rp_status (tc_repl c) \<noteq> Some Master"
    and "serve_value X t c h = ((c1, h1), r)"
  shows "h1 = h \<or> (\<exists>u p cr. from_resp t = Ok (CAUTH u p) \<and>
    hm_get (au_credentials (h_auth h)) u = Some cr \<and> x_hash X p \<in> set (cr_passwords cr) \<and>
    h1 = h\<lparr>h_auth := (h_auth h)\<lparr>au_clients := hm_insert (tc_fd c) u (au_clients (h_auth h))\<rparr>,
      h_flag_list := False, h_flag_stream := False\<rparr>)"
  using serve_unauthenticated [OF assms] unfolding logged_in_def by blast

theorem unauthenticated_changes_nothing_witness:
  "\<forall>X. \<exists>c1 h1 r. serve_value X (arr (map bulk (request (CSET ''k'' ''v'' None)))) (client_new 7 [])
      (fresh_master (\<lambda>_. 0)) = ((c1, h1), r) \<and> h1 = fresh_master (\<lambda>_. 0)"
proof
  fix X
  let ?sv = "serve_value X (arr (map bulk (request (CSET ''k'' ''v'' None)))) (client_new 7 []) (fresh_master (\<lambda>_. 0))"
  obtain c1 h1 r where sv: "?sv = ((c1, h1), r)" by (metis prod.collapse)
  have "from_resp (arr (map bulk (request (CSET ''k'' ''v'' None)))) = Ok (CSET ''k'' ''v'' None)"
    by (rule from_resp_request) (auto simp: in_range_def)
  with unauthenticated_changes_nothing [OF _ _ _ _ _ sv]
  have "h1 = fresh_master (\<lambda>_. 0)"
    by (auto simp: client_new_def fresh_master_def handler_new_def check_auth_def auth_new_def hm_contains_def
        is_transaction_def registry_new_def is_subscriber_def is_master_def client_table_new_def repl_state_new_def)
  with sv show "\<exists>c1 h1 r. ?sv = ((c1, h1), r) \<and> h1 = fresh_master (\<lambda>_. 0)" by blast
qed

text \<open>
  C26. An RDB file with any number of string entries of fewer than 64 bytes, with or without a
  deadline in milliseconds, is read into exactly the store that inserting the entries in their
  order gives; what follows the end mark is ignored.
\<close>

theorem rdb_files_are_read_back:
  assumes "\<And>k v t. (k, v, t) \<in> set es \<Longrightarrow> short_text k \<and> short_text v" and "length hd9 = 9"
  shows "rdb_read (hd9 @ concat (map rdb_item es) @ [CHR 0xFF] @ r) = Ok (fold rdb_insert es [])"
  by (rule rdb_read_items [OF assms])

theorem rdb_files_are_read_back_witness:
  "rdb_read (''REDIS0011'' @ concat (map rdb_item [(''k'', ''v'', Some 5), (''l'', ''w'', None)]) @ [CHR 0xFF] @ ''x'') =
    Ok (fold rdb_insert [(''k'', ''v'', Some 5), (''l'', ''w'', None)] [])"
  by (rule rdb_files_are_read_back) (auto simp: short_text_def in_range_def)

text \<open>
  C27. The parser loop never hangs: from every state that satisfies the cursor invariant (a new
  parser does, and feeding bytes keeps it) parsing ends, and a normal return satisfies the
  invariant again.
\<close>

theorem parser_returns:
  assumes "parser_inv p"
  shows "\<exists>r. parse rdb (feed_buf d p) = Some r \<and> (\<forall>p'. r = Return p' \<longrightarrow> parser_inv p')"
  using parse_returns [OF parser_inv_feed [OF assms]] parse_Return_inv [OF _ parser_inv_feed [OF assms]]
  by metis

theorem parser_returns_witness:
  "\<exists>r. parse True (feed_buf ''$3'' new_parser) = Some r \<and> (\<forall>p'. r = Return p' \<longrightarrow> parser_inv p')"
  by (rule parser_returns [OF parser_inv_new])

text \<open>
  C28. A step of the parser panics only when the client declared a bulk length so large that
  adding the trailing CR LF wraps around.
\<close>

theorem parser_crash_needs_huge_length:
  assumes "parser_inv p" and "length (buf p) < 2 ^ 63" and "parse_step rdb p = Crash"
  shows "\<exists>n. 2 ^ 64 - 2 \<le> n \<and> (status p = StBulk n \<or> status p = StRDB n)"
  using parse_step_crash [OF assms(3,1,2)] .

theorem parser_crash_needs_huge_length_witness:
  "parse_step False (at_start ''abc'' [BulkStr (2 ^ 64 - 1) None] (StBulk (2 ^ 64 - 1))) = Crash \<and>
   (\<exists>n. 2 ^ 64 - 2 \<le> n \<and>
     (status (at_start ''abc'' [BulkStr (2 ^ 64 - 1) None] (StBulk (2 ^ 64 - 1))) = StBulk n \<or>
      status (at_start ''abc'' [BulkStr (2 ^ 64 - 1) None] (StBulk (2 ^ 64 - 1))) = StRDB n))"
proof -
  let ?p = "at_start ''abc'' [BulkStr (2 ^ 64 - 1) None] (StBulk (2 ^ 64 - 1))"
  have "parser_inv ?p" and "length (buf ?p) < 2 ^ 63"
    by (simp_all add: parser_inv_def at_start_def)
  moreover have c: "parse_step False ?p = Crash"
    by (simp add: parse_step_def at_start_def pop_completed_def parse_bulk_def read_bytes_def
        read_cursor_def read_total_def usize_add_def usize_sub_def wrap_usize_def read_token_def
        index_def Let_def)
  ultimately show ?thesis using parser_crash_needs_huge_length by blast
qed

text \<open>
  C29. The registry keeps its indexes in step: inserting a request under a fresh timestamp and
  removing any request preserve that the queues, the set of waiting streams and the deadlines
  name exactly the stored requests. (A timestamp in use breaks this: see the requests of one
  millisecond.)
\<close>

theorem registry_stays_consistent:
  assumes "reg_inv r" and "hm_get (rg_store r) ts = None" and "re_deadline e = d"
    and "unat d + length (rg_deadline r) < 2 ^ 64"
  shows "reg_inv (reg_insert now ts d e r) \<and> reg_inv (snd (reg_remove now' ts' (reg_insert now ts d e r)))"
  using reg_inv_insert [OF assms] reg_inv_remove by blast

theorem registry_stays_consistent_witness:
  "reg_inv (reg_insert 5 7 9 (ListReq ''k'' 9 1 7) registry_new) \<and>
   reg_inv (snd (reg_remove 6 7 (reg_insert 5 7 9 (ListReq ''k'' 9 1 7) registry_new)))"
  by (rule registry_stays_consistent [OF reg_inv_new]) (simp_all add: registry_new_def)

text \<open>
  C30. In every state the handler reaches from its start, by commands, deadlines and what the
  event loop does between them, no queue of a transaction holds an EXEC; and a command runs with
  any larger number of levels as it does with two, so that the recursion of EXEC into the
  dispatcher ends.
\<close>

theorem nested_execution_ends:
  assumes "(handler_step X)\<^sup>*\<^sup>* (handler_new st cf clk a) h" and "states_inv st"
  shows "(\<forall>cl q. hm_get (rg_txn (h_reg h)) cl = Some q \<longrightarrow> CEXEC \<notin> fst ` set q) \<and>
    execute (Suc n) X c b client ep s h = execute 2 X c b client ep s h"
  using reachable_levels [OF assms] by blast

theorem nested_execution_ends_witness:
  "\<forall>X. \<exists>h. h = fst (handle X (Ok CPING) [] 4 True (fst (handle X (Ok CMULTI) [] 4 True (fresh_master (\<lambda>_. 0))))) \<and>
     hm_get (rg_txn (h_reg h)) 4 = Some [(CPING, [])] \<and>
     execute (Suc 7) X CEXEC [] 4 None True h = execute 2 X CEXEC [] 4 None True h"
proof
  fix X
  define h1 where h1: "h1 = fst (handle X (Ok CMULTI) [] 4 True (fresh_master (\<lambda>_. 0)))"
  define h where h: "h = fst (handle X (Ok CPING) [] 4 True h1)"
  have "handler_step X (fresh_master (\<lambda>_. 0)) h1" "handler_step X h1 h"
    unfolding h h1 by (rule handler_step.Command)+
  then have r: "(handler_step X)\<^sup>*\<^sup>* (fresh_master (\<lambda>_. 0)) h" by auto
  have "states_inv \<lparr>host_stats = Some (start_bytes_count (repl_stats_new (Some ''127.0.0.1'') (Some 6379))),
      master_stats = None\<rparr>"
    by (simp add: states_inv_def start_bytes_count_def repl_stats_new_def i64_range_def)
  then have e: "execute (Suc 7) X CEXEC [] 4 None True h = execute 2 X CEXEC [] 4 None True h"
    by (rule nested_execution_ends [THEN conjunct2, OF r [unfolded fresh_master_def]])
  have "rg_txn (h_reg h1) = [(4, [])]"
    by (simp add: h1 handle_def numeral_2_eq_2 execute_with_def Let_def is_subscriber_def stats_missing_def
        fresh_master_def handler_new_def dispatch_def cmd_multi_def reply_def after_ok_def to_output_def
        is_master_def client_table_new_def response_ok_def serialize_ok is_transaction_def registry_new_def
        hm_contains_def before_cmd_def to_be_broadcast_def on_reg_def set_dirty_def dirty_key_def)
  then have "hm_get (rg_txn (h_reg h)) 4 = Some [(CPING, [])]"
    by (simp add: h handle_def is_transaction_def hm_contains_def on_reg_def add_to_txn_def)
  with e h h1 show "\<exists>h. h = fst (handle X (Ok CPING) [] 4 True (fst (handle X (Ok CMULTI) [] 4 True (fresh_master (\<lambda>_. 0))))) \<and>
     hm_get (rg_txn (h_reg h)) 4 = Some [(CPING, [])] \<and>
     execute (Suc 7) X CEXEC [] 4 None True h = execute 2 X CEXEC [] 4 None True h" by blast
qed

text \<open>
  C31. No array of strings makes the command builder panic, whatever its words, except GEODIST
  with a key and fewer than two members.
\<close>

theorem builder_panics_only_on_short_geodist:
  "from_resp (arr (map bulk (w # ws))) = Panic \<longleftrightarrow>
   to_ascii_upper w = ''GEODIST'' \<and> (length ws = 1 \<or> length ws = 2)"
  by (rule from_resp_panic)

text \<open>
  C32. On a non-empty list of fewer than 2^63 elements the index arithmetic of LRANGE, with its
  casts to unsigned integers, computes the slice between the two indices, negative ones counted
  from the end and clamped to the list; it is empty when the stop comes before the start, as in
  LRANGE key -1 -2.
\<close>

theorem lrange_is_a_slice:
  assumes "list_at k h = Some xs" and "xs \<noteq> []" and "length xs < 2 ^ 63" and "i64_range start"
  shows "cmd_lrange k start stop h = reply (arr (map bulk (clamped start stop xs)))"
  by (rule cmd_lrange_slice [OF assms])

theorem lrange_is_a_slice_witness:
  "cmd_lrange ''l'' (-2) 5 (put ''l'' (item (VList [''a'', ''b'', ''c'']) None)
     (fresh_master (\<lambda>_. 0))) = reply (arr (map bulk (clamped (-2) 5 [''a'', ''b'', ''c''])))"
  by (rule lrange_is_a_slice) (simp_all add: list_at_def i64_range_def)

text \<open>
  C33. In a sorted set that holds no NaN the rank of a member is the number of members that come
  before it by score, ties broken by name, plus the number of stale entries of the ordered index
  before it: entries of scores a member no longer has, which an update of a score leaves behind.
  A set whose scores were never changed has no stale entry, and the rank is the number of
  smaller members.
\<close>

theorem rank_counts_smaller_members:
  assumes "zs_inv z" and "zs_ordered z" and "zs_score m z = Some s"
  shows "zs_rank m z = Ok (Some (int (card {m'. zs_below z m' m} + card (stale_below z m)))) \<and>
    (zs_clean z \<longrightarrow> stale_below z m = {})"
  using zs_rank_stale [OF assms] stale_none by blast

theorem rank_counts_smaller_members_witness:
  "\<exists>z n. zs_add 0 ''a'' zs_new = Ok (z, n) \<and> zs_rank ''a'' z = Ok (Some (int (card {m'. zs_below z m' ''a''})))"
proof -
  have nn: "\<not> is_nan 0" by (simp add: is_nan_def mag_bits_def inf_bits_def)
  have o: "zs_ordered zs_new" and b: "bt_inv (zs_scores zs_new)"
    by (simp_all add: zs_ordered_def zs_new_def bt_keys_def)
  obtain z n where z: "zs_add 0 ''a'' zs_new = Ok (z, n)" "zs_ordered z"
    using zs_add_returns [OF o nn b] by blast
  have "zs_clean z"
    by (rule zs_clean_add [OF zs_clean_new z(1)]) (simp add: zs_score_def zs_new_def)
  moreover have "zs_score ''a'' z = Some 0" using zs_score_add [OF zs_inv_new z(1)] by simp
  moreover have "zs_inv z" using \<open>zs_clean z\<close> by (simp add: zs_clean_def)
  ultimately show ?thesis using z rank_counts_smaller_members [of z "''a''"] by auto
qed

text \<open>
  C34. The magic-mask bit shuffles are inverse to each other: taking apart the interleaved cell
  numbers gives both of them back, and every 64-bit value is the interleaving of its two halves.
\<close>

theorem geohash_bits_roundtrip:
  "deinterleave (interleave long lat) = (ucast long, ucast lat) \<and>
   (case deinterleave s of (x, y) \<Rightarrow> interleave (ucast x) (ucast y)) = s"
  using deinterleave_interleave interleave_deinterleave by blast

text \<open>
  C35. Two cell numbers below 2^26 interleave to a value below 2^52, which survives being stored
  as an f64 score and read back as an unsigned integer.
\<close>

theorem geohash_survives_float:
  assumes "unat long < 2 ^ 26" and "unat lat < 2 ^ 26"
  shows "f_to_u64 (f_of_nat (unat (interleave long lat))) = interleave long lat"
  by (rule score_survives_f64 [OF assms])

theorem geohash_survives_float_witness:
  "f_to_u64 (f_of_nat (unat (interleave 52287283 38969283))) = interleave 52287283 38969283"
  by (rule geohash_survives_float) simp_all

text \<open>
  C36. Lost wake-up: whatever a push before it has promised, after any other command that
  succeeds the service of blocked list readers does nothing, however many elements and waiting
  clients there are.
\<close>

theorem later_commands_cancel_the_wake_up:
  assumes "handler_inv h" and "\<not> is_subscriber client h" and "\<not> is_flag_list c"
    and "snd (execute n X c b client ep True h) = Ok out" and "out \<noteq> CoNone"
  shows "serve_backlog_list (fst (execute n X c b client ep True h)) = fst (execute n X c b client ep True h)"
  by (rule lost_wake_up [OF assms])

theorem later_commands_cancel_the_wake_up_witness:
  "\<exists>X h. h_flag_list h \<and> serve_backlog_list (fst (execute 2 X CPING [] 4 None True h)) =
     fst (execute 2 X CPING [] 4 None True h)"
proof -
  fix X :: externals
  let ?h = "(fresh_master (\<lambda>_. 0))\<lparr>h_flag_list := True\<rparr>"
  have i: "handler_inv ?h" using inv_fresh by simp
  have "snd (execute 2 X CPING [] 4 None True ?h) = Ok (CoBytes (ser (SimpleStr (Some ''PONG''))))"
    by (simp add: numeral_2_eq_2 execute_with_def Let_def is_subscriber_def stats_missing_def
        fresh_master_def handler_new_def dispatch_def cmd_ping_def reply_def after_ok_def to_output_def
        before_cmd_def to_be_broadcast_def on_reg_def is_master_def client_table_new_def serialize_ok)
  from later_commands_cancel_the_wake_up [OF i _ _ this] have
    "serve_backlog_list (fst (execute 2 X CPING [] 4 None True ?h)) = fst (execute 2 X CPING [] 4 None True ?h)"
    by (simp add: is_subscriber_def is_flag_list_def fresh_master_def handler_new_def)
  then show ?thesis by (intro exI [of _ X] exI [of _ ?h]) simp
qed

text \<open>
  C37. BLPOP never answers at once: a key nobody waits for has no queue, which the source takes
  for a queue that is not empty, so in every state the server can reach it parks the client and
  leaves the list as it is, however long the list.
\<close>

theorem blpop_blocks_on_a_full_list:
  assumes "handler_inv h" and "list_at k h = Some xs"
  shows "snd (cmd_blpop k t client h) = Ok None \<and> list_at k (fst (cmd_blpop k t client h)) = Some xs"
  using blpop_always_waits [OF assms] by simp

theorem blpop_blocks_on_a_full_list_witness:
  "snd (cmd_blpop ''k'' None 4 (put ''k'' (item (VList [''a'']) None) (fresh_master (\<lambda>_. 0)))) = Ok None"
proof -
  let ?h = "put ''k'' (item (VList [''a'']) None) (fresh_master (\<lambda>_. 0))"
  have "handler_inv ?h"
    by (rule inv_put [OF inv_fresh]) simp
  from blpop_blocks_on_a_full_list [OF this, of "''k''" "[''a'']"] show ?thesis by (simp add: list_at_def)
qed

text \<open>
  C38. When XADD with a given timestamp succeeds, and it does not ask for the next sequence
  number while the last one is already the last of its 64 bits, the stream is the old one with
  exactly one entry appended, its id is greater than all before it, and that id is the reply.
\<close>

theorem stream_ids_only_grow:
  assumes "stream_at k h = Some b" and "bt_inv b" and "snd (cmd_xadd k i vs h) = reply r"
    and "i \<noteq> (None, None)" and "\<And>l v. bt_last b = Some (l, v) \<Longrightarrow> snd i = None \<longrightarrow> snd l \<noteq> - 1"
  shows "\<exists>sid. stream_at k (fst (cmd_xadd k i vs h)) = Some (b @ [(sid, vs)]) \<and>
    (\<forall>k' \<in> bt_keys b. k' < sid) \<and> r = bulk (show_stream_id sid)"
  by (rule cmd_xadd_appends [OF assms])

theorem stream_ids_only_grow_witness:
  "\<exists>sid. stream_at ''s'' (fst (cmd_xadd ''s'' (Some 5, None) [''f'', ''v'']
      (put ''s'' (item (VStream [((5, 1), [''a'', ''b''])]) None) (fresh_master (\<lambda>_. 0))))) =
    Some ([((5, 1), [''a'', ''b''])] @ [(sid, [''f'', ''v''])]) \<and>
    (\<forall>k' \<in> bt_keys [((5 :: u64, 1 :: u64), [''a'', ''b''])]. k' < sid) \<and> bulk ''5-2'' = bulk (show_stream_id sid)"
proof (rule stream_ids_only_grow)
  show "snd (cmd_xadd ''s'' (Some 5, None) [''f'', ''v'']
      (put ''s'' (item (VStream [((5, 1), [''a'', ''b''])]) None) (fresh_master (\<lambda>_. 0)))) = reply (bulk ''5-2'')"
    by code_simp
qed (simp_all add: stream_at_def bt_inv_def bt_last_def)

text \<open>
  C39. PUBLISH on a channel the server knows queues the message frame exactly once for every
  subscriber of the channel and for nobody else, and answers how many there are. On a channel
  nobody has ever joined it changes nothing, and there is no answer at all, not even 0.
\<close>

theorem publish_reaches_exactly_the_members:
  assumes "pubsub_inv h"
  shows "case hm_get (h_chans h) ch of
      None \<Rightarrow> cmd_publish ch m h = (h, Ok None)
    | Some q \<Rightarrow> set q = members ch h \<and> distinct q \<and>
        h_queue (fst (cmd_publish ch m h)) =
          h_queue h @ map (\<lambda>i. (i, ser (arr [bulk ''message'', bulk ch, bulk m]))) q \<and>
        snd (cmd_publish ch m h) = reply (int_reply (int (card (members ch h))))"
  by (rule cmd_publish_all [OF assms])

theorem publish_reaches_exactly_the_members_witness:
  "\<exists>h. h = fst (cmd_subscribe [''c''] 4 (fresh_master (\<lambda>_. 0))) \<and>
     h_queue (fst (cmd_publish ''c'' ''m'' h)) = h_queue h @ [(4, ser (arr [bulk ''message'', bulk ''c'', bulk ''m'']))] \<and>
     snd (cmd_publish ''c'' ''m'' h) = reply (int_reply (int (card (members ''c'' h)))) \<and>
     cmd_publish ''d'' ''m'' h = (h, Ok None)"
proof -
  define h where h: "h = fst (cmd_subscribe [''c''] 4 (fresh_master (\<lambda>_. 0)))"
  have "pubsub_inv (fresh_master (\<lambda>_. 0))" using inv_fresh by (simp add: handler_inv_def)
  then have "pubsub_inv h" unfolding h by (rule pubsub_inv_subscribe)
  note p = publish_reaches_exactly_the_members [OF this]
  have "hm_get (h_chans h) ''c'' = Some [4]" "hm_get (h_chans h) ''d'' = None"
    by (simp_all add: h cmd_subscribe_def join_channel_def fresh_master_def handler_new_def hs_insert_def hm_or_insert_def)
  with p [of "''c''" "''m''"] p [of "''d''" "''m''"] h show ?thesis by auto
qed

text \<open>
  C40. After ACL SETUSER has added a password to a user, AUTH admits a client as that user
  exactly with a password of the same hash or one set before.
\<close>

theorem passwords_set_by_acl_admit:
  assumes "hm_get (au_credentials (h_auth h)) u = Some c"
  shows "snd (cmd_auth X u q client (fst (cmd_acl X (SetUser u [AddPassword p]) client' h))) = reply response_ok
    \<longleftrightarrow> x_hash X q = x_hash X p \<or> x_hash X q \<in> set (cr_passwords c)"
  by (rule setuser_then_auth [OF assms])

theorem passwords_set_by_acl_admit_witness:
  "\<exists>X. snd (cmd_auth X ''default'' ''p'' 4
     (fst (cmd_acl X (SetUser ''default'' [AddPassword ''p'']) 5 (fresh_master (\<lambda>_. 0))))) = reply response_ok"
proof -
  fix X :: externals
  obtain c where "hm_get (au_credentials (h_auth (fresh_master (\<lambda>_. 0)))) ''default'' = Some c"
    using inv_fresh [of "\<lambda>_. 0"] by (auto simp: handler_inv_def auth_inv_def)
  from passwords_set_by_acl_admit [OF this, of X "''p''" 4 "''p''" 5] show ?thesis by blast
qed

end
